(* ===== verification/Prelude.thy ===== *)
theory Prelude
  imports Main "HOL-Library.Word" "HOL-Library.Multiset"
begin

text \<open>
  Prelude of the development: the machine types of the Go program (\<open>uint64\<close>,
  \<open>uint32\<close>, \<open>byte\<close>), the conversions between them that the sources write
  (\<open>uint64(len(xs))\<close>, \<open>int(index) - 1\<close>), the result of an operation that may
  return an error or panic, and the lemmas on words, slices and majorities that several
  components share.
\<close>

unbundle bit_operations_syntax

type_synonym u64 = "64 word"
type_synonym u32 = "32 word"
type_synonym byte = "8 word"
type_synonym bytes = "8 word list"

text \<open>\<open>time.Time\<close> and \<open>time.Duration\<close> are numbers of nanoseconds.\<close>

type_synonym duration = int
type_synonym time = int

abbreviation Millisecond :: duration where
  "Millisecond \<equiv> 1000000"

abbreviation Second :: duration where
  "Second \<equiv> 1000000000"

text \<open>Reasons for a panic of the program.\<close>

datatype go_panic =
    CloseOfClosedChannel
  | InvalidTimerBounds
  | NilDereference
  | IndexOutOfRange
  | InvalidInt63n

named_theorems go_simps \<open>conversions between Go integers and HOL numbers\<close>
named_theorems wf_intros \<open>operations that keep a well-formedness invariant\<close>
named_theorems frame_simps \<open>fields an operation leaves alone\<close>


section \<open>Slices and 64-bit indices\<close>

text \<open>
  A Go slice has an \<open>int\<close> length, so it is shorter than \<open>2 ^ 63\<close>;
  \<open>slice_ok\<close> is this fact of the language.
\<close>

definition slice_ok :: "'a list \<Rightarrow> bool" where
  "slice_ok xs \<longleftrightarrow> length xs < 2 ^ 63"

text \<open>A slice that may be nil is an option; a nil slice reads as an empty one.\<close>

definition go_slice :: "'a list option \<Rightarrow> 'a list" where
  "go_slice v = (case v of None \<Rightarrow> [] | Some xs \<Rightarrow> xs)"

lemma go_slice_simps [simp]: "go_slice None = []" "go_slice (Some xs) = xs"
  by (simp_all add: go_slice_def)

text \<open>\<open>uint64(len(xs))\<close>\<close>

definition go_len :: "'a list \<Rightarrow> u64" where
  "go_len xs = of_nat (length xs)"

text \<open>
  \<open>int(index) - 1\<close>, the conversion of a 1-based index to a slice position, on a
  64-bit platform, where the subtraction wraps.
\<close>

definition array_index :: "u64 \<Rightarrow> int" where
  "array_index i = sint (i - 1)"

definition array_pos :: "u64 \<Rightarrow> nat" where
  "array_pos i = nat (array_index i)"

lemma unat_of_nat_u64 [go_simps]: "n < 2 ^ 64 \<Longrightarrow> unat (of_nat n :: u64) = n"
  by (simp add: unat_of_nat)

lemma slice_okD: "slice_ok xs \<Longrightarrow> length xs < 2 ^ 64"
  by (simp add: slice_ok_def)

lemma slice_ok_Nil [simp]: "slice_ok []"
  by (simp add: slice_ok_def)

lemma slice_ok_take [simp]: "slice_ok xs \<Longrightarrow> slice_ok (take n xs)"
  by (simp add: slice_ok_def)

lemma slice_ok_drop [simp]: "slice_ok xs \<Longrightarrow> slice_ok (drop n xs)"
  by (simp add: slice_ok_def)

lemma unat_go_len [go_simps]: "slice_ok xs \<Longrightarrow> unat (go_len xs) = length xs"
  by (simp add: go_len_def slice_ok_def unat_of_nat)

lemma go_len_Nil [simp]: "go_len [] = 0"
  by (simp add: go_len_def)

lemma word_le_go_len [go_simps]: "slice_ok xs \<Longrightarrow> i \<le> go_len xs \<longleftrightarrow> unat i \<le> length xs"
  by (simp add: word_le_nat_alt unat_go_len)

lemma go_len_less_word [go_simps]: "slice_ok xs \<Longrightarrow> go_len xs < i \<longleftrightarrow> length xs < unat i"
  by (simp add: word_less_nat_alt unat_go_len)

lemma word_less_go_len [go_simps]: "slice_ok xs \<Longrightarrow> i < go_len xs \<longleftrightarrow> unat i < length xs"
  by (simp add: word_less_nat_alt unat_go_len)

lemma go_len_le_word [go_simps]: "slice_ok xs \<Longrightarrow> go_len xs \<le> i \<longleftrightarrow> length xs \<le> unat i"
  by (simp add: word_le_nat_alt unat_go_len)

lemma go_len_eq_0 [go_simps]: "slice_ok xs \<Longrightarrow> go_len xs = 0 \<longleftrightarrow> xs = []"
  by (metis unat_go_len unat_0 length_0_conv go_len_Nil)

lemma sint_small:
  assumes "unat (i :: u64) < 2 ^ 63"
  shows "sint i = int (unat i)"
proof -
  from assms have "int (unat i) < int (2 ^ 63)" by (rule of_nat_less_iff [THEN iffD2])
  then have less: "int (unat i) < 2 ^ 63" by (simp only: of_nat_power of_nat_numeral)
  have "- (2 ^ 63) \<le> (0 :: int)" by simp
  also have "0 \<le> int (unat i)" by (rule of_nat_0_le_iff)
  finally have "signed_take_bit 63 (int (unat i)) = int (unat i)"
    using less by (rule signed_take_bit_int_eq_self)
  moreover have "sint i = signed_take_bit 63 (int (unat i))" by (simp add: sint_uint)
  ultimately show ?thesis by simp
qed

lemma sint_negative:
  assumes "\<not> unat (i :: u64) < 2 ^ 63"
  shows "sint i < 0"
proof -
  have upper: "unat i < 2 ^ 64" using unsigned_less [of i] by simp
  have "unat i div 2 ^ 63 = 1"
    by (rule div_nat_eqI) (use assms upper in \<open>simp_all add: not_less\<close>)
  then have "bit (unat i) 63" by (simp add: bit_iff_odd)
  then have "bit i 63" by (simp add: bit_unsigned_iff)
  then show ?thesis using bit_last_iff [of i] by simp
qed

lemma unat_gt_0_u64 [go_simps]: "0 < unat (i :: u64) \<longleftrightarrow> i \<noteq> 0"
  by (simp add: unat_gt_0)

lemma unat_Suc_u64 [go_simps]: "unat (i :: u64) < 2 ^ 64 - 1 \<Longrightarrow> unat (i + 1) = Suc (unat i)"
  by (simp add: unat_word_ariths)

lemma unat_pred_u64 [go_simps]: "(i :: u64) \<noteq> 0 \<Longrightarrow> unat (i - 1) = unat i - 1"
  by (metis unat_minus_one)

lemma array_index_in_slice:
  assumes "slice_ok xs" and "i \<noteq> 0" and "unat i \<le> length xs"
  shows "array_index i = int (unat i) - 1"
proof -
  from assms(2) have pos: "0 < unat i" by (simp add: unat_gt_0)
  have "unat (i - 1) < 2 ^ 63" using assms by (simp add: unat_pred_u64 slice_ok_def)
  then have "array_index i = int (unat (i - 1))" unfolding array_index_def by (rule sint_small)
  also have "\<dots> = int (unat i - 1)" using assms(2) by (simp only: unat_pred_u64 not_False_eq_True)
  also have "\<dots> = int (unat i) - 1" using pos by linarith
  finally show ?thesis .
qed

lemma array_pos_in_slice [go_simps]:
  assumes "slice_ok xs" and "i \<noteq> 0" and "i \<le> go_len xs"
  shows "array_pos i = unat i - 1"
proof -
  have pred: "nat (int n - 1) = n - 1" for n by simp
  from assms have "unat i \<le> length xs" by (simp add: word_le_go_len)
  then have "array_index i = int (unat i) - 1" by (rule array_index_in_slice [OF assms(1,2)])
  then show ?thesis unfolding array_pos_def by (simp only: pred)
qed

lemma array_pos_less:
  assumes "slice_ok xs" and "i \<noteq> 0" and "i \<le> go_len xs"
  shows "array_pos i < length xs"
proof -
  from assms(2) have "0 < unat i" by (simp add: unat_gt_0)
  moreover from assms have "unat i \<le> length xs" by (simp add: word_le_go_len)
  ultimately show ?thesis using assms by (simp add: array_pos_in_slice)
qed

lemma go_len_snoc: "go_len (xs @ [x]) = go_len xs + 1"
  by (simp add: go_len_def)

lemma unat_not_max_u64:
  assumes "(i :: u64) \<noteq> - 1"
  shows "unat i < 2 ^ 64 - 1"
proof -
  from assms have "unat i \<noteq> unat (- 1 :: u64)" using word_unat_eq_iff by blast
  then have "unat i \<noteq> 2 ^ 64 - 1"
    by (simp add: unsigned_minus_1_eq_mask mask_eq_exp_minus_1)
  moreover have "unat i < 2 ^ 64" using unsigned_less [of i] by simp
  ultimately show ?thesis by linarith
qed

lemma u64_less_add_one:
  assumes "(i :: u64) \<noteq> - 1"
  shows "i < i + 1"
  using unat_not_max_u64 [OF assms] by (simp add: word_less_nat_alt unat_Suc_u64)


section \<open>Division\<close>

text \<open>Division of Go \<open>int\<close> values truncates towards zero.\<close>

definition go_div :: "int \<Rightarrow> int \<Rightarrow> int" where
  "go_div a b = sgn a * sgn b * (\<bar>a\<bar> div \<bar>b\<bar>)"

lemma go_div_nonneg [simp]: "0 \<le> a \<Longrightarrow> 0 < b \<Longrightarrow> go_div a b = a div b"
  by (cases "a = 0") (simp_all add: go_div_def)


section \<open>Decimal numbers\<close>

text \<open>A number as \<open>%d\<close> prints it.\<close>

function decimal :: "nat \<Rightarrow> string" where
  "decimal n = (if n < 10 then [char_of (48 + n)] else decimal (n div 10) @ [char_of (48 + n mod 10)])"
  by auto
termination by (relation "measure id") auto

declare decimal.simps [simp del]

definition decimal_value :: "string \<Rightarrow> nat" where
  "decimal_value s = foldl (\<lambda>v c. 10 * v + (of_char c - 48)) 0 s"

lemma decimal_value_decimal [simp]: "decimal_value (decimal n) = n"
proof (induction n rule: decimal.induct)
  case (1 n)
  then show ?case
    by (subst decimal.simps) (simp add: decimal_value_def split: if_splits)
qed

lemma decimal_inject [simp]: "decimal m = decimal n \<longleftrightarrow> m = n"
  by (metis decimal_value_decimal)

lemma decimal_digits: "c \<in> set (decimal n) \<Longrightarrow> of_char c \<in> {48 ..< 58 :: nat}"
proof (induction n rule: decimal.induct)
  case (1 n)
  then show ?case
    by (subst (asm) decimal.simps) (auto split: if_splits)
qed


section \<open>Majorities\<close>

text \<open>
  The quorum size the sources write, \<open>clusterSize / 2 + 1\<close>, and the fact every
  quorum argument rests on: two sets of that size within the cluster share a member.
\<close>

definition majority_of :: "nat \<Rightarrow> nat" where
  "majority_of n = n div 2 + 1"

lemma majority_double: "n < 2 * majority_of n"
  by (simp add: majority_of_def)

lemma majorities_meet:
  assumes "finite E" "S \<subseteq> E" "T \<subseteq> E"
    and "majority_of (card E) \<le> card S" "majority_of (card E) \<le> card T"
  shows "S \<inter> T \<noteq> {}"
proof
  assume disjoint: "S \<inter> T = {}"
  have fin: "finite S" "finite T" using assms(1-3) by (blast intro: finite_subset)+
  have "card S + card T = card (S \<union> T)" using fin disjoint by (simp add: card_Un_disjoint)
  also have "\<dots> \<le> card E" using assms(1-3) by (intro card_mono) auto
  finally show False using assms(4,5) by (simp add: majority_of_def)
qed

end
