(* ===== verification/RaftTypes.thy ===== *)
theory RaftTypes
  imports Prelude
begin

text \<open>
  The data of a Raft node, from \<open>src/pkg/raft/types.go\<close> and the messages of
  \<open>src/proto/raft.proto\<close>. Each struct is a record whose fields carry the Go names
  behind a two-letter prefix, each enumeration a datatype (with one constructor for the
  values outside the named constants where code can produce them, since a Go enumeration is
  an \<open>int\<close>), each method a definition. A Go map read at a missing key gives the zero
  value: \<open>map_get\<close>. Locks are not modelled here: every method runs under its lock.
\<close>

section \<open>Node states and log entries\<close>

datatype NodeState = Follower | Candidate | Leader

definition NodeState_String :: "NodeState \<Rightarrow> string" where
  "NodeState_String s =
     (case s of Follower \<Rightarrow> ''Follower'' | Candidate \<Rightarrow> ''Candidate'' | Leader \<Rightarrow> ''Leader'')"

datatype EntryType = EntryNormal | EntryConfig | EntryNoOp | EntryBatch | EntryOther int

record LogEntry =
  le_Term :: u64
  le_Index :: u64
  le_Data :: bytes
  le_Type :: EntryType


section \<open>Persistent state\<close>

record ServerState =
  ss_CurrentTerm :: u64
  ss_VotedFor :: string
  ss_Log :: "LogEntry list"

definition NewServerState :: ServerState where
  "NewServerState = \<lparr>ss_CurrentTerm = 0, ss_VotedFor = '''', ss_Log = []\<rparr>"

definition SetCurrentTerm :: "u64 \<Rightarrow> ServerState \<Rightarrow> ServerState" where
  [simp]: "SetCurrentTerm term s = s\<lparr>ss_CurrentTerm := term\<rparr>"

definition SetVotedFor :: "string \<Rightarrow> ServerState \<Rightarrow> ServerState" where
  [simp]: "SetVotedFor candidateID s = s\<lparr>ss_VotedFor := candidateID\<rparr>"

definition LastLogIndexAndTerm :: "ServerState \<Rightarrow> u64 \<times> u64" where
  "LastLogIndexAndTerm s =
     (if ss_Log s = [] then (0, 0)
      else let lastEntry = ss_Log s ! (length (ss_Log s) - 1)
           in (le_Index lastEntry, le_Term lastEntry))"

definition AppendEntry :: "LogEntry \<Rightarrow> ServerState \<Rightarrow> ServerState" where
  "AppendEntry entry s = s\<lparr>ss_Log := ss_Log s @ [entry]\<rparr>"


section \<open>Volatile state\<close>

record VolatileState =
  vs_CommitIndex :: u64
  vs_LastApplied :: u64

definition NewVolatileState :: VolatileState where
  "NewVolatileState = \<lparr>vs_CommitIndex = 0, vs_LastApplied = 0\<rparr>"

definition SetCommitIndex :: "u64 \<Rightarrow> VolatileState \<Rightarrow> VolatileState" where
  [simp]: "SetCommitIndex index v = v\<lparr>vs_CommitIndex := index\<rparr>"

definition SetLastApplied :: "u64 \<Rightarrow> VolatileState \<Rightarrow> VolatileState" where
  [simp]: "SetLastApplied index v = v\<lparr>vs_LastApplied := index\<rparr>"


section \<open>Leader state\<close>

text \<open>Reading a Go map: the zero value at a key it does not hold.\<close>

definition map_get :: "('k \<rightharpoonup> 'v::zero) \<Rightarrow> 'k \<Rightarrow> 'v" where
  "map_get m k = (case m k of None \<Rightarrow> 0 | Some v \<Rightarrow> v)"

record LeaderState =
  ls_NextIndex :: "string \<rightharpoonup> u64"
  ls_MatchIndex :: "string \<rightharpoonup> u64"

fun NewLeaderState_loop :: "string list \<Rightarrow> u64 \<Rightarrow> LeaderState \<Rightarrow> LeaderState" where
  "NewLeaderState_loop [] lastLogIndex ls = ls"
| "NewLeaderState_loop (peer # peers) lastLogIndex ls =
     NewLeaderState_loop peers lastLogIndex
       (ls\<lparr>ls_NextIndex := (ls_NextIndex ls)(peer \<mapsto> lastLogIndex + 1),
           ls_MatchIndex := (ls_MatchIndex ls)(peer \<mapsto> 0)\<rparr>)"

definition NewLeaderState :: "string list \<Rightarrow> u64 \<Rightarrow> LeaderState" where
  "NewLeaderState peers lastLogIndex =
     NewLeaderState_loop peers lastLogIndex
       \<lparr>ls_NextIndex = Map.empty, ls_MatchIndex = Map.empty\<rparr>"

definition GetNextIndex :: "LeaderState \<Rightarrow> string \<Rightarrow> u64" where
  "GetNextIndex ls peer = map_get (ls_NextIndex ls) peer"

definition SetNextIndex :: "string \<Rightarrow> u64 \<Rightarrow> LeaderState \<Rightarrow> LeaderState" where
  "SetNextIndex peer index ls = ls\<lparr>ls_NextIndex := (ls_NextIndex ls)(peer \<mapsto> index)\<rparr>"

definition GetMatchIndex :: "LeaderState \<Rightarrow> string \<Rightarrow> u64" where
  "GetMatchIndex ls peer = map_get (ls_MatchIndex ls) peer"

definition SetMatchIndex :: "string \<Rightarrow> u64 \<Rightarrow> LeaderState \<Rightarrow> LeaderState" where
  "SetMatchIndex peer index ls = ls\<lparr>ls_MatchIndex := (ls_MatchIndex ls)(peer \<mapsto> index)\<rparr>"


section \<open>Peers and the cluster configuration\<close>

record Peer =
  pr_ID :: string
  pr_Address :: string

record ClusterConfig =
  cc_Peers :: "Peer list"
  cc_Self :: Peer

definition NewClusterConfig :: "Peer \<Rightarrow> Peer list \<Rightarrow> ClusterConfig" where
  "NewClusterConfig self peers = \<lparr>cc_Peers = peers, cc_Self = self\<rparr>"

definition GetPeer :: "ClusterConfig \<Rightarrow> string \<Rightarrow> string + Peer" where
  "GetPeer c peerID =
     (case find (\<lambda>peer. pr_ID peer = peerID) (cc_Peers c) of
        Some peer \<Rightarrow> Inr peer
      | None \<Rightarrow> Inl (''peer '' @ peerID @ '' not found''))"


section \<open>Election state\<close>

record ElectionState =
  es_VotesReceived :: "string \<rightharpoonup> bool"
  es_VoteCount :: int
  es_ElectionStart :: time

definition NewElectionState :: "time \<Rightarrow> ElectionState" where
  "NewElectionState now =
     \<lparr>es_VotesReceived = Map.empty, es_VoteCount = 0, es_ElectionStart = now\<rparr>"

text \<open>\<open>AddVote\<close> returns the new state and whether the vote was counted.\<close>

definition AddVote :: "string \<Rightarrow> ElectionState \<Rightarrow> ElectionState \<times> bool" where
  "AddVote peerID e =
     (if es_VotesReceived e peerID = Some True then (e, False)
      else (e\<lparr>es_VotesReceived := (es_VotesReceived e)(peerID \<mapsto> True),
              es_VoteCount := es_VoteCount e + 1\<rparr>, True))"

definition ElectionState_Reset :: "time \<Rightarrow> ElectionState \<Rightarrow> ElectionState" where
  "ElectionState_Reset now e =
     e\<lparr>es_VotesReceived := Map.empty, es_VoteCount := 0, es_ElectionStart := now\<rparr>"


section \<open>Messages\<close>

datatype pbEntryType =
  ENTRY_TYPE_NORMAL | ENTRY_TYPE_CONFIGURATION | ENTRY_TYPE_NOOP | ENTRY_TYPE_OTHER int

record pbLogEntry =
  pe_Term :: u64
  pe_Index :: u64
  pe_Type :: pbEntryType
  pe_Data :: bytes

record RequestVoteRequest =
  rv_Term :: u64
  rv_CandidateId :: string
  rv_LastLogIndex :: u64
  rv_LastLogTerm :: u64

record RequestVoteResponse =
  vr_Term :: u64
  vr_VoteGranted :: bool

record AppendEntriesRequest =
  ae_Term :: u64
  ae_LeaderId :: string
  ae_PrevLogIndex :: u64
  ae_PrevLogTerm :: u64
  ae_Entries :: "pbLogEntry list"
  ae_LeaderCommit :: u64

record AppendEntriesResponse =
  ar_Term :: u64
  ar_Success :: bool
  ar_ConflictIndex :: u64
  ar_ConflictTerm :: u64

record InstallSnapshotRequest =
  is_Term :: u64
  is_LeaderId :: string
  is_LastIncludedIndex :: u64
  is_LastIncludedTerm :: u64
  is_Offset :: u64
  is_Data :: bytes
  is_Done :: bool

record InstallSnapshotResponse =
  ir_Term :: u64


section \<open>Lemmas\<close>

lemma map_get_upd [simp]: "map_get (m(k \<mapsto> v)) k' = (if k' = k then v else map_get m k')"
  by (simp add: map_get_def)

lemma map_get_empty [simp]: "map_get Map.empty k = 0"
  by (simp add: map_get_def)

lemma ls_index_updates [simp]:
  "GetNextIndex (SetNextIndex p i ls) q = (if q = p then i else GetNextIndex ls q)"
  "GetMatchIndex (SetNextIndex p i ls) q = GetMatchIndex ls q"
  "GetMatchIndex (SetMatchIndex p i ls) q = (if q = p then i else GetMatchIndex ls q)"
  "GetNextIndex (SetMatchIndex p i ls) q = GetNextIndex ls q"
  by (simp_all add: GetNextIndex_def SetNextIndex_def GetMatchIndex_def SetMatchIndex_def)

lemma NewLeaderState_loop_get:
  "GetNextIndex (NewLeaderState_loop peers n ls) p
     = (if p \<in> set peers then n + 1 else GetNextIndex ls p)"
  "GetMatchIndex (NewLeaderState_loop peers n ls) p
     = (if p \<in> set peers then 0 else GetMatchIndex ls p)"
  by (induction peers arbitrary: ls) (auto simp: GetNextIndex_def GetMatchIndex_def)

lemma NewLeaderState_get [simp]:
  "GetNextIndex (NewLeaderState peers n) p = (if p \<in> set peers then n + 1 else 0)"
  "GetMatchIndex (NewLeaderState peers n) p = 0"
  by (simp_all add: NewLeaderState_def NewLeaderState_loop_get)
     (simp_all add: GetNextIndex_def GetMatchIndex_def)

text \<open>
  The vote count is the number of distinct identifiers recorded: the invariant of
  \<open>ElectionState\<close>.
\<close>

definition election_state_ok :: "ElectionState \<Rightarrow> bool" where
  "election_state_ok e \<longleftrightarrow>
     finite (dom (es_VotesReceived e)) \<and>
     (\<forall>p b. es_VotesReceived e p = Some b \<longrightarrow> b) \<and>
     es_VoteCount e = int (card (dom (es_VotesReceived e)))"

lemma election_state_ok_new [wf_intros]: "election_state_ok (NewElectionState now)"
  by (simp add: election_state_ok_def NewElectionState_def)

lemma election_state_ok_reset [wf_intros]: "election_state_ok (ElectionState_Reset now e)"
  by (simp add: election_state_ok_def ElectionState_Reset_def)

lemma AddVote_votes:
  "election_state_ok e \<Longrightarrow>
     dom (es_VotesReceived (fst (AddVote p e))) = insert p (dom (es_VotesReceived e))"
  by (auto simp: AddVote_def)

lemma election_state_ok_add [wf_intros]:
  assumes "election_state_ok e"
  shows "election_state_ok (fst (AddVote p e))"
proof (cases "p \<in> dom (es_VotesReceived e)")
  case True
  then obtain b where "es_VotesReceived e p = Some b" by blast
  with assms have "es_VotesReceived e p = Some True" unfolding election_state_ok_def by fastforce
  with assms show ?thesis by (simp add: AddVote_def)
next
  case False
  then have new: "es_VotesReceived e p \<noteq> Some True" by auto
  with assms False show ?thesis
    by (auto simp: AddVote_def election_state_ok_def card_insert_if)
qed

end
