(* ===== verification/RaftLog.thy ===== *)
theory RaftLog
  imports RaftTypes
begin

text \<open>
  The Raft log. Two implementations of it exist in the sources: the stand-alone type
  \<open>Log\<close> of \<open>src/pkg/raft/log.go\<close>, and the slice \<open>ServerState.Log\<close>
  with its methods in \<open>types.go\<close>, \<open>append_entries.go\<close> and
  \<open>heartbeat.go\<close>, which is the one a node uses. The locale \<open>raft_log\<close>
  states what both promise (the term at an index, the last entry, the suffix from an index,
  appending and truncating) and holds the lemmas the protocol needs; both implementations
  are interpretations of it. The conversions between log entries and messages are here too.
\<close>

section \<open>The log of \<open>log.go\<close>\<close>

datatype log_error =
    InvalidIndex
  | InvalidStartIndex
  | IndexOutOfBounds u64 nat
  | StartAfterEnd u64 u64
  | IndicesOutOfBounds
  | TruncateOutOfBounds u64 nat
  | SlicePanic

record Log =
  lg_entries :: "LogEntry list"

definition NewLog :: Log where
  "NewLog = \<lparr>lg_entries = []\<rparr>"

definition Log_Append :: "LogEntry \<Rightarrow> Log \<Rightarrow> Log \<times> u64" where
  "Log_Append entry l = (l\<lparr>lg_entries := lg_entries l @ [entry]\<rparr>, le_Index entry)"

definition Log_AppendEntries :: "LogEntry list \<Rightarrow> Log \<Rightarrow> Log" where
  "Log_AppendEntries entries l = l\<lparr>lg_entries := lg_entries l @ entries\<rparr>"

definition Log_Get :: "Log \<Rightarrow> u64 \<Rightarrow> log_error + LogEntry" where
  "Log_Get l index =
     (if index = 0 then Inl InvalidIndex
      else let arrayIndex = array_index index in
        if arrayIndex < 0 \<or> arrayIndex \<ge> int (length (lg_entries l))
        then Inl (IndexOutOfBounds index (length (lg_entries l)))
        else Inr (lg_entries l ! nat arrayIndex))"

text \<open>
  \<open>make([]LogEntry, n)\<close> with a negative \<open>n\<close> panics: an end index beyond
  \<open>2 ^ 63\<close> passes the bounds check as a negative \<open>int\<close>.
\<close>

definition Log_GetEntries :: "Log \<Rightarrow> u64 \<Rightarrow> u64 \<Rightarrow> log_error + LogEntry list" where
  "Log_GetEntries l startIndex endIndex =
     (if startIndex = 0 then Inl InvalidStartIndex
      else if startIndex > endIndex then Inl (StartAfterEnd startIndex endIndex)
      else let startArrayIndex = array_index startIndex; endArrayIndex = array_index endIndex in
        if startArrayIndex < 0 \<or> endArrayIndex \<ge> int (length (lg_entries l))
        then Inl IndicesOutOfBounds
        else if endArrayIndex - startArrayIndex + 1 < 0 then Inl SlicePanic
        else Inr (take (nat (endArrayIndex - startArrayIndex + 1))
                    (drop (nat startArrayIndex) (lg_entries l))))"

definition Log_GetFrom :: "Log \<Rightarrow> u64 \<Rightarrow> LogEntry list" where
  "Log_GetFrom l index =
     (if index = 0 \<or> index > go_len (lg_entries l) then []
      else drop (array_pos index) (lg_entries l))"

definition Log_LastIndex :: "Log \<Rightarrow> u64" where
  "Log_LastIndex l =
     (if lg_entries l = [] then 0 else le_Index (lg_entries l ! (length (lg_entries l) - 1)))"

definition Log_LastTerm :: "Log \<Rightarrow> u64" where
  "Log_LastTerm l =
     (if lg_entries l = [] then 0 else le_Term (lg_entries l ! (length (lg_entries l) - 1)))"

definition Log_LastIndexAndTerm :: "Log \<Rightarrow> u64 \<times> u64" where
  "Log_LastIndexAndTerm l =
     (if lg_entries l = [] then (0, 0)
      else let lastEntry = lg_entries l ! (length (lg_entries l) - 1)
           in (le_Index lastEntry, le_Term lastEntry))"

definition Log_Size :: "Log \<Rightarrow> nat" where
  "Log_Size l = length (lg_entries l)"

definition Log_IsEmpty :: "Log \<Rightarrow> bool" where
  "Log_IsEmpty l \<longleftrightarrow> length (lg_entries l) = 0"

definition Log_TruncateBefore :: "u64 \<Rightarrow> Log \<Rightarrow> log_error + Log" where
  "Log_TruncateBefore index l =
     (if index = 0 then Inr l
      else let arrayIndex = sint index in
        if arrayIndex \<ge> int (length (lg_entries l)) then Inr (l\<lparr>lg_entries := []\<rparr>)
        else if arrayIndex < 0 then Inl SlicePanic
        else Inr (l\<lparr>lg_entries := drop (nat arrayIndex) (lg_entries l)\<rparr>))"

definition Log_TruncateAfter :: "u64 \<Rightarrow> Log \<Rightarrow> log_error + Log" where
  "Log_TruncateAfter index l =
     (if index = 0 then Inr (l\<lparr>lg_entries := []\<rparr>)
      else if index > go_len (lg_entries l)
      then Inl (TruncateOutOfBounds index (length (lg_entries l)))
      else Inr (l\<lparr>lg_entries := take (nat (sint index)) (lg_entries l)\<rparr>))"

definition Log_GetTermAtIndex :: "Log \<Rightarrow> u64 \<Rightarrow> u64" where
  "Log_GetTermAtIndex l index =
     (if index = 0 \<or> index > go_len (lg_entries l) then 0
      else le_Term (lg_entries l ! array_pos index))"

definition Log_IsUpToDate :: "Log \<Rightarrow> u64 \<Rightarrow> u64 \<Rightarrow> bool" where
  "Log_IsUpToDate l candidateLastIndex candidateLastTerm =
     (let (lastIndex, lastTerm) = Log_LastIndexAndTerm l in
      if candidateLastTerm > lastTerm then True
      else if candidateLastTerm = lastTerm then candidateLastIndex \<ge> lastIndex
      else False)"

definition Log_MatchesTerm :: "Log \<Rightarrow> u64 \<Rightarrow> u64 \<Rightarrow> bool" where
  "Log_MatchesTerm l index term =
     (if index = 0 then term = 0
      else if index > go_len (lg_entries l) then False
      else le_Term (lg_entries l ! array_pos index) = term)"


section \<open>The log of a server\<close>

definition GetEntriesFrom :: "ServerState \<Rightarrow> u64 \<Rightarrow> LogEntry list" where
  "GetEntriesFrom s startIndex =
     (if startIndex = 0 \<or> startIndex > go_len (ss_Log s) then []
      else drop (array_pos startIndex) (ss_Log s))"

definition GetTermAtIndex :: "ServerState \<Rightarrow> u64 \<Rightarrow> u64" where
  "GetTermAtIndex s index =
     (if index = 0 \<or> index > go_len (ss_Log s) then 0
      else le_Term (ss_Log s ! array_pos index))"

definition TruncateLogAfter :: "u64 \<Rightarrow> ServerState \<Rightarrow> ServerState" where
  "TruncateLogAfter index s =
     (if index = 0 then s\<lparr>ss_Log := []\<rparr>
      else if index \<ge> go_len (ss_Log s) then s
      else s\<lparr>ss_Log := take (nat (sint index)) (ss_Log s)\<rparr>)"


section \<open>Conversion to and from messages\<close>

definition ConvertEntryTypeToProto :: "EntryType \<Rightarrow> pbEntryType" where
  "ConvertEntryTypeToProto t =
     (case t of
        EntryNormal \<Rightarrow> ENTRY_TYPE_NORMAL
      | EntryConfig \<Rightarrow> ENTRY_TYPE_CONFIGURATION
      | EntryNoOp \<Rightarrow> ENTRY_TYPE_NOOP
      | _ \<Rightarrow> ENTRY_TYPE_NORMAL)"

definition ConvertEntryTypeFromProto :: "pbEntryType \<Rightarrow> EntryType" where
  "ConvertEntryTypeFromProto t =
     (case t of
        ENTRY_TYPE_NORMAL \<Rightarrow> EntryNormal
      | ENTRY_TYPE_CONFIGURATION \<Rightarrow> EntryConfig
      | ENTRY_TYPE_NOOP \<Rightarrow> EntryNoOp
      | _ \<Rightarrow> EntryNormal)"

definition entry_to_proto :: "LogEntry \<Rightarrow> pbLogEntry" where
  "entry_to_proto entry =
     \<lparr>pe_Term = le_Term entry, pe_Index = le_Index entry,
      pe_Type = ConvertEntryTypeToProto (le_Type entry), pe_Data = le_Data entry\<rparr>"

definition entry_from_proto :: "pbLogEntry \<Rightarrow> LogEntry" where
  "entry_from_proto entry =
     \<lparr>le_Term = pe_Term entry, le_Index = pe_Index entry,
      le_Data = pe_Data entry, le_Type = ConvertEntryTypeFromProto (pe_Type entry)\<rparr>"

definition ConvertToProto :: "LogEntry list \<Rightarrow> pbLogEntry list" where
  "ConvertToProto entries = map entry_to_proto entries"

definition ConvertFromProto :: "pbLogEntry list \<Rightarrow> LogEntry list" where
  "ConvertFromProto entries = map entry_from_proto entries"


section \<open>Well-formed logs\<close>

text \<open>
  A log is well formed when it is a Go slice and the entry at position \<open>k\<close> carries
  the index \<open>k + 1\<close>: the condition \<open>validateRecoveredState\<close> checks after a
  crash and every operation of a node relies on.
\<close>

definition wf_log :: "LogEntry list \<Rightarrow> bool" where
  "wf_log log \<longleftrightarrow> slice_ok log \<and> (\<forall>k < length log. unat (le_Index (log ! k)) = Suc k)"

lemma wf_log_Nil [simp]: "wf_log []"
  by (simp add: wf_log_def)

lemma wf_log_slice_ok [simp]: "wf_log log \<Longrightarrow> slice_ok log"
  by (simp add: wf_log_def)

lemma wf_log_take [wf_intros]: "wf_log log \<Longrightarrow> wf_log (take n log)"
  by (simp add: wf_log_def)

lemma wf_log_snoc [wf_intros]:
  assumes "wf_log log" and "unat (le_Index e) = Suc (length log)" and "Suc (length log) < 2 ^ 63"
  shows "wf_log (log @ [e])"
  using assms by (auto simp: wf_log_def slice_ok_def nth_append less_Suc_eq)

lemma wf_log_last_index:
  assumes "wf_log log" and "log \<noteq> []"
  shows "le_Index (log ! (length log - 1)) = go_len log"
proof -
  have "unat (le_Index (log ! (length log - 1))) = length log"
    using assms by (simp add: wf_log_def)
  then have "unat (le_Index (log ! (length log - 1))) = unat (go_len log)"
    using assms by (simp add: unat_go_len)
  then show ?thesis using word_unat_eq_iff by blast
qed


section \<open>The interface of a log\<close>

locale raft_log =
  fixes entries :: "'l \<Rightarrow> LogEntry list"
    and term_at :: "'l \<Rightarrow> u64 \<Rightarrow> u64"
    and last_index_and_term :: "'l \<Rightarrow> u64 \<times> u64"
    and entries_from :: "'l \<Rightarrow> u64 \<Rightarrow> LogEntry list"
    and append_entry :: "LogEntry \<Rightarrow> 'l \<Rightarrow> 'l"
    and truncate_after :: "u64 \<Rightarrow> 'l \<Rightarrow> 'l"
  assumes term_at_inside: "slice_ok (entries l) \<Longrightarrow> i \<noteq> 0 \<Longrightarrow> unat i \<le> length (entries l) \<Longrightarrow>
      term_at l i = le_Term (entries l ! (unat i - 1))"
    and term_at_outside: "slice_ok (entries l) \<Longrightarrow> i = 0 \<or> length (entries l) < unat i \<Longrightarrow>
      term_at l i = 0"
    and last_empty: "entries l = [] \<Longrightarrow> last_index_and_term l = (0, 0)"
    and last_entry: "entries l \<noteq> [] \<Longrightarrow>
      last_index_and_term l = (le_Index (last (entries l)), le_Term (last (entries l)))"
    and entries_from_law: "slice_ok (entries l) \<Longrightarrow> i \<noteq> 0 \<Longrightarrow>
      entries_from l i = drop (unat i - 1) (entries l)"
    and append_law: "entries (append_entry e l) = entries l @ [e]"
    and truncate_law: "slice_ok (entries l) \<Longrightarrow> unat i \<le> length (entries l) \<Longrightarrow>
      entries (truncate_after i l) = take (unat i) (entries l)"
begin

text \<open>On a well-formed log the last index is the length.\<close>

lemma last_index_is_length:
  assumes "wf_log (entries l)"
  shows "fst (last_index_and_term l) = go_len (entries l)"
proof (cases "entries l = []")
  case True
  then show ?thesis by (simp add: last_empty)
next
  case False
  then show ?thesis using wf_log_last_index [OF assms False] by (simp add: last_entry last_conv_nth)
qed

lemma term_at_last:
  assumes "wf_log (entries l)"
  shows "term_at l (fst (last_index_and_term l)) = snd (last_index_and_term l)"
proof (cases "entries l = []")
  case True
  then show ?thesis by (simp add: last_empty term_at_outside)
next
  case False
  then have "go_len (entries l) \<noteq> 0" using assms by (simp add: go_len_eq_0)
  then have "term_at l (go_len (entries l)) = le_Term (last (entries l))"
    using False assms by (simp add: term_at_inside unat_go_len last_conv_nth)
  moreover have "snd (last_index_and_term l) = le_Term (last (entries l))"
    using False by (simp add: last_entry)
  ultimately show ?thesis using last_index_is_length [OF assms] by simp
qed

text \<open>Appending the entry with the next index, as a leader does, keeps the log well formed.\<close>

lemma append_next_wf:
  assumes "wf_log (entries l)" and "Suc (length (entries l)) < 2 ^ 63"
    and "le_Index e = fst (last_index_and_term l) + 1"
  shows "wf_log (entries (append_entry e l))"
proof -
  have "unat (le_Index e) = unat (go_len (entries l) + 1)"
    using assms by (simp add: last_index_is_length)
  also have "\<dots> = Suc (length (entries l))"
    using assms(1,2) by (simp add: unat_Suc_u64 unat_go_len)
  finally show ?thesis using assms(1,2) by (simp add: append_law wf_log_snoc)
qed

text \<open>
  Overwriting from an index on, as conflict resolution does: cut the log before the entry
  and append the entry.
\<close>

lemma overwrite_entries:
  assumes "slice_ok (entries l)" and "le_Index e \<noteq> 0" and "unat (le_Index e) \<le> length (entries l)"
  shows "entries (append_entry e (truncate_after (le_Index e - 1) l))
       = take (unat (le_Index e) - 1) (entries l) @ [e]"
proof -
  have "unat (le_Index e - 1) \<le> length (entries l)" using assms by (simp add: unat_pred_u64)
  then show ?thesis using assms by (simp add: append_law truncate_law unat_pred_u64)
qed

lemma term_at_append:
  assumes "slice_ok (entries l)" and "Suc (length (entries l)) < 2 ^ 63"
  shows "term_at (append_entry e l) i
       = (if i \<noteq> 0 \<and> unat i = Suc (length (entries l)) then le_Term e else term_at l i)"
proof -
  have ok: "slice_ok (entries (append_entry e l))" using assms(2)
    by (simp add: append_law slice_ok_def)
  consider "i = 0" | "i \<noteq> 0" "unat i \<le> length (entries l)"
    | "i \<noteq> 0" "unat i = Suc (length (entries l))" | "Suc (length (entries l)) < unat i"
    by linarith
  then show ?thesis
  proof cases
    case 2
    then have "0 < unat i" by (simp add: unat_gt_0)
    with 2 have "unat i - 1 < length (entries l)" by linarith
    with 2 show ?thesis using assms ok
      by (simp add: term_at_inside append_law nth_append)
  qed (use assms ok in \<open>auto simp: term_at_inside term_at_outside append_law nth_append\<close>)
qed

lemma entries_from_term_at:
  assumes "slice_ok (entries l)" and "i \<noteq> 0" and "k < length (entries_from l i)"
    and "unat i + k < 2 ^ 64"
  shows "le_Term (entries_from l i ! k) = term_at l (i + of_nat k)"
proof -
  have k: "unat i - 1 + k < length (entries l)" using assms by (simp add: entries_from_law)
  have pos: "0 < unat i" using assms(2) by (simp add: unat_gt_0)
  have u: "unat (i + of_nat k) = unat i + k" using assms(4)
    by (simp add: unat_word_ariths unat_of_nat)
  then have "i + of_nat k \<noteq> 0" using pos by (metis add_gr_0 unat_0 less_irrefl)
  then have "term_at l (i + of_nat k) = le_Term (entries l ! (unat i + k - 1))"
    using assms(1) k pos u by (simp add: term_at_inside)
  then show ?thesis using assms k pos by (simp add: entries_from_law)
qed

end

interpretation server_log:
  raft_log ss_Log GetTermAtIndex LastLogIndexAndTerm GetEntriesFrom AppendEntry TruncateLogAfter
proof (unfold_locales, goal_cases)
  case (1 l i)
  then show ?case by (simp add: GetTermAtIndex_def go_simps array_pos_in_slice [of "ss_Log l"])
next
  case (2 l i)
  then show ?case by (auto simp: GetTermAtIndex_def go_simps)
next
  case (3 l)
  then show ?case by (simp add: LastLogIndexAndTerm_def)
next
  case (4 l)
  then show ?case by (simp add: LastLogIndexAndTerm_def Let_def last_conv_nth)
next
  case (5 l i)
  then show ?case
    by (auto simp: GetEntriesFrom_def go_simps array_pos_in_slice [of "ss_Log l"])
next
  case (6 e l)
  then show ?case by (simp add: AppendEntry_def)
next
  case (7 l i)
  then show ?case
    by (auto simp: TruncateLogAfter_def go_simps slice_ok_def sint_small unat_eq_0)
qed

text \<open>
  The stand-alone log provides the same interface: \<open>Append\<close> without its returned
  index, \<open>TruncateAfter\<close> with its error ignored.
\<close>

definition Log_append_entry :: "LogEntry \<Rightarrow> Log \<Rightarrow> Log" where
  "Log_append_entry e l = fst (Log_Append e l)"

definition Log_truncate_after :: "u64 \<Rightarrow> Log \<Rightarrow> Log" where
  "Log_truncate_after i l = (case Log_TruncateAfter i l of Inl _ \<Rightarrow> l | Inr l' \<Rightarrow> l')"

interpretation file_log:
  raft_log lg_entries Log_GetTermAtIndex Log_LastIndexAndTerm Log_GetFrom
    Log_append_entry Log_truncate_after
proof (unfold_locales, goal_cases)
  case (1 l i)
  then show ?case
    by (simp add: Log_GetTermAtIndex_def go_simps array_pos_in_slice [of "lg_entries l"])
next
  case (2 l i)
  then show ?case by (auto simp: Log_GetTermAtIndex_def go_simps)
next
  case (3 l)
  then show ?case by (simp add: Log_LastIndexAndTerm_def)
next
  case (4 l)
  then show ?case by (simp add: Log_LastIndexAndTerm_def Let_def last_conv_nth)
next
  case (5 l i)
  then show ?case
    by (auto simp: Log_GetFrom_def go_simps array_pos_in_slice [of "lg_entries l"])
next
  case (6 e l)
  then show ?case by (simp add: Log_append_entry_def Log_Append_def)
next
  case (7 l i)
  then show ?case
    by (auto simp: Log_truncate_after_def Log_TruncateAfter_def go_simps slice_ok_def sint_small
        unat_eq_0)
qed


section \<open>Reading and truncating the stand-alone log\<close>

lemma Log_Get_cases:
  assumes "slice_ok (lg_entries l)"
  shows "Log_Get l i =
     (if i = 0 then Inl InvalidIndex
      else if length (lg_entries l) < unat i
      then Inl (IndexOutOfBounds i (length (lg_entries l)))
      else Inr (lg_entries l ! (unat i - 1)))"
proof (cases "i = 0")
  case True
  then show ?thesis by (simp add: Log_Get_def)
next
  case nz: False
  then have pos: "0 < unat i" by (simp add: unat_gt_0)
  show ?thesis
  proof (cases "length (lg_entries l) < unat i")
    case False
    then have idx: "array_index i = int (unat i) - 1"
      using array_index_in_slice [OF assms nz] by simp
    define n where "n = unat i"
    then show ?thesis using nz False pos idx by (simp add: Log_Get_def nat_diff_distrib flip: n_def)
  next
    case True
    have "array_index i < 0 \<or> int (length (lg_entries l)) \<le> array_index i"
    proof (cases "unat (i - 1) < 2 ^ 63")
      case True
      then have "array_index i = int (unat (i - 1))"
        unfolding array_index_def by (rule sint_small)
      then have "array_index i = int (unat i - 1)"
        using nz by (simp only: unat_pred_u64 not_False_eq_True)
      then show ?thesis using \<open>length (lg_entries l) < unat i\<close> by linarith
    next
      case False
      then show ?thesis unfolding array_index_def by (simp add: sint_negative)
    qed
    then show ?thesis using nz True by (simp add: Log_Get_def Let_def)
  qed
qed

text \<open>
  Compaction drops the first entries of the slice, but \<open>Get\<close> keeps reading position
  \<open>index - 1\<close>: afterwards the entry it returns for an index has a larger index.
\<close>

lemma Log_TruncateBefore_entries:
  assumes "slice_ok (lg_entries l)" and "unat i \<le> length (lg_entries l)"
  shows "\<exists>l'. Log_TruncateBefore i l = Inr l' \<and> lg_entries l' = drop (unat i) (lg_entries l)"
proof -
  have "unat i < 2 ^ 63" using assms by (simp add: slice_ok_def)
  then have s: "sint i = int (unat i)" by (rule sint_small)
  define n where "n = unat i"
  then have "i = 0 \<longleftrightarrow> n = 0" by (simp add: unat_eq_0)
  then show ?thesis using s assms(2) by (auto simp: Log_TruncateBefore_def Let_def simp flip: n_def)
qed



section \<open>Properties\<close>

text \<open>Reading the stand-alone log: index 0 is an error, an index beyond the end is an
  error that names it, every other index returns the entry at that position. Indices of
  \<open>2 ^ 63\<close> and more, which become negative as \<open>int\<close>, are among the errors.\<close>

theorem Log_Get_functional:
  assumes "slice_ok (lg_entries l)"
  shows "Log_Get l i =
     (if i = 0 then Inl InvalidIndex
      else if length (lg_entries l) < unat i
      then Inl (IndexOutOfBounds i (length (lg_entries l)))
      else Inr (lg_entries l ! (unat i - 1)))"
  using assms by (rule Log_Get_cases)

definition example_Log :: Log where
  "example_Log =
     \<lparr>lg_entries = [\<lparr>le_Term = 1, le_Index = 1, le_Data = [], le_Type = EntryNoOp\<rparr>,
                    \<lparr>le_Term = 1, le_Index = 2, le_Data = [7], le_Type = EntryNormal\<rparr>]\<rparr>"

lemma example_Log_ok: "wf_log (lg_entries example_Log)"
  by (auto simp: example_Log_def wf_log_def slice_ok_def nth_Cons split: nat.splits)

theorem Log_Get_functional_witness:
  "Log_Get example_Log 2 = Inr \<lparr>le_Term = 1, le_Index = 2, le_Data = [7], le_Type = EntryNormal\<rparr>"
  using Log_Get_functional [OF wf_log_slice_ok [OF example_Log_ok], of 2] by (simp add: example_Log_def)

text \<open>Compaction breaks indexing. Once \<open>TruncateBefore(i)\<close> has dropped the
  first \<open>i\<close> entries of a well-formed log, \<open>Get(j)\<close> still reads position
  \<open>j - 1\<close> of what is left: it returns the entry whose index is \<open>i + j\<close>.\<close>

theorem TruncateBefore_shifts_Get:
  assumes "wf_log (lg_entries l)" and "Log_TruncateBefore i l = Inr l'"
    and "unat i + unat j \<le> length (lg_entries l)" and "j \<noteq> 0"
  shows "\<exists>e. Log_Get l' j = Inr e \<and> unat (le_Index e) = unat i + unat j"
proof -
  have slice: "slice_ok (lg_entries l)" using assms(1) by simp
  have pos: "0 < unat j" using assms(4) by (simp add: unat_gt_0)
  have l': "lg_entries l' = drop (unat i) (lg_entries l)"
    using Log_TruncateBefore_entries [OF slice, of i] assms(2,3) by auto
  then have "Log_Get l' j = Inr (lg_entries l ! (unat i + (unat j - 1)))"
    using Log_Get_cases [of l' j] slice assms(3,4) pos by (simp add: not_less)
  moreover have "unat i + (unat j - 1) < length (lg_entries l)" using assms(3) pos by linarith
  then have "unat (le_Index (lg_entries l ! (unat i + (unat j - 1)))) = Suc (unat i + (unat j - 1))"
    using assms(1) by (simp add: wf_log_def)
  ultimately show ?thesis using pos by simp
qed

theorem TruncateBefore_shifts_Get_witness:
  "\<exists>l'. Log_TruncateBefore 1 example_Log = Inr l' \<and>
     (\<exists>e. Log_Get l' 1 = Inr e \<and> unat (le_Index e) = 2)"
proof -
  have "\<exists>l'. Log_TruncateBefore 1 example_Log = Inr l' \<and>
      lg_entries l' = drop (unat (1 :: u64)) (lg_entries example_Log)"
    by (rule Log_TruncateBefore_entries)
      (simp_all add: example_Log_ok, simp add: example_Log_def)
  then obtain l' where "Log_TruncateBefore 1 example_Log = Inr l'" by blast
  with TruncateBefore_shifts_Get [OF example_Log_ok this, of 1] show ?thesis
    by (auto simp: example_Log_def)
qed

text \<open>Log entries survive the conversion to messages and back exactly when none of
  them is a batch entry (or of an unnamed type): those arrive as normal entries.\<close>

theorem proto_roundtrip_iff:
  "ConvertFromProto (ConvertToProto es) = es \<longleftrightarrow>
     (\<forall>t \<in> set (map le_Type es). t = EntryNormal \<or> t = EntryConfig \<or> t = EntryNoOp)"
proof (induction es)
  case Nil
  then show ?case by (simp add: ConvertFromProto_def ConvertToProto_def)
next
  case (Cons e es)
  have "entry_from_proto (entry_to_proto e) = e \<longleftrightarrow>
      le_Type e = EntryNormal \<or> le_Type e = EntryConfig \<or> le_Type e = EntryNoOp"
    by (cases e; cases "le_Type e")
      (auto simp: entry_from_proto_def entry_to_proto_def ConvertEntryTypeToProto_def
        ConvertEntryTypeFromProto_def)
  then show ?case using Cons.IH by (simp add: ConvertFromProto_def ConvertToProto_def)
qed

theorem proto_roundtrip_iff_witness:
  "ConvertFromProto (ConvertToProto (lg_entries example_Log)) = lg_entries example_Log"
  unfolding proto_roundtrip_iff by (simp add: example_Log_def)

end
