(* ===== verification/RaftTimers.thy ===== *)
theory RaftTimers
  imports Prelude
begin

text \<open>
  Configuration and timers of a node: \<open>src/pkg/raft/config.go\<close>,
  \<open>src/pkg/raft/timer.go\<close> (the randomised election timer) and the
  \<open>HeartbeatTimer\<close> of \<open>src/pkg/raft/heartbeat.go\<close>. A Go timer is
  modelled by the timeout it is armed with, a channel of capacity one by whether it holds a
  tick, a channel used for closing only by whether it is closed. The random source of
  \<open>math/rand\<close> is a sequence of numbers; the draw number \<open>k\<close> of
  \<open>rand.Int63n(n)\<close> is its element \<open>k\<close> modulo \<open>n\<close>, so every value the
  library can return is covered. \<open>AfterFunc\<close> callbacks and loop iterations are
  operations of their own.
\<close>


section \<open>Configuration\<close>

record Config =
  cf_ElectionTimeoutMin :: duration
  cf_ElectionTimeoutMax :: duration
  cf_HeartbeatInterval :: duration
  cf_RPCTimeout :: duration
  cf_MaxEntriesPerAppend :: int
  cf_SnapshotInterval :: duration
  cf_SnapshotThreshold :: u64
  cf_MaxAppendEntriesRetries :: int
  cf_ApplyChanBufferSize :: int

definition DefaultConfig :: Config where
  "DefaultConfig =
     \<lparr>cf_ElectionTimeoutMin = 150 * Millisecond,
      cf_ElectionTimeoutMax = 300 * Millisecond,
      cf_HeartbeatInterval = 50 * Millisecond,
      cf_RPCTimeout = 1 * Second,
      cf_MaxEntriesPerAppend = 100,
      cf_SnapshotInterval = 30 * Second,
      cf_SnapshotThreshold = 10000,
      cf_MaxAppendEntriesRetries = 3,
      cf_ApplyChanBufferSize = 100\<rparr>"

datatype config_error =
    ElectionTimeoutMinNotPositive
  | ElectionTimeoutMaxNotGreater
  | HeartbeatIntervalNotPositive
  | HeartbeatIntervalTooLong
  | RPCTimeoutNotPositive
  | MaxEntriesPerAppendNotPositive
  | SnapshotIntervalNotPositive
  | SnapshotThresholdNotPositive
  | MaxAppendEntriesRetriesNotPositive
  | ApplyChanBufferSizeNotPositive

definition Validate :: "Config \<Rightarrow> config_error option" where
  "Validate c =
     (if cf_ElectionTimeoutMin c \<le> 0 then Some ElectionTimeoutMinNotPositive
      else if cf_ElectionTimeoutMax c \<le> cf_ElectionTimeoutMin c
      then Some ElectionTimeoutMaxNotGreater
      else if cf_HeartbeatInterval c \<le> 0 then Some HeartbeatIntervalNotPositive
      else if cf_HeartbeatInterval c \<ge> cf_ElectionTimeoutMin c div 2
      then Some HeartbeatIntervalTooLong
      else if cf_RPCTimeout c \<le> 0 then Some RPCTimeoutNotPositive
      else if cf_MaxEntriesPerAppend c \<le> 0 then Some MaxEntriesPerAppendNotPositive
      else if cf_SnapshotInterval c \<le> 0 then Some SnapshotIntervalNotPositive
      else if cf_SnapshotThreshold c = 0 then Some SnapshotThresholdNotPositive
      else if cf_MaxAppendEntriesRetries c \<le> 0 then Some MaxAppendEntriesRetriesNotPositive
      else if cf_ApplyChanBufferSize c \<le> 0 then Some ApplyChanBufferSizeNotPositive
      else None)"

definition FastConfig :: Config where
  "FastConfig =
     \<lparr>cf_ElectionTimeoutMin = 50 * Millisecond,
      cf_ElectionTimeoutMax = 100 * Millisecond,
      cf_HeartbeatInterval = 10 * Millisecond,
      cf_RPCTimeout = 500 * Millisecond,
      cf_MaxEntriesPerAppend = 100,
      cf_SnapshotInterval = 5 * Second,
      cf_SnapshotThreshold = 1000,
      cf_MaxAppendEntriesRetries = 3,
      cf_ApplyChanBufferSize = 100\<rparr>"

definition ProductionConfig :: Config where
  "ProductionConfig =
     \<lparr>cf_ElectionTimeoutMin = 300 * Millisecond,
      cf_ElectionTimeoutMax = 500 * Millisecond,
      cf_HeartbeatInterval = 100 * Millisecond,
      cf_RPCTimeout = 2 * Second,
      cf_MaxEntriesPerAppend = 500,
      cf_SnapshotInterval = 60 * Second,
      cf_SnapshotThreshold = 50000,
      cf_MaxAppendEntriesRetries = 5,
      cf_ApplyChanBufferSize = 200\<rparr>"


section \<open>The election timer\<close>

record ElectionTimer =
  et_minTime :: duration
  et_maxTime :: duration
  et_timer :: "duration option"  \<comment> \<open>the pending callback, with its timeout\<close>
  et_c :: bool                   \<comment> \<open>the channel holds a tick\<close>
  et_running :: bool
  et_stopped :: bool
  et_rand :: "nat \<Rightarrow> nat"        \<comment> \<open>the random source\<close>
  et_draws :: nat                \<comment> \<open>numbers drawn from it so far\<close>

definition NewElectionTimer :: "(nat \<Rightarrow> nat) \<Rightarrow> duration \<Rightarrow> duration \<Rightarrow> go_panic + ElectionTimer" where
  "NewElectionTimer source minTime maxTime =
     (if minTime \<le> 0 \<or> maxTime \<le> minTime then Inl InvalidTimerBounds
      else Inr \<lparr>et_minTime = minTime, et_maxTime = maxTime, et_timer = None, et_c = False,
                et_running = False, et_stopped = False, et_rand = source, et_draws = 0\<rparr>)"

definition Int63n :: "nat \<Rightarrow> int \<Rightarrow> int" where
  "Int63n r n = int r mod n"

definition randomTimeout :: "ElectionTimer \<Rightarrow> ElectionTimer \<times> duration" where
  "randomTimeout t =
     (let diff = et_maxTime t - et_minTime t;
          random = Int63n (et_rand t (et_draws t)) diff
      in (t\<lparr>et_draws := Suc (et_draws t)\<rparr>, et_minTime t + random))"

definition ElectionTimer_Start :: "ElectionTimer \<Rightarrow> ElectionTimer" where
  "ElectionTimer_Start t =
     (if et_running t \<or> et_stopped t then t
      else let t = t\<lparr>et_running := True\<rparr>; (t, timeout) = randomTimeout t
           in t\<lparr>et_timer := Some timeout\<rparr>)"

definition ElectionTimer_Stop :: "ElectionTimer \<Rightarrow> ElectionTimer" where
  "ElectionTimer_Stop t =
     (if \<not> et_running t then t
      else t\<lparr>et_stopped := True, et_running := False, et_timer := None\<rparr>)"

definition ElectionTimer_Reset :: "ElectionTimer \<Rightarrow> ElectionTimer" where
  "ElectionTimer_Reset t =
     (if et_stopped t then t
      else let (t, timeout) = randomTimeout t
           in t\<lparr>et_timer := Some timeout, et_running := True\<rparr>)"

text \<open>
  The callback of \<open>AfterFunc\<close>: a one-shot timer fires and puts a tick into the
  channel unless it holds one. \<open>ElectionTimer_recv\<close> is a receive from \<open>C()\<close>.
\<close>

definition ElectionTimer_fire :: "ElectionTimer \<Rightarrow> ElectionTimer" where
  "ElectionTimer_fire t =
     (case et_timer t of None \<Rightarrow> t | Some _ \<Rightarrow> t\<lparr>et_timer := None, et_c := True\<rparr>)"

definition ElectionTimer_recv :: "ElectionTimer \<Rightarrow> ElectionTimer option" where
  "ElectionTimer_recv t = (if et_c t then Some (t\<lparr>et_c := False\<rparr>) else None)"


section \<open>The heartbeat timer\<close>

record HeartbeatTimer =
  ht_interval :: duration
  ht_timer :: "duration option"
  ht_c :: bool
  ht_stopCh_closed :: bool
  ht_running :: bool
  ht_loops :: nat                \<comment> \<open>goroutines in \<open>run\<close>\<close>

definition NewHeartbeatTimer :: "duration \<Rightarrow> HeartbeatTimer" where
  "NewHeartbeatTimer interval =
     \<lparr>ht_interval = interval, ht_timer = None, ht_c = False, ht_stopCh_closed = False,
      ht_running = False, ht_loops = 0\<rparr>"

definition HeartbeatTimer_Start :: "HeartbeatTimer \<Rightarrow> HeartbeatTimer" where
  "HeartbeatTimer_Start ht =
     (if ht_running ht then ht
      else ht\<lparr>ht_timer := Some (ht_interval ht), ht_running := True,
              ht_loops := Suc (ht_loops ht)\<rparr>)"

definition HeartbeatTimer_Stop :: "HeartbeatTimer \<Rightarrow> go_panic + HeartbeatTimer" where
  "HeartbeatTimer_Stop ht =
     (if \<not> ht_running ht then Inr ht
      else let ht = ht\<lparr>ht_running := False\<rparr> in
        if ht_stopCh_closed ht then Inl CloseOfClosedChannel
        else Inr (ht\<lparr>ht_stopCh_closed := True, ht_timer := None\<rparr>))"

definition HeartbeatTimer_Reset :: "HeartbeatTimer \<Rightarrow> HeartbeatTimer" where
  "HeartbeatTimer_Reset ht =
     (if \<not> ht_running ht then ht else ht\<lparr>ht_timer := Some (ht_interval ht)\<rparr>)"

text \<open>
  One iteration of a \<open>run\<close> goroutine: it returns when the stop channel is closed,
  otherwise it waits for the timer, sends a tick unless the channel is full, and re-arms the
  timer.
\<close>

definition HeartbeatTimer_run :: "HeartbeatTimer \<Rightarrow> HeartbeatTimer" where
  "HeartbeatTimer_run ht =
     (if ht_loops ht = 0 then ht
      else if ht_stopCh_closed ht then ht\<lparr>ht_loops := ht_loops ht - 1\<rparr>
      else case ht_timer ht of
        None \<Rightarrow> ht
      | Some _ \<Rightarrow>
          (let ht = ht\<lparr>ht_timer := None, ht_c := True\<rparr>
           in if ht_running ht then ht\<lparr>ht_timer := Some (ht_interval ht)\<rparr> else ht))"


section \<open>Lemmas\<close>

lemma Validate_None_iff:
  "Validate c = None \<longleftrightarrow>
     0 < cf_ElectionTimeoutMin c \<and> cf_ElectionTimeoutMin c < cf_ElectionTimeoutMax c \<and>
     0 < cf_HeartbeatInterval c \<and> 2 * cf_HeartbeatInterval c + 1 < cf_ElectionTimeoutMin c \<and>
     0 < cf_RPCTimeout c \<and> 0 < cf_MaxEntriesPerAppend c \<and> 0 < cf_SnapshotInterval c \<and>
     cf_SnapshotThreshold c \<noteq> 0 \<and> 0 < cf_MaxAppendEntriesRetries c \<and>
     0 < cf_ApplyChanBufferSize c"
proof -
  have "cf_HeartbeatInterval c < cf_ElectionTimeoutMin c div 2 \<longleftrightarrow>
      2 * cf_HeartbeatInterval c + 1 < cf_ElectionTimeoutMin c" by linarith
  then show ?thesis by (auto simp: Validate_def not_le not_less)
qed

lemma provided_configs_valid:
  "Validate DefaultConfig = None" "Validate FastConfig = None" "Validate ProductionConfig = None"
  by (simp_all add: Validate_None_iff DefaultConfig_def FastConfig_def ProductionConfig_def)

text \<open>
  The invariant of an election timer: its bounds are those the constructor accepts, it is
  not both running and stopped, a stopped timer is not armed, and the timeout it is armed
  with lies within the bounds.
\<close>

definition election_timer_ok :: "ElectionTimer \<Rightarrow> bool" where
  "election_timer_ok t \<longleftrightarrow>
     0 < et_minTime t \<and> et_minTime t < et_maxTime t \<and>
     \<not> (et_running t \<and> et_stopped t) \<and> (et_stopped t \<longrightarrow> et_timer t = None) \<and>
     (\<forall>d. et_timer t = Some d \<longrightarrow> et_minTime t \<le> d \<and> d < et_maxTime t)"

lemma Int63n_bounds: "0 < n \<Longrightarrow> 0 \<le> Int63n r n \<and> Int63n r n < n"
  by (simp add: Int63n_def)

lemma randomTimeout_bounds:
  assumes "election_timer_ok t" and "randomTimeout t = (t', timeout)"
  shows "et_minTime t \<le> timeout \<and> timeout < et_maxTime t
       \<and> t' = t\<lparr>et_draws := Suc (et_draws t)\<rparr>"
  using assms Int63n_bounds [of "et_maxTime t - et_minTime t" "et_rand t (et_draws t)"]
  by (auto simp: randomTimeout_def election_timer_ok_def)

lemma randomTimeout_in [simp]:
  "0 < et_minTime t \<Longrightarrow> et_minTime t < et_maxTime t \<Longrightarrow> et_minTime t \<le> snd (randomTimeout t)"
  "0 < et_minTime t \<Longrightarrow> et_minTime t < et_maxTime t \<Longrightarrow> snd (randomTimeout t) < et_maxTime t"
  using Int63n_bounds [of "et_maxTime t - et_minTime t" "et_rand t (et_draws t)"]
  by (auto simp: randomTimeout_def)

lemma randomTimeout_fst [simp]: "fst (randomTimeout t) = t\<lparr>et_draws := Suc (et_draws t)\<rparr>"
  by (simp add: randomTimeout_def Let_def)

lemma NewElectionTimer_ok [wf_intros]:
  "NewElectionTimer source lo hi = Inr t \<Longrightarrow> election_timer_ok t"
  by (auto simp: NewElectionTimer_def election_timer_ok_def split: if_splits)

lemma ElectionTimer_Start_ok [wf_intros]:
  "election_timer_ok t \<Longrightarrow> election_timer_ok (ElectionTimer_Start t)"
  using randomTimeout_in [of "t\<lparr>et_running := True\<rparr>"]
  by (auto simp: ElectionTimer_Start_def election_timer_ok_def Let_def case_prod_unfold)

lemma ElectionTimer_Stop_ok [wf_intros]:
  "election_timer_ok t \<Longrightarrow> election_timer_ok (ElectionTimer_Stop t)"
  by (auto simp: ElectionTimer_Stop_def election_timer_ok_def)

lemma ElectionTimer_Reset_ok [wf_intros]:
  "election_timer_ok t \<Longrightarrow> election_timer_ok (ElectionTimer_Reset t)"
  by (auto simp: ElectionTimer_Reset_def election_timer_ok_def Let_def case_prod_unfold)

lemma ElectionTimer_fire_ok [wf_intros]:
  "election_timer_ok t \<Longrightarrow> election_timer_ok (ElectionTimer_fire t)"
  by (auto simp: ElectionTimer_fire_def election_timer_ok_def split: option.splits)

lemma ElectionTimer_Reset_arms:
  "\<not> et_stopped t \<Longrightarrow> \<exists>d. et_timer (ElectionTimer_Reset t) = Some d"
  by (simp add: ElectionTimer_Reset_def Let_def case_prod_unfold)

lemma ElectionTimer_Reset_stopped [simp]: "et_stopped t \<Longrightarrow> ElectionTimer_Reset t = t"
  by (simp add: ElectionTimer_Reset_def)

lemma ElectionTimer_Reset_frame [frame_simps]:
  "et_minTime (ElectionTimer_Reset t) = et_minTime t"
  "et_maxTime (ElectionTimer_Reset t) = et_maxTime t"
  "et_stopped (ElectionTimer_Reset t) = et_stopped t"
  "et_c (ElectionTimer_Reset t) = et_c t"
  by (simp_all add: ElectionTimer_Reset_def Let_def case_prod_unfold)



section \<open>Properties\<close>

text \<open>A configuration that passes \<open>Validate\<close> gives an election timer that can be
  created, and however the random source is drawn every timeout it is armed with leaves room
  for two heartbeats before it fires.\<close>

theorem validated_timeouts_leave_room:
  assumes "Validate c = None"
  shows "\<exists>t. NewElectionTimer source (cf_ElectionTimeoutMin c) (cf_ElectionTimeoutMax c) = Inr t \<and>
     (\<exists>d. et_timer (ElectionTimer_Reset (t\<lparr>et_draws := k\<rparr>)) = Some d \<and>
        2 * cf_HeartbeatInterval c < d \<and> cf_ElectionTimeoutMin c \<le> d \<and> d < cf_ElectionTimeoutMax c)"
proof -
  have v: "0 < cf_ElectionTimeoutMin c" "cf_ElectionTimeoutMin c < cf_ElectionTimeoutMax c"
    "2 * cf_HeartbeatInterval c + 1 < cf_ElectionTimeoutMin c"
    using assms by (auto simp: Validate_None_iff)
  obtain t where t: "NewElectionTimer source (cf_ElectionTimeoutMin c) (cf_ElectionTimeoutMax c) = Inr t"
    using v by (simp add: NewElectionTimer_def)
  then have bounds: "et_minTime t = cf_ElectionTimeoutMin c" "et_maxTime t = cf_ElectionTimeoutMax c"
    "\<not> et_stopped t"
    by (auto simp: NewElectionTimer_def split: if_splits)
  have "et_timer (ElectionTimer_Reset (t\<lparr>et_draws := k\<rparr>)) = Some (snd (randomTimeout (t\<lparr>et_draws := k\<rparr>)))"
    using bounds by (simp add: ElectionTimer_Reset_def Let_def case_prod_unfold)
  moreover have "et_minTime t \<le> snd (randomTimeout (t\<lparr>et_draws := k\<rparr>))"
    "snd (randomTimeout (t\<lparr>et_draws := k\<rparr>)) < et_maxTime t"
    using randomTimeout_in [of "t\<lparr>et_draws := k\<rparr>"] v bounds by simp_all
  ultimately show ?thesis using t bounds v by auto
qed

theorem validated_timeouts_leave_room_witness:
  "\<exists>t. NewElectionTimer (\<lambda>_. 7) (cf_ElectionTimeoutMin DefaultConfig) (cf_ElectionTimeoutMax DefaultConfig)
       = Inr t \<and>
     (\<exists>d. et_timer (ElectionTimer_Reset (t\<lparr>et_draws := 0\<rparr>)) = Some d \<and>
        2 * cf_HeartbeatInterval DefaultConfig < d)"
  using validated_timeouts_leave_room [OF provided_configs_valid(1), of "\<lambda>_. 7" 0] by blast

text \<open>A heartbeat timer works for one leadership only. \<open>Stop\<close> closes the stop
  channel and \<open>Start\<close> does not make a new one: started again, the timer's goroutine
  returns at once without sending a tick, and the next \<open>Stop\<close> panics.\<close>

theorem heartbeat_timer_restart_broken:
  assumes "HeartbeatTimer_Stop (HeartbeatTimer_Start (NewHeartbeatTimer interval)) = Inr ht"
  shows "ht_running (HeartbeatTimer_Start ht) \<and>
     ht_loops (HeartbeatTimer_run (HeartbeatTimer_run (HeartbeatTimer_Start ht))) = 0 \<and>
     \<not> ht_c (HeartbeatTimer_run (HeartbeatTimer_run (HeartbeatTimer_Start ht))) \<and>
     HeartbeatTimer_Stop (HeartbeatTimer_Start ht) = Inl CloseOfClosedChannel"
  using assms
  by (auto simp: HeartbeatTimer_Stop_def HeartbeatTimer_Start_def NewHeartbeatTimer_def
      HeartbeatTimer_run_def Let_def)

theorem heartbeat_timer_restart_broken_witness:
  "\<exists>ht. HeartbeatTimer_Stop (HeartbeatTimer_Start (NewHeartbeatTimer (50 * Millisecond))) = Inr ht \<and>
     HeartbeatTimer_Stop (HeartbeatTimer_Start ht) = Inl CloseOfClosedChannel"
proof -
  have "\<exists>ht. HeartbeatTimer_Stop (HeartbeatTimer_Start (NewHeartbeatTimer (50 * Millisecond))) = Inr ht"
    by (simp add: HeartbeatTimer_Stop_def HeartbeatTimer_Start_def NewHeartbeatTimer_def Let_def)
  then show ?thesis using heartbeat_timer_restart_broken by blast
qed

end
