(* ===== verification/RaftNode.thy ===== *)
theory RaftNode
  imports RaftLog RaftTimers
begin

text \<open>
  A Raft node and its state transitions: the struct \<open>Node\<close> of
  \<open>src/pkg/raft/node.go\<close>, its constructor, \<open>setState\<close>,
  \<open>stepDown\<close>, \<open>becomeCandidate\<close>, \<open>becomeLeader\<close>,
  \<open>becomeFollower\<close>, starting and stopping, and the lease manager of
  \<open>src/pkg/raft/lease.go\<close>. Every transition runs under the node's lock, so it is a
  function from node to node. A \<open>go\<close> statement adds to \<open>nd_goroutines\<close>, the
  list of goroutines started so far; running one of them is a step of its own. The state
  machine is a parameter of the type. The gRPC server and client pool, the logger and the
  snapshot writer are not part of the record.
\<close>

section \<open>The lease manager\<close>

text \<open>The zero \<open>time.Time\<close> is \<open>None\<close>: it lies before every clock reading.\<close>

record LeaseManager =
  lm_leaseExpiry :: "time option"
  lm_leaseDuration :: duration
  lm_lastHeartbeatConfirm :: "time option"

definition NewLeaseManager :: "duration \<Rightarrow> LeaseManager" where
  "NewLeaseManager leaseDuration =
     \<lparr>lm_leaseExpiry = None, lm_leaseDuration = leaseDuration, lm_lastHeartbeatConfirm = None\<rparr>"

definition ExtendLease :: "time \<Rightarrow> LeaseManager \<Rightarrow> LeaseManager" where
  "ExtendLease now lm =
     lm\<lparr>lm_leaseExpiry := Some (now + lm_leaseDuration lm), lm_lastHeartbeatConfirm := Some now\<rparr>"

definition HasValidLease :: "time \<Rightarrow> LeaseManager \<Rightarrow> bool" where
  "HasValidLease now lm =
     (case lm_leaseExpiry lm of None \<Rightarrow> False | Some expiry \<Rightarrow> now < expiry)"

definition RevokeLease :: "LeaseManager \<Rightarrow> LeaseManager" where
  "RevokeLease lm = lm\<lparr>lm_leaseExpiry := None\<rparr>"

definition TimeUntilExpiry :: "time \<Rightarrow> LeaseManager \<Rightarrow> duration" where
  "TimeUntilExpiry now lm =
     (case lm_leaseExpiry lm of
        None \<Rightarrow> 0
      | Some expiry \<Rightarrow> let remaining = expiry - now in if remaining < 0 then 0 else remaining)"


section \<open>The node\<close>

datatype goroutine =
    GoRun | GoApplyLoop | GoAppendNoOpEntry | GoStartHeartbeatTimer | GoStopHeartbeatTimer
  | GoSendHeartbeats | GoStartReplication | GoReplicateToAll | GoHandleHeartbeatTicks

record 'sm Node =
  nd_config :: Config
  nd_id :: string
  nd_cluster :: ClusterConfig
  nd_serverState :: ServerState
  nd_volatileState :: VolatileState
  nd_leaderState :: "LeaderState option"
  nd_state :: NodeState
  nd_electionTimer :: ElectionTimer
  nd_heartbeatTimer :: "HeartbeatTimer option"
  nd_electionState :: ElectionState
  nd_stateMachine :: "'sm option"
  nd_leaseManager :: "LeaseManager option"
  nd_stopCh_closed :: bool
  nd_goroutines :: "goroutine list"

abbreviation nd_term :: "'sm Node \<Rightarrow> u64" where
  "nd_term n \<equiv> ss_CurrentTerm (nd_serverState n)"

abbreviation nd_votedFor :: "'sm Node \<Rightarrow> string" where
  "nd_votedFor n \<equiv> ss_VotedFor (nd_serverState n)"

abbreviation nd_log :: "'sm Node \<Rightarrow> LogEntry list" where
  "nd_log n \<equiv> ss_Log (nd_serverState n)"

abbreviation nd_commitIndex :: "'sm Node \<Rightarrow> u64" where
  "nd_commitIndex n \<equiv> vs_CommitIndex (nd_volatileState n)"

abbreviation nd_lastApplied :: "'sm Node \<Rightarrow> u64" where
  "nd_lastApplied n \<equiv> vs_LastApplied (nd_volatileState n)"

abbreviation nd_peers :: "'sm Node \<Rightarrow> Peer list" where
  "nd_peers n \<equiv> cc_Peers (nd_cluster n)"

definition go_spawn :: "goroutine \<Rightarrow> 'sm Node \<Rightarrow> 'sm Node" where
  "go_spawn g n = n\<lparr>nd_goroutines := nd_goroutines n @ [g]\<rparr>"

datatype node_error =
    EmptyNodeID
  | EmptyNodeAddress
  | InvalidConfiguration config_error
  | NodePanic go_panic

text \<open>What stands for the nil pointer in the timer field until the timer is created.\<close>

definition nil_electionTimer :: ElectionTimer where
  "nil_electionTimer =
     \<lparr>et_minTime = 0, et_maxTime = 0, et_timer = None, et_c = False, et_running = False,
      et_stopped = False, et_rand = (\<lambda>_. 0), et_draws = 0\<rparr>"

text \<open>
  \<open>NewNode\<close> takes the default state machine as an argument; an option is a function
  on nodes, applied in order. Creating the RPC server fails for a nil handler only, which a
  node is not.
\<close>

definition NewNode ::
  "time \<Rightarrow> (nat \<Rightarrow> nat) \<Rightarrow> 'sm \<Rightarrow> string \<Rightarrow> string \<Rightarrow> Peer list \<Rightarrow> ('sm Node \<Rightarrow> 'sm Node) list
     \<Rightarrow> node_error + 'sm Node" where
  "NewNode now source defaultSM nodeID address peers options =
     (if nodeID = '''' then Inl EmptyNodeID
      else if address = '''' then Inl EmptyNodeAddress
      else
        let n = \<lparr>nd_config = DefaultConfig, nd_id = nodeID,
                 nd_cluster = NewClusterConfig \<lparr>pr_ID = nodeID, pr_Address = address\<rparr> peers,
                 nd_serverState = NewServerState, nd_volatileState = NewVolatileState,
                 nd_leaderState = None, nd_state = Follower,
                 nd_electionTimer = nil_electionTimer, nd_heartbeatTimer = None,
                 nd_electionState = NewElectionState now, nd_stateMachine = Some defaultSM,
                 nd_leaseManager = None, nd_stopCh_closed = False, nd_goroutines = []\<rparr>;
            n = fold (\<lambda>opt n. opt n) options n
        in case Validate (nd_config n) of
             Some err \<Rightarrow> Inl (InvalidConfiguration err)
           | None \<Rightarrow>
               (case NewElectionTimer source (cf_ElectionTimeoutMin (nd_config n))
                       (cf_ElectionTimeoutMax (nd_config n)) of
                  Inl p \<Rightarrow> Inl (NodePanic p)
                | Inr t \<Rightarrow> Inr (n\<lparr>nd_electionTimer := t\<rparr>)))"

definition WithConfig :: "Config \<Rightarrow> 'sm Node \<Rightarrow> 'sm Node" where
  "WithConfig config n = n\<lparr>nd_config := config\<rparr>"

definition WithStateMachine :: "'sm \<Rightarrow> 'sm Node \<Rightarrow> 'sm Node" where
  "WithStateMachine sm n = n\<lparr>nd_stateMachine := Some sm\<rparr>"

text \<open>
  \<open>Start\<close>, once the RPC server listens, and \<open>Stop\<close>, which does nothing the
  second time.
\<close>

definition Node_Start :: "'sm Node \<Rightarrow> 'sm Node" where
  "Node_Start n =
     go_spawn GoRun (go_spawn GoApplyLoop
       (n\<lparr>nd_electionTimer := ElectionTimer_Start (nd_electionTimer n)\<rparr>))"

definition Node_Stop :: "'sm Node \<Rightarrow> 'sm Node" where
  "Node_Stop n =
     (if nd_stopCh_closed n then n
      else n\<lparr>nd_stopCh_closed := True,
             nd_electionTimer := ElectionTimer_Stop (nd_electionTimer n)\<rparr>)"

definition setState :: "NodeState \<Rightarrow> 'sm Node \<Rightarrow> 'sm Node" where
  "setState state n =
     (let oldState = nd_state n; n = n\<lparr>nd_state := state\<rparr> in
      if oldState \<noteq> state then
        let n = n\<lparr>nd_electionTimer := ElectionTimer_Reset (nd_electionTimer n)\<rparr> in
        if state = Leader then
          let (lastLogIndex, _) = LastLogIndexAndTerm (nd_serverState n);
              peerIDs = map pr_ID (nd_peers n)
          in n\<lparr>nd_leaderState := Some (NewLeaderState peerIDs lastLogIndex)\<rparr>
        else n\<lparr>nd_leaderState := None\<rparr>
      else n)"

definition IsLeader :: "'sm Node \<Rightarrow> bool" where
  "IsLeader n \<longleftrightarrow> nd_state n = Leader"

definition GetLeaderID :: "'sm Node \<Rightarrow> string" where
  "GetLeaderID n = (if nd_state n = Leader then nd_id n else '''')"

definition stepDown :: "u64 \<Rightarrow> 'sm Node \<Rightarrow> 'sm Node" where
  "stepDown newTerm n =
     (let n = (if nd_state n = Leader then go_spawn GoStopHeartbeatTimer n else n);
          n = (if newTerm > nd_term n
               then n\<lparr>nd_serverState := SetVotedFor '''' (SetCurrentTerm newTerm (nd_serverState n))\<rparr>
               else n)
      in setState Follower n)"

definition becomeCandidate :: "time \<Rightarrow> 'sm Node \<Rightarrow> 'sm Node" where
  "becomeCandidate now n =
     (let n = setState Candidate n;
          newTerm = nd_term n + 1;
          n = n\<lparr>nd_serverState := SetCurrentTerm newTerm (nd_serverState n)\<rparr>;
          n = n\<lparr>nd_serverState := SetVotedFor (nd_id n) (nd_serverState n)\<rparr>;
          n = n\<lparr>nd_electionState := ElectionState_Reset now (nd_electionState n)\<rparr>
      in n\<lparr>nd_electionState := fst (AddVote (nd_id n) (nd_electionState n))\<rparr>)"

definition becomeLeader :: "'sm Node \<Rightarrow> 'sm Node" where
  "becomeLeader n =
     go_spawn GoStartReplication (go_spawn GoSendHeartbeats (go_spawn GoStartHeartbeatTimer
       (go_spawn GoAppendNoOpEntry (setState Leader n))))"

definition becomeFollower :: "u64 \<Rightarrow> 'sm Node \<Rightarrow> 'sm Node" where
  "becomeFollower term n =
     (let n = (if nd_state n = Leader \<and> nd_heartbeatTimer n \<noteq> None
               then go_spawn GoStopHeartbeatTimer n else n);
          n = (if term > nd_term n
               then n\<lparr>nd_serverState := SetVotedFor '''' (SetCurrentTerm term (nd_serverState n))\<rparr>
               else n)
      in setState Follower n)"

definition AppendLog :: "LogEntry \<Rightarrow> 'sm Node \<Rightarrow> 'sm Node" where
  "AppendLog entry n = n\<lparr>nd_serverState := AppendEntry entry (nd_serverState n)\<rparr>"


section \<open>The goroutines of the heartbeat timer\<close>

definition startHeartbeatTimer :: "'sm Node \<Rightarrow> 'sm Node" where
  "startHeartbeatTimer n =
     (let n = (if nd_heartbeatTimer n = None
               then n\<lparr>nd_heartbeatTimer :=
                        Some (NewHeartbeatTimer (cf_HeartbeatInterval (nd_config n)))\<rparr>
               else n)
      in go_spawn GoHandleHeartbeatTicks
           (n\<lparr>nd_heartbeatTimer := map_option HeartbeatTimer_Start (nd_heartbeatTimer n)\<rparr>))"

definition stopHeartbeatTimer :: "'sm Node \<Rightarrow> go_panic + 'sm Node" where
  "stopHeartbeatTimer n =
     (case nd_heartbeatTimer n of
        None \<Rightarrow> Inr n
      | Some ht \<Rightarrow>
          (case HeartbeatTimer_Stop ht of
             Inl p \<Rightarrow> Inl p
           | Inr ht' \<Rightarrow> Inr (n\<lparr>nd_heartbeatTimer := Some ht'\<rparr>)))"


section \<open>What the transitions do\<close>

lemma go_spawn_frame [simp]:
  "nd_config (go_spawn g n) = nd_config n" "nd_id (go_spawn g n) = nd_id n"
  "nd_cluster (go_spawn g n) = nd_cluster n" "nd_serverState (go_spawn g n) = nd_serverState n"
  "nd_volatileState (go_spawn g n) = nd_volatileState n"
  "nd_leaderState (go_spawn g n) = nd_leaderState n" "nd_state (go_spawn g n) = nd_state n"
  "nd_electionTimer (go_spawn g n) = nd_electionTimer n"
  "nd_heartbeatTimer (go_spawn g n) = nd_heartbeatTimer n"
  "nd_electionState (go_spawn g n) = nd_electionState n"
  "nd_stateMachine (go_spawn g n) = nd_stateMachine n"
  "nd_leaseManager (go_spawn g n) = nd_leaseManager n"
  "nd_stopCh_closed (go_spawn g n) = nd_stopCh_closed n"
  "nd_goroutines (go_spawn g n) = nd_goroutines n @ [g]"
  by (simp_all add: go_spawn_def)

lemma setState_frame [simp]:
  "nd_config (setState st n) = nd_config n" "nd_id (setState st n) = nd_id n"
  "nd_cluster (setState st n) = nd_cluster n" "nd_serverState (setState st n) = nd_serverState n"
  "nd_volatileState (setState st n) = nd_volatileState n" "nd_state (setState st n) = st"
  "nd_heartbeatTimer (setState st n) = nd_heartbeatTimer n"
  "nd_electionState (setState st n) = nd_electionState n"
  "nd_stateMachine (setState st n) = nd_stateMachine n"
  "nd_leaseManager (setState st n) = nd_leaseManager n"
  "nd_stopCh_closed (setState st n) = nd_stopCh_closed n"
  "nd_goroutines (setState st n) = nd_goroutines n"
  by (simp_all add: setState_def Let_def case_prod_unfold)

lemma setState_leaderState:
  "nd_leaderState (setState st n) =
     (if nd_state n = st then nd_leaderState n
      else if st = Leader
      then Some (NewLeaderState (map pr_ID (nd_peers n)) (fst (LastLogIndexAndTerm (nd_serverState n))))
      else None)"
  by (simp add: setState_def Let_def case_prod_unfold)

lemma setState_electionTimer:
  "nd_electionTimer (setState st n) =
     (if nd_state n = st then nd_electionTimer n else ElectionTimer_Reset (nd_electionTimer n))"
  by (simp add: setState_def Let_def case_prod_unfold)

lemma stepDown_frame [simp]:
  "nd_config (stepDown t n) = nd_config n" "nd_id (stepDown t n) = nd_id n"
  "nd_cluster (stepDown t n) = nd_cluster n" "nd_volatileState (stepDown t n) = nd_volatileState n"
  "nd_state (stepDown t n) = Follower" "nd_heartbeatTimer (stepDown t n) = nd_heartbeatTimer n"
  "nd_electionState (stepDown t n) = nd_electionState n"
  "nd_stateMachine (stepDown t n) = nd_stateMachine n"
  "nd_log (stepDown t n) = nd_log n"
  "nd_term (stepDown t n) = max (nd_term n) t"
  "nd_votedFor (stepDown t n) = (if t > nd_term n then '''' else nd_votedFor n)"
  by (auto simp: stepDown_def Let_def max_def)

lemma becomeCandidate_frame [simp]:
  "nd_config (becomeCandidate now n) = nd_config n" "nd_id (becomeCandidate now n) = nd_id n"
  "nd_cluster (becomeCandidate now n) = nd_cluster n"
  "nd_volatileState (becomeCandidate now n) = nd_volatileState n"
  "nd_state (becomeCandidate now n) = Candidate"
  "nd_log (becomeCandidate now n) = nd_log n"
  "nd_term (becomeCandidate now n) = nd_term n + 1"
  "nd_votedFor (becomeCandidate now n) = nd_id n"
  "nd_stateMachine (becomeCandidate now n) = nd_stateMachine n"
  "nd_leaderState (becomeCandidate now n) = nd_leaderState (setState Candidate n)"
  "nd_electionTimer (becomeCandidate now n) = nd_electionTimer (setState Candidate n)"
  by (simp_all add: becomeCandidate_def Let_def)

lemma becomeCandidate_electionState:
  "nd_electionState (becomeCandidate now n) =
     fst (AddVote (nd_id n) (ElectionState_Reset now (nd_electionState n)))"
  by (simp add: becomeCandidate_def Let_def)

lemma becomeLeader_frame [simp]:
  "nd_config (becomeLeader n) = nd_config n" "nd_id (becomeLeader n) = nd_id n"
  "nd_cluster (becomeLeader n) = nd_cluster n" "nd_serverState (becomeLeader n) = nd_serverState n"
  "nd_volatileState (becomeLeader n) = nd_volatileState n" "nd_state (becomeLeader n) = Leader"
  "nd_leaderState (becomeLeader n) = nd_leaderState (setState Leader n)"
  "nd_electionTimer (becomeLeader n) = nd_electionTimer (setState Leader n)"
  "nd_electionState (becomeLeader n) = nd_electionState n"
  "nd_stateMachine (becomeLeader n) = nd_stateMachine n"
  by (simp_all add: becomeLeader_def)

lemma becomeFollower_frame [simp]:
  "nd_config (becomeFollower t n) = nd_config n" "nd_id (becomeFollower t n) = nd_id n"
  "nd_cluster (becomeFollower t n) = nd_cluster n"
  "nd_volatileState (becomeFollower t n) = nd_volatileState n"
  "nd_state (becomeFollower t n) = Follower"
  "nd_electionState (becomeFollower t n) = nd_electionState n"
  "nd_stateMachine (becomeFollower t n) = nd_stateMachine n"
  "nd_log (becomeFollower t n) = nd_log n"
  "nd_term (becomeFollower t n) = max (nd_term n) t"
  "nd_votedFor (becomeFollower t n) = (if t > nd_term n then '''' else nd_votedFor n)"
  by (auto simp: becomeFollower_def Let_def max_def)


section \<open>The invariant of a node\<close>

text \<open>
  A node has an identifier and a validated configuration; its log is well formed; it has
  leader state exactly while it is leader; a candidate or leader has voted for itself in its
  term; its vote count and its election timer are consistent.
\<close>

definition node_ok :: "'sm Node \<Rightarrow> bool" where
  "node_ok n \<longleftrightarrow>
     nd_id n \<noteq> '''' \<and> Validate (nd_config n) = None \<and> wf_log (nd_log n) \<and>
     (nd_leaderState n \<noteq> None \<longleftrightarrow> nd_state n = Leader) \<and>
     (nd_state n \<noteq> Follower \<longrightarrow> nd_votedFor n = nd_id n) \<and>
     election_state_ok (nd_electionState n) \<and> election_timer_ok (nd_electionTimer n)"

lemma stepDown_timer:
  "nd_electionTimer (stepDown t n) =
     (if nd_state n = Follower then nd_electionTimer n
      else ElectionTimer_Reset (nd_electionTimer n))"
  by (simp add: stepDown_def setState_electionTimer Let_def)

lemma stepDown_leaderState:
  "nd_leaderState (stepDown t n) = (if nd_state n = Follower then nd_leaderState n else None)"
  by (simp add: stepDown_def setState_leaderState Let_def)

lemma becomeFollower_timer:
  "nd_electionTimer (becomeFollower t n) =
     (if nd_state n = Follower then nd_electionTimer n
      else ElectionTimer_Reset (nd_electionTimer n))"
  by (simp add: becomeFollower_def setState_electionTimer Let_def)

lemma becomeFollower_leaderState:
  "nd_leaderState (becomeFollower t n) = (if nd_state n = Follower then nd_leaderState n else None)"
  by (simp add: becomeFollower_def setState_leaderState Let_def)

lemmas transition_fields =
  stepDown_timer stepDown_leaderState becomeFollower_timer becomeFollower_leaderState
  setState_leaderState setState_electionTimer

lemma stepDown_ok [wf_intros]: "node_ok n \<Longrightarrow> node_ok (stepDown t n)"
  by (auto simp: node_ok_def transition_fields ElectionTimer_Reset_ok)

lemma becomeFollower_ok [wf_intros]: "node_ok n \<Longrightarrow> node_ok (becomeFollower t n)"
  by (auto simp: node_ok_def transition_fields ElectionTimer_Reset_ok)

lemma becomeCandidate_ok [wf_intros]: "node_ok n \<Longrightarrow> node_ok (becomeCandidate now n)"
  by (auto simp: node_ok_def transition_fields ElectionTimer_Reset_ok becomeCandidate_electionState
      election_state_ok_add election_state_ok_reset)

lemma becomeLeader_ok [wf_intros]:
  "node_ok n \<Longrightarrow> nd_state n = Candidate \<Longrightarrow> node_ok (becomeLeader n)"
  by (auto simp: node_ok_def transition_fields ElectionTimer_Reset_ok)

lemma NewNode_ok:
  assumes "NewNode now src sm nodeID address peers [] = Inr n"
  shows "node_ok n \<and> nd_state n = Follower \<and> nd_term n = 0 \<and> nd_log n = []"
proof -
  from assms obtain t where t: "NewElectionTimer src (cf_ElectionTimeoutMin DefaultConfig)
      (cf_ElectionTimeoutMax DefaultConfig) = Inr t" "nd_electionTimer n = t"
    and n: "nd_id n = nodeID" "nodeID \<noteq> ''''" "nd_config n = DefaultConfig"
      "nd_serverState n = NewServerState" "nd_leaderState n = None" "nd_state n = Follower"
      "nd_electionState n = NewElectionState now"
    by (auto simp: NewNode_def Let_def split: if_splits option.splits sum.splits)
  from t have "election_timer_ok (nd_electionTimer n)" by (auto intro: NewElectionTimer_ok)
  with n show ?thesis
    by (simp add: node_ok_def provided_configs_valid NewServerState_def election_state_ok_new)
qed


section \<open>A node with the default configuration\<close>

text \<open>What the constructor returns for given identifiers, used by the witnesses.\<close>

lemma default_timeouts:
  "cf_ElectionTimeoutMin DefaultConfig = 150 * Millisecond"
  "cf_ElectionTimeoutMax DefaultConfig = 300 * Millisecond"
  by (simp_all add: DefaultConfig_def)

definition example_node :: "string \<Rightarrow> string list \<Rightarrow> unit Node" where
  "example_node nodeID peerIDs =
     (case NewNode 0 (\<lambda>_. 0) () nodeID ''addr'' (map (\<lambda>p. \<lparr>pr_ID = p, pr_Address = p\<rparr>) peerIDs) [] of
        Inr n \<Rightarrow> n)"

lemma example_node_fields:
  assumes "nodeID \<noteq> ''''"
  shows "nd_id (example_node nodeID peerIDs) = nodeID"
    "nd_peers (example_node nodeID peerIDs) = map (\<lambda>p. \<lparr>pr_ID = p, pr_Address = p\<rparr>) peerIDs"
    "nd_serverState (example_node nodeID peerIDs) = NewServerState"
    "nd_state (example_node nodeID peerIDs) = Follower"
    "nd_leaderState (example_node nodeID peerIDs) = None"
    "nd_volatileState (example_node nodeID peerIDs) = NewVolatileState"
    "nd_config (example_node nodeID peerIDs) = DefaultConfig"
    "nd_heartbeatTimer (example_node nodeID peerIDs) = None"
    "nd_goroutines (example_node nodeID peerIDs) = []"
    "nd_electionState (example_node nodeID peerIDs) = NewElectionState 0"
  using assms
  by (simp_all add: example_node_def NewNode_def provided_configs_valid NewElectionTimer_def
      default_timeouts NewClusterConfig_def Let_def)

end
