(* ===== verification/RaftCommit.thy ===== *)
theory RaftCommit
  imports RaftNode
begin

text \<open>
  Committing and applying entries, \<open>src/pkg/raft/commit.go\<close>. Applying an entry to
  the state machine is a parameter \<open>apply :: bytes \<Rightarrow> 'sm \<Rightarrow> 'sm\<close>, the effect of
  \<open>StateMachine.Apply\<close> on the machine's state: the code logs the error it returns
  and goes on. \<open>sort.Slice\<close> with \<open>>\<close> on numbers is \<open>rev (sort xs)\<close>.
\<close>

section \<open>Advancing the commit index\<close>

definition getQuorumSize :: "'sm Node \<Rightarrow> int" where
  "getQuorumSize n =
     (let peers = nd_peers n; clusterSize = int (length peers) + 1 in clusterSize div 2 + 1)"

text \<open>The leader's last index, then the match index of every peer.\<close>

definition matchIndices :: "LeaderState \<Rightarrow> 'sm Node \<Rightarrow> u64 list" where
  "matchIndices ls n =
     fst (LastLogIndexAndTerm (nd_serverState n)) # map (\<lambda>peer. GetMatchIndex ls (pr_ID peer)) (nd_peers n)"

text \<open>The loop \<open>for N := majorityMatchIndex; N > currentCommitIndex; N--\<close>.\<close>

function commitSearch :: "ServerState \<Rightarrow> u64 \<Rightarrow> u64 \<Rightarrow> u64 \<Rightarrow> u64 option" where
  "commitSearch s currentTerm currentCommitIndex N =
     (if N > currentCommitIndex then
        if GetTermAtIndex s N = currentTerm then Some N
        else commitSearch s currentTerm currentCommitIndex (N - 1)
      else None)"
  by pat_completeness auto
termination
proof (relation "measure (\<lambda>(s, t, c, N). unat N)", goal_cases)
  case (2 s t c N)
  then have "N \<noteq> 0" by auto
  then have "unat (N - 1) < unat N" by (metis unat_pred_u64 diff_less unat_gt_0 zero_less_one)
  then show ?case by simp
qed simp

declare commitSearch.simps [simp del]

definition tryAdvanceCommitIndex :: "'sm Node \<Rightarrow> 'sm Node" where
  "tryAdvanceCommitIndex n =
     (case nd_leaderState n of
        None \<Rightarrow> n
      | Some ls \<Rightarrow>
          if nd_state n \<noteq> Leader then n
          else
            let currentTerm = nd_term n;
                currentCommitIndex = nd_commitIndex n;
                (lastLogIndex, _) = LastLogIndexAndTerm (nd_serverState n)
            in
              if lastLogIndex \<le> currentCommitIndex then n
              else
                let matches = rev (sort (matchIndices ls n));
                    clusterSize = length (nd_peers n) + 1;
                    quorumIndex = (clusterSize - 1) div 2
                in
                  if quorumIndex \<ge> length matches then n
                  else
                    let majorityMatchIndex = matches ! quorumIndex in
                    (case commitSearch (nd_serverState n) currentTerm currentCommitIndex
                            majorityMatchIndex of
                       Some N \<Rightarrow> n\<lparr>nd_volatileState := SetCommitIndex N (nd_volatileState n)\<rparr>
                     | None \<Rightarrow> n))"

definition isCommitted :: "u64 \<Rightarrow> 'sm Node \<Rightarrow> bool" where
  "isCommitted index n \<longleftrightarrow> index \<le> nd_commitIndex n"

text \<open>
  \<open>waitForCommit\<close> polls on a ticker until the timeout: the list holds what each tick
  before the timeout observes (the commit index and whether the node is leader).
\<close>

fun waitForCommit :: "u64 \<Rightarrow> (u64 \<times> bool) list \<Rightarrow> bool" where
  "waitForCommit index [] = False"
| "waitForCommit index ((commitIndex, isLeader) # ticks) =
     (if \<not> isLeader then False
      else if commitIndex \<ge> index then True
      else waitForCommit index ticks)"


section \<open>Applying committed entries\<close>

definition getLogEntry :: "u64 \<Rightarrow> 'sm Node \<Rightarrow> log_error + LogEntry" where
  "getLogEntry index n =
     (if index = 0 \<or> index > go_len (nd_log n)
      then Inl (IndexOutOfBounds index (length (nd_log n)))
      else Inr (nd_log n ! array_pos index))"

text \<open>
  The loops \<open>for i := lastApplied + 1; i <= commitIndex; i++\<close>, by the number of
  values of \<open>i\<close>, \<open>commitIndex - lastApplied\<close>. The two differ from the
  code only for a commit index of \<open>2 ^ 64 - 1\<close>, which no log reaches: there the
  increment of \<open>i\<close> wraps and the first loop would not end.
\<close>

fun committedEntries_loop :: "nat \<Rightarrow> u64 \<Rightarrow> 'sm Node \<Rightarrow> LogEntry list" where
  "committedEntries_loop 0 i n = []"
| "committedEntries_loop (Suc k) i n =
     (case getLogEntry i n of
        Inr entry \<Rightarrow> entry # committedEntries_loop k (i + 1) n
      | Inl _ \<Rightarrow> committedEntries_loop k (i + 1) n)"

definition GetCommittedEntries :: "'sm Node \<Rightarrow> LogEntry list" where
  "GetCommittedEntries n =
     (let commitIndex = nd_commitIndex n; lastApplied = nd_lastApplied n in
      if lastApplied \<ge> commitIndex then []
      else committedEntries_loop (unat (commitIndex - lastApplied)) (lastApplied + 1) n)"

definition apply_entry :: "(bytes \<Rightarrow> 'sm \<Rightarrow> 'sm) \<Rightarrow> LogEntry \<Rightarrow> 'sm option \<Rightarrow> 'sm option" where
  "apply_entry apply entry sm =
     (if le_Type entry \<noteq> EntryNoOp then map_option (apply (le_Data entry)) sm else sm)"

fun applyCommitted_loop :: "(bytes \<Rightarrow> 'sm \<Rightarrow> 'sm) \<Rightarrow> nat \<Rightarrow> u64 \<Rightarrow> 'sm Node \<Rightarrow> 'sm Node" where
  "applyCommitted_loop apply 0 i n = n"
| "applyCommitted_loop apply (Suc k) i n =
     (case getLogEntry i n of
        Inl _ \<Rightarrow> n
      | Inr entry \<Rightarrow>
          (let n = n\<lparr>nd_stateMachine := apply_entry apply entry (nd_stateMachine n)\<rparr>;
               n = n\<lparr>nd_volatileState := SetLastApplied i (nd_volatileState n)\<rparr>
           in applyCommitted_loop apply k (i + 1) n))"

definition applyCommittedEntries :: "(bytes \<Rightarrow> 'sm \<Rightarrow> 'sm) \<Rightarrow> 'sm Node \<Rightarrow> 'sm Node" where
  "applyCommittedEntries apply n =
     (let commitIndex = nd_commitIndex n; lastApplied = nd_lastApplied n in
      if lastApplied \<ge> commitIndex then n
      else applyCommitted_loop apply (unat (commitIndex - lastApplied)) (lastApplied + 1) n)"


section \<open>The majority match index\<close>

text \<open>How many of the given match indices reach an index.\<close>

definition replicas :: "u64 list \<Rightarrow> u64 \<Rightarrow> nat" where
  "replicas matches N = length (filter (\<lambda>m. N \<le> m) matches)"

lemma replicas_mset: "mset xs = mset ys \<Longrightarrow> replicas xs N = replicas ys N"
  unfolding replicas_def by (metis mset_filter size_mset)

lemma replicas_antimono: "N \<le> M \<Longrightarrow> replicas xs M \<le> replicas xs N"
  unfolding replicas_def by (induction xs) auto

lemma sorted_desc_nth:
  assumes "i \<le> j" and "j < length xs"
  shows "rev (sort xs) ! j \<le> rev (sort xs) ! i"
  using assms by (simp add: rev_nth sorted_nth_mono)

lemma replicas_of_nth:
  assumes "k < length xs"
  shows "Suc k \<le> replicas xs (rev (sort xs) ! k)"
proof -
  let ?ys = "rev (sort xs)"
  have len: "length ?ys = length xs" by simp
  have "filter (\<lambda>m. ?ys ! k \<le> m) (take (Suc k) ?ys) = take (Suc k) ?ys"
    using assms by (auto simp: filter_id_conv in_set_conv_nth less_Suc_eq_le intro!: sorted_desc_nth)
  then have "Suc k = length (filter (\<lambda>m. ?ys ! k \<le> m) (take (Suc k) ?ys))"
    using assms by simp
  also have "\<dots> \<le> replicas ?ys (?ys ! k)"
    unfolding replicas_def
    by (subst (2) append_take_drop_id [of "Suc k" ?ys, symmetric]) (simp only: filter_append length_append)
  also have "\<dots> = replicas xs (?ys ! k)" by (rule replicas_mset) simp
  finally show ?thesis .
qed

lemma nth_of_replicas:
  assumes "Suc k \<le> replicas xs N"
  shows "k < length xs \<and> N \<le> rev (sort xs) ! k"
proof -
  let ?ys = "rev (sort xs)"
  have "Suc k \<le> replicas ?ys N" using assms replicas_mset [of ?ys xs] by simp
  then have count: "Suc k \<le> card {i. i < length ?ys \<and> N \<le> ?ys ! i}"
    by (simp add: replicas_def length_filter_conv_card)
  have len: "k < length xs" using assms unfolding replicas_def
    by (metis length_filter_le less_eq_Suc_le order.trans)
  show ?thesis
  proof (rule ccontr)
    assume "\<not> ?thesis"
    then have small: "?ys ! k < N" using len by simp
    have "{i. i < length ?ys \<and> N \<le> ?ys ! i} \<subseteq> {..<k}"
    proof
      fix i
      assume i: "i \<in> {i. i < length ?ys \<and> N \<le> ?ys ! i}"
      show "i \<in> {..<k}"
      proof (rule ccontr)
        assume "i \<notin> {..<k}"
        then have "?ys ! i \<le> ?ys ! k" using i by (intro sorted_desc_nth) simp_all
        moreover have "N \<le> ?ys ! i" using i by blast
        ultimately show False using small by (meson leD order.trans)
      qed
    qed
    then have "card {i. i < length ?ys \<and> N \<le> ?ys ! i} \<le> card {..<k}"
      by (rule card_mono [OF finite_lessThan])
    with count show False by simp
  qed
qed


section \<open>The commit loop\<close>

lemma commitSearch_Some:
  "commitSearch s t c N = Some M \<Longrightarrow> c < M \<and> M \<le> N \<and> GetTermAtIndex s M = t"
proof (induction s t c N rule: commitSearch.induct)
  case (1 s t c N)
  have pred: "N - 1 \<le> N" if "c < N"
  proof -
    have "N \<noteq> 0" using that by auto
    then show ?thesis by (simp add: word_le_nat_alt unat_pred_u64)
  qed
  show ?case using 1 pred
    by (auto simp: commitSearch.simps [of s t c N] split: if_splits intro: order.trans)
qed

lemma commitSearch_maximal:
  "c < M \<Longrightarrow> M \<le> N \<Longrightarrow> GetTermAtIndex s M = t \<Longrightarrow>
     \<exists>M'. commitSearch s t c N = Some M' \<and> M \<le> M'"
proof (induction s t c N rule: commitSearch.induct)
  case (1 s t c N)
  then have gt: "c < N" by auto
  show ?case
  proof (cases "GetTermAtIndex s N = t")
    case True
    with gt "1.prems" show ?thesis by (auto simp: commitSearch.simps [of s t c N])
  next
    case False
    with "1.prems" have "M < N" by (metis order_le_less)
    moreover have "N \<noteq> 0" using gt by auto
    ultimately have "M \<le> N - 1"
      by (simp add: word_le_nat_alt word_less_nat_alt unat_pred_u64)
    then show ?thesis using 1 gt False by (auto simp: commitSearch.simps [of s t c N])
  qed
qed

text \<open>
  The commit index \<open>tryAdvanceCommitIndex\<close> sets, in terms of replicas.
\<close>

lemma quorumIndex_less: "(length (nd_peers n) + 1 - 1) div 2 < length (matchIndices ls n)"
  by (simp add: matchIndices_def)

lemma tryAdvance_eq:
  assumes "nd_state n = Leader" and "nd_leaderState n = Some ls"
  shows "nd_commitIndex (tryAdvanceCommitIndex n) =
     (if fst (LastLogIndexAndTerm (nd_serverState n)) \<le> nd_commitIndex n then nd_commitIndex n
      else case commitSearch (nd_serverState n) (nd_term n) (nd_commitIndex n)
                  (rev (sort (matchIndices ls n)) ! (length (nd_peers n) div 2)) of
             Some N \<Rightarrow> N | None \<Rightarrow> nd_commitIndex n)"
  using assms quorumIndex_less [of n ls]
  by (auto simp: tryAdvanceCommitIndex_def Let_def case_prod_unfold split: option.splits)

lemma tryAdvance_frame [frame_simps]:
  "nd_config (tryAdvanceCommitIndex n) = nd_config n" "nd_id (tryAdvanceCommitIndex n) = nd_id n"
  "nd_cluster (tryAdvanceCommitIndex n) = nd_cluster n"
  "nd_serverState (tryAdvanceCommitIndex n) = nd_serverState n"
  "nd_leaderState (tryAdvanceCommitIndex n) = nd_leaderState n"
  "nd_state (tryAdvanceCommitIndex n) = nd_state n"
  "nd_electionTimer (tryAdvanceCommitIndex n) = nd_electionTimer n"
  "nd_electionState (tryAdvanceCommitIndex n) = nd_electionState n"
  "nd_lastApplied (tryAdvanceCommitIndex n) = nd_lastApplied n"
  "nd_stateMachine (tryAdvanceCommitIndex n) = nd_stateMachine n"
  by (auto simp: tryAdvanceCommitIndex_def Let_def case_prod_unfold split: option.splits)

lemma tryAdvance_not_leader:
  "nd_state n \<noteq> Leader \<or> nd_leaderState n = None \<Longrightarrow> tryAdvanceCommitIndex n = n"
  by (auto simp: tryAdvanceCommitIndex_def split: option.splits)

lemma tryAdvance_ok [wf_intros]: "node_ok n \<Longrightarrow> node_ok (tryAdvanceCommitIndex n)"
  by (simp add: node_ok_def frame_simps)

lemma tryAdvance_sound:
  assumes "nd_commitIndex (tryAdvanceCommitIndex n) \<noteq> nd_commitIndex n"
  obtains ls where "nd_state n = Leader" and "nd_leaderState n = Some ls"
    and "nd_commitIndex n < nd_commitIndex (tryAdvanceCommitIndex n)"
    and "GetTermAtIndex (nd_serverState n) (nd_commitIndex (tryAdvanceCommitIndex n)) = nd_term n"
    and "length (nd_peers n) div 2 + 1
           \<le> replicas (matchIndices ls n) (nd_commitIndex (tryAdvanceCommitIndex n))"
proof -
  from assms obtain ls where ls: "nd_state n = Leader" "nd_leaderState n = Some ls"
    using tryAdvance_not_leader [of n] by force
  let ?m = "rev (sort (matchIndices ls n)) ! (length (nd_peers n) div 2)"
  from assms obtain N where N: "nd_commitIndex (tryAdvanceCommitIndex n) = N"
    "commitSearch (nd_serverState n) (nd_term n) (nd_commitIndex n) ?m = Some N"
    unfolding tryAdvance_eq [OF ls] by (auto split: if_splits option.splits)
  from commitSearch_Some [OF N(2)] have c: "nd_commitIndex n < N" "N \<le> ?m"
    "GetTermAtIndex (nd_serverState n) N = nd_term n" by auto
  have "length (nd_peers n) div 2 < length (matchIndices ls n)" using quorumIndex_less [of n ls] by simp
  then have "Suc (length (nd_peers n) div 2) \<le> replicas (matchIndices ls n) ?m"
    by (rule replicas_of_nth)
  also have "\<dots> \<le> replicas (matchIndices ls n) N" using c(2) by (rule replicas_antimono)
  finally show thesis using that [OF ls] c N(1) by simp
qed

lemma tryAdvance_complete:
  assumes "nd_state n = Leader" "nd_leaderState n = Some ls"
    and "nd_commitIndex n < N" "N \<le> fst (LastLogIndexAndTerm (nd_serverState n))"
    and "GetTermAtIndex (nd_serverState n) N = nd_term n"
    and "length (nd_peers n) div 2 + 1 \<le> replicas (matchIndices ls n) N"
  shows "N \<le> nd_commitIndex (tryAdvanceCommitIndex n)"
proof -
  let ?m = "rev (sort (matchIndices ls n)) ! (length (nd_peers n) div 2)"
  have "N \<le> ?m" using nth_of_replicas [of "length (nd_peers n) div 2"] assms(6) by simp
  from commitSearch_maximal [OF assms(3) this assms(5)] obtain M where
    "commitSearch (nd_serverState n) (nd_term n) (nd_commitIndex n) ?m = Some M" "N \<le> M" by blast
  moreover have "\<not> fst (LastLogIndexAndTerm (nd_serverState n)) \<le> nd_commitIndex n"
    using assms(3,4) by (meson le_less_trans leD)
  ultimately show ?thesis by (simp add: tryAdvance_eq [OF assms(1,2)])
qed

lemma tryAdvance_mono: "nd_commitIndex n \<le> nd_commitIndex (tryAdvanceCommitIndex n)"
  by (cases "nd_commitIndex (tryAdvanceCommitIndex n) = nd_commitIndex n")
    (auto elim: tryAdvance_sound)


section \<open>Applying entries in order\<close>

lemma getLogEntry_eq:
  assumes "slice_ok (nd_log n)"
  shows "getLogEntry i n =
     (if i = 0 \<or> length (nd_log n) < unat i
      then Inl (IndexOutOfBounds i (length (nd_log n))) else Inr (nd_log n ! (unat i - 1)))"
  using assms
  by (auto simp: getLogEntry_def go_simps array_pos_in_slice [of "nd_log n"])

lemma applyCommitted_loop_eq:
  assumes "slice_ok (nd_log n)" and "i \<noteq> 0"
  shows "applyCommitted_loop apply k i n =
     n\<lparr>nd_stateMachine :=
         fold (apply_entry apply) (take k (drop (unat i - 1) (nd_log n))) (nd_stateMachine n),
       nd_volatileState :=
         (if k = 0 \<or> length (nd_log n) < unat i then nd_volatileState n
          else SetLastApplied (of_nat (min (unat i - 1 + k) (length (nd_log n))))
                 (nd_volatileState n))\<rparr>"
  using assms
proof (induction k arbitrary: i n)
  case 0
  then show ?case by simp
next
  case (Suc k)
  have pos: "0 < unat i" using Suc.prems(2) by (simp add: unat_gt_0)
  show ?case
  proof (cases "length (nd_log n) < unat i")
    case True
    then show ?thesis using Suc.prems by (simp add: getLogEntry_eq)
  next
    case False
    let ?e = "nd_log n ! (unat i - 1)"
    let ?n = "n\<lparr>nd_stateMachine := apply_entry apply ?e (nd_stateMachine n),
               nd_volatileState := SetLastApplied i (nd_volatileState n)\<rparr>"
    have small: "unat i < 2 ^ 64 - 1" using False Suc.prems(1) by (simp add: slice_ok_def)
    then have suc: "unat (i + 1) = Suc (unat i)" by (rule unat_Suc_u64)
    then have nz: "i + 1 \<noteq> 0" by (metis nat.distinct(1) unat_0)
    have head: "drop (unat i - 1) (nd_log n) = ?e # drop (unat i) (nd_log n)"
      using False pos by (metis Cons_nth_drop_Suc Suc_diff_1 Suc_le_lessD not_less)
    have i: "i = of_nat (unat i)" by simp
    have "applyCommitted_loop apply (Suc k) i n = applyCommitted_loop apply k (i + 1) ?n"
      using False Suc.prems by (simp add: getLogEntry_eq)
    also have "\<dots> = ?n\<lparr>nd_stateMachine :=
         fold (apply_entry apply) (take k (drop (unat i) (nd_log n))) (nd_stateMachine ?n),
       nd_volatileState :=
         (if k = 0 \<or> length (nd_log n) < Suc (unat i) then nd_volatileState ?n
          else SetLastApplied (of_nat (min (unat i + k) (length (nd_log n))))
                 (nd_volatileState ?n))\<rparr>"
      using Suc.IH [of ?n "i + 1"] Suc.prems(1) nz suc by simp
    finally have run: "applyCommitted_loop apply (Suc k) i n = \<dots>" .
    have last: "min (unat i - 1 + Suc k) (length (nd_log n)) =
        (if k = 0 \<or> length (nd_log n) < Suc (unat i) then unat i
         else min (unat i + k) (length (nd_log n)))"
      using False pos by auto
    show ?thesis unfolding run last using False head by simp
  qed
qed

lemma applyCommittedEntries_eq:
  assumes "slice_ok (nd_log n)"
  shows "nd_stateMachine (applyCommittedEntries apply n) =
       fold (apply_entry apply)
         (drop (unat (nd_lastApplied n)) (take (unat (nd_commitIndex n)) (nd_log n)))
         (nd_stateMachine n)"
    and "unat (nd_lastApplied (applyCommittedEntries apply n)) =
       max (unat (nd_lastApplied n)) (min (unat (nd_commitIndex n)) (length (nd_log n)))"
    and "nd_log (applyCommittedEntries apply n) = nd_log n"
    and "nd_commitIndex (applyCommittedEntries apply n) = nd_commitIndex n"
proof -
  let ?la = "nd_lastApplied n" and ?ci = "nd_commitIndex n" and ?log = "nd_log n"
  have "nd_stateMachine (applyCommittedEntries apply n) =
       fold (apply_entry apply) (drop (unat ?la) (take (unat ?ci) ?log)) (nd_stateMachine n) \<and>
     unat (nd_lastApplied (applyCommittedEntries apply n)) = max (unat ?la) (min (unat ?ci) (length ?log)) \<and>
     nd_log (applyCommittedEntries apply n) = ?log \<and>
     nd_commitIndex (applyCommittedEntries apply n) = ?ci"
  proof (cases "?ci \<le> ?la")
    case True
    then have "unat ?ci \<le> unat ?la" by (simp add: word_le_nat_alt)
    with True show ?thesis by (simp add: applyCommittedEntries_def)
  next
    case False
    then have less: "unat ?la < unat ?ci" by (simp add: word_le_nat_alt)
    have "unat ?ci < 2 ^ 64" using unsigned_less [of ?ci] by simp
    then have suc: "unat (?la + 1) = Suc (unat ?la)" using less by (intro unat_Suc_u64) linarith
    then have nz: "?la + 1 \<noteq> 0" by (metis nat.distinct(1) unat_0)
    have diff: "unat (?ci - ?la) = unat ?ci - unat ?la"
      using less by (simp add: unat_sub word_le_nat_alt)
    have run: "applyCommittedEntries apply n =
        applyCommitted_loop apply (unat ?ci - unat ?la) (?la + 1) n"
      using False by (simp add: applyCommittedEntries_def diff Let_def)
    have slice: "take (unat ?ci - unat ?la) (drop (unat ?la) ?log) = drop (unat ?la) (take (unat ?ci) ?log)"
      by (simp add: drop_take)
    have fits: "min (unat ?ci) (length ?log) < 2 ^ 64"
      using assms slice_okD by (metis min.strict_coboundedI2)
    show ?thesis
      unfolding run applyCommitted_loop_eq [OF assms nz] suc
      using less fits slice by (auto simp: unat_of_nat_u64)
  qed
  then show "nd_stateMachine (applyCommittedEntries apply n) =
       fold (apply_entry apply) (drop (unat ?la) (take (unat ?ci) ?log)) (nd_stateMachine n)"
    and "unat (nd_lastApplied (applyCommittedEntries apply n)) =
       max (unat ?la) (min (unat ?ci) (length ?log))"
    and "nd_log (applyCommittedEntries apply n) = ?log"
    and "nd_commitIndex (applyCommittedEntries apply n) = ?ci"
    by blast+
qed

text \<open>
  The state machine of a node is the replay of the applied prefix of its log.
\<close>

definition replayed :: "(bytes \<Rightarrow> 'sm \<Rightarrow> 'sm) \<Rightarrow> 'sm option \<Rightarrow> 'sm Node \<Rightarrow> bool" where
  "replayed apply sm0 n \<longleftrightarrow>
     slice_ok (nd_log n) \<and> unat (nd_lastApplied n) \<le> length (nd_log n) \<and>
     nd_stateMachine n = fold (apply_entry apply) (take (unat (nd_lastApplied n)) (nd_log n)) sm0"

lemma fold_take_drop:
  "a \<le> b \<Longrightarrow> fold f (drop a (take b xs)) (fold f (take a xs) s) = fold f (take b xs) s"
  by (metis append_take_drop_id fold_append comp_apply min.absorb1 take_take)

lemma replayed_applyCommitted:
  assumes "replayed apply sm0 n"
  shows "replayed apply sm0 (applyCommittedEntries apply n)"
proof -
  let ?la = "unat (nd_lastApplied n)" and ?ci = "unat (nd_commitIndex n)" and ?log = "nd_log n"
  have ok: "slice_ok ?log" "?la \<le> length ?log"
    "nd_stateMachine n = fold (apply_entry apply) (take ?la ?log) sm0"
    using assms by (auto simp: replayed_def)
  have "fold (apply_entry apply) (drop ?la (take ?ci ?log)) (fold (apply_entry apply) (take ?la ?log) sm0)
      = fold (apply_entry apply) (take (max ?la (min ?ci (length ?log))) ?log) sm0"
  proof (cases "?la \<le> ?ci")
    case True
    have "take (max ?la (min ?ci (length ?log))) ?log = take ?ci ?log"
      using True ok(2) by (cases "?ci \<le> length ?log") auto
    then show ?thesis using fold_take_drop [OF True] by simp
  next
    case False
    then show ?thesis by simp
  qed
  then show ?thesis using ok unfolding replayed_def
    by (simp add: applyCommittedEntries_eq [OF ok(1)])
qed


section \<open>Properties\<close>

text \<open>C7: \<open>tryAdvanceCommitIndex\<close> never lowers the commit index; when it raises it,
  the node is leader, the entry at the new commit index is of its current term, and more than
  half of the peer count (\<open>peers / 2 + 1\<close> of the leader's last index and its match
  indices) reach the new commit index. In a cluster of odd size that is a majority.\<close>

theorem tryAdvanceCommitIndex_sound:
  assumes "nd_leaderState n = Some ls"
  shows "nd_commitIndex n \<le> nd_commitIndex (tryAdvanceCommitIndex n) \<and>
     (nd_commitIndex (tryAdvanceCommitIndex n) \<noteq> nd_commitIndex n \<longrightarrow>
        nd_state n = Leader \<and>
        GetTermAtIndex (nd_serverState n) (nd_commitIndex (tryAdvanceCommitIndex n)) = nd_term n \<and>
        length (nd_peers n) div 2 + 1
          \<le> replicas (matchIndices ls n) (nd_commitIndex (tryAdvanceCommitIndex n)) \<and>
        (odd (length (nd_peers n) + 1) \<longrightarrow>
           getQuorumSize n
             \<le> int (replicas (matchIndices ls n) (nd_commitIndex (tryAdvanceCommitIndex n)))))"
proof (cases "nd_commitIndex (tryAdvanceCommitIndex n) = nd_commitIndex n")
  case True
  then show ?thesis by simp
next
  case False
  then show ?thesis
  proof (rule tryAdvance_sound)
    fix ls'
    assume *: "nd_state n = Leader" "nd_leaderState n = Some ls'"
      "nd_commitIndex n < nd_commitIndex (tryAdvanceCommitIndex n)"
      "GetTermAtIndex (nd_serverState n) (nd_commitIndex (tryAdvanceCommitIndex n)) = nd_term n"
      "length (nd_peers n) div 2 + 1
         \<le> replicas (matchIndices ls' n) (nd_commitIndex (tryAdvanceCommitIndex n))"
    have "getQuorumSize n = int (length (nd_peers n) div 2 + 1)" if "odd (length (nd_peers n) + 1)"
      using that unfolding getQuorumSize_def Let_def by presburger
    then show ?thesis using * assms by auto
  qed
qed

text \<open>A leader of three nodes, and of four, whose log holds one entry of its term.\<close>

definition example_leader :: "string list \<Rightarrow> (string \<rightharpoonup> u64) \<Rightarrow> unit Node" where
  "example_leader peerIDs matches =
     (example_node ''n1'' peerIDs)
       \<lparr>nd_state := Leader,
        nd_serverState :=
          \<lparr>ss_CurrentTerm = 1, ss_VotedFor = ''n1'',
           ss_Log = [\<lparr>le_Term = 1, le_Index = 1, le_Data = [], le_Type = EntryNoOp\<rparr>]\<rparr>,
        nd_leaderState := Some \<lparr>ls_NextIndex = Map.empty, ls_MatchIndex = matches\<rparr>\<rparr>"

lemma example_leader_fields:
  "nd_state (example_leader ps ms) = Leader"
  "nd_leaderState (example_leader ps ms) = Some \<lparr>ls_NextIndex = Map.empty, ls_MatchIndex = ms\<rparr>"
  "nd_serverState (example_leader ps ms) =
     \<lparr>ss_CurrentTerm = 1, ss_VotedFor = ''n1'',
      ss_Log = [\<lparr>le_Term = 1, le_Index = 1, le_Data = [], le_Type = EntryNoOp\<rparr>]\<rparr>"
  "nd_peers (example_leader ps ms) = map (\<lambda>p. \<lparr>pr_ID = p, pr_Address = p\<rparr>) ps"
  "nd_commitIndex (example_leader ps ms) = 0"
  by (simp_all add: example_leader_def example_node_fields NewVolatileState_def)

lemma example_leader_commits:
  assumes "length ps div 2 + 1 \<le> replicas (1 # map (map_get ms) ps) 1"
  shows "1 \<le> nd_commitIndex (tryAdvanceCommitIndex (example_leader ps ms))"
proof (rule tryAdvance_complete [OF example_leader_fields(1,2)])
  show "1 \<le> fst (LastLogIndexAndTerm (nd_serverState (example_leader ps ms)))"
    by (simp add: example_leader_fields LastLogIndexAndTerm_def)
  show "GetTermAtIndex (nd_serverState (example_leader ps ms)) 1 = nd_term (example_leader ps ms)"
    by (simp add: example_leader_fields GetTermAtIndex_def go_len_def array_pos_def array_index_def)
  show "length (nd_peers (example_leader ps ms)) div 2 + 1
      \<le> replicas (matchIndices \<lparr>ls_NextIndex = Map.empty, ls_MatchIndex = ms\<rparr> (example_leader ps ms)) 1"
    using assms
    by (simp add: matchIndices_def example_leader_fields LastLogIndexAndTerm_def GetMatchIndex_def comp_def)
qed (simp add: example_leader_fields)

theorem tryAdvanceCommitIndex_sound_witness:
  "nd_commitIndex (tryAdvanceCommitIndex (example_leader [''n2'', ''n3''] [''n2'' \<mapsto> 1])) \<noteq> 0 \<and>
   getQuorumSize (example_leader [''n2'', ''n3''] [''n2'' \<mapsto> 1]) \<le>
     int (replicas (matchIndices \<lparr>ls_NextIndex = Map.empty, ls_MatchIndex = [''n2'' \<mapsto> 1]\<rparr>
            (example_leader [''n2'', ''n3''] [''n2'' \<mapsto> 1]))
          (nd_commitIndex (tryAdvanceCommitIndex (example_leader [''n2'', ''n3''] [''n2'' \<mapsto> 1]))))"
proof -
  let ?n = "example_leader [''n2'', ''n3''] [''n2'' \<mapsto> 1]"
  have "1 \<le> nd_commitIndex (tryAdvanceCommitIndex ?n)"
    by (rule example_leader_commits) (simp add: replicas_def map_get_def)
  then have "nd_commitIndex (tryAdvanceCommitIndex ?n) \<noteq> 0" by auto
  then show ?thesis
    using tryAdvanceCommitIndex_sound [OF example_leader_fields(2) [of "[''n2'', ''n3'']" "[''n2'' \<mapsto> 1]"]]
    by (simp add: example_leader_fields(4,5))
qed

text \<open>C8: \<open>tryAdvanceCommitIndex\<close> commits everything it may: every index of the log
  above the commit index whose entry is of the current term and which
  \<open>peers / 2 + 1\<close> of the match indices reach is committed by the call.\<close>

theorem tryAdvanceCommitIndex_complete:
  assumes "nd_state n = Leader" "nd_leaderState n = Some ls"
    and "nd_commitIndex n < N" "N \<le> fst (LastLogIndexAndTerm (nd_serverState n))"
    and "GetTermAtIndex (nd_serverState n) N = nd_term n"
    and "length (nd_peers n) div 2 + 1 \<le> replicas (matchIndices ls n) N"
  shows "isCommitted N (tryAdvanceCommitIndex n)"
  unfolding isCommitted_def using assms by (rule tryAdvance_complete)

theorem tryAdvanceCommitIndex_complete_witness:
  "isCommitted 1 (tryAdvanceCommitIndex (example_leader [''n2'', ''n3''] [''n2'' \<mapsto> 1]))"
  by (rule tryAdvanceCommitIndex_complete [OF example_leader_fields(1,2)])
    (simp_all add: example_leader_fields LastLogIndexAndTerm_def GetTermAtIndex_def go_len_def
      array_pos_def array_index_def matchIndices_def replicas_def GetMatchIndex_def)

text \<open>In a cluster of four the leader commits an entry that only one of its three
  peers holds: two of four nodes, fewer than the quorum \<open>getQuorumSize\<close> gives.\<close>

theorem even_cluster_commits_without_quorum:
  "let n = example_leader [''n2'', ''n3'', ''n4''] [''n2'' \<mapsto> 1] in
     isCommitted 1 (tryAdvanceCommitIndex n) \<and>
     int (replicas (matchIndices (the (nd_leaderState n)) n) 1) < getQuorumSize n"
  using example_leader_commits [of "[''n2'', ''n3'', ''n4'']" "[''n2'' \<mapsto> 1]"]
  by (simp add: isCommitted_def example_leader_fields matchIndices_def LastLogIndexAndTerm_def
      GetMatchIndex_def replicas_def getQuorumSize_def map_get_def)


definition example_log :: "LogEntry list" where
  "example_log =
     [\<lparr>le_Term = 1, le_Index = 1, le_Data = [7], le_Type = EntryNoOp\<rparr>,
      \<lparr>le_Term = 1, le_Index = 2, le_Data = [8], le_Type = EntryNormal\<rparr>]"

definition example_applier :: "(bytes list) Node" where
  "example_applier =
     \<lparr>nd_config = DefaultConfig, nd_id = ''n1'',
      nd_cluster = \<lparr>cc_Peers = [], cc_Self = \<lparr>pr_ID = ''n1'', pr_Address = ''a''\<rparr>\<rparr>,
      nd_serverState = \<lparr>ss_CurrentTerm = 1, ss_VotedFor = '''', ss_Log = example_log\<rparr>,
      nd_volatileState = \<lparr>vs_CommitIndex = 2, vs_LastApplied = 0\<rparr>, nd_leaderState = None,
      nd_state = Follower, nd_electionTimer = nil_electionTimer, nd_heartbeatTimer = None,
      nd_electionState = NewElectionState 0, nd_stateMachine = Some [], nd_leaseManager = None,
      nd_stopCh_closed = False, nd_goroutines = []\<rparr>"

lemma example_applier_fields:
  "nd_log example_applier = example_log" "nd_commitIndex example_applier = 2"
  "nd_lastApplied example_applier = 0" "nd_stateMachine example_applier = Some []"
  by (simp_all add: example_applier_def)


end
