(* ===== verification/RaftAppend.thy ===== *)
theory RaftAppend
  imports RaftCommit
begin

text \<open>
  Replicating the log, \<open>src/pkg/raft/append_entries.go\<close> and the sending half of
  \<open>src/pkg/raft/heartbeat.go\<close>: the request a leader builds for a peer, the follower's
  handler \<open>processAppendEntries\<close> with the merge \<open>applyLogEntries\<close> and the search
  for the conflicting term, and the leader's handling of responses. A remote call is not
  part of a definition: the request is what the code sends, the response an argument of the
  section that handles it.
\<close>

section \<open>Building a request\<close>

definition nextIndex_of :: "string \<Rightarrow> 'sm Node \<Rightarrow> u64" where
  "nextIndex_of peerID n =
     (case nd_leaderState n of None \<Rightarrow> 1 | Some ls \<Rightarrow> GetNextIndex ls peerID)"

text \<open>
  \<open>logEntries[:maxEntries]\<close> panics for a negative bound, which a validated
  configuration excludes.
\<close>

definition buildAppendEntriesRequest :: "string \<Rightarrow> 'sm Node \<Rightarrow> go_panic + AppendEntriesRequest" where
  "buildAppendEntriesRequest peerID n =
     (let currentTerm = nd_term n;
          commitIndex = nd_commitIndex n;
          nextIndex = nextIndex_of peerID n;
          prevLogIndex = nextIndex - 1;
          prevLogTerm = (if prevLogIndex > 0 then GetTermAtIndex (nd_serverState n) prevLogIndex else 0);
          (lastLogIndex, _) = LastLogIndexAndTerm (nd_serverState n);
          request = (\<lambda>entries.
            \<lparr>ae_Term = currentTerm, ae_LeaderId = nd_id n, ae_PrevLogIndex = prevLogIndex,
             ae_PrevLogTerm = prevLogTerm, ae_Entries = entries, ae_LeaderCommit = commitIndex\<rparr>)
      in
        if nextIndex \<le> lastLogIndex then
          let logEntries = GetEntriesFrom (nd_serverState n) nextIndex;
              maxEntries = cf_MaxEntriesPerAppend (nd_config n)
          in if int (length logEntries) > maxEntries then
               if maxEntries < 0 then Inl IndexOutOfRange
               else Inr (request (ConvertToProto (take (nat maxEntries) logEntries)))
             else Inr (request (ConvertToProto logEntries))
        else Inr (request []))"

text \<open>
  \<open>sendHeartbeats\<close> captures the term and the commit index of a leader;
  \<open>sendHeartbeatToPeer\<close> builds the empty request later, under its own lock.
\<close>

definition sendHeartbeats_begin :: "'sm Node \<Rightarrow> (u64 \<times> u64 \<times> Peer list) option" where
  "sendHeartbeats_begin n =
     (if nd_state n \<noteq> Leader then None else Some (nd_term n, nd_commitIndex n, nd_peers n))"

definition sendHeartbeatToPeer_request ::
  "Peer \<Rightarrow> u64 \<Rightarrow> u64 \<Rightarrow> 'sm Node \<Rightarrow> AppendEntriesRequest" where
  "sendHeartbeatToPeer_request peer term leaderCommit n =
     (let (prevLogIndex, prevLogTerm) =
            (case nd_leaderState n of
               None \<Rightarrow> (0, 0)
             | Some ls \<Rightarrow>
                 let nextIndex = GetNextIndex ls (pr_ID peer); prevLogIndex = nextIndex - 1
                 in (prevLogIndex,
                     if prevLogIndex > 0 then GetTermAtIndex (nd_serverState n) prevLogIndex else 0))
      in \<lparr>ae_Term = term, ae_LeaderId = nd_id n, ae_PrevLogIndex = prevLogIndex,
          ae_PrevLogTerm = prevLogTerm, ae_Entries = [], ae_LeaderCommit = leaderCommit\<rparr>)"


section \<open>Receiving a request\<close>

text \<open>The loop that looks for the first index of the conflicting term.\<close>

function conflictSearch :: "ServerState \<Rightarrow> u64 \<Rightarrow> u64 \<Rightarrow> u64" where
  "conflictSearch s termAtPrevIndex conflictIndex =
     (if conflictIndex > 0 \<and> GetTermAtIndex s conflictIndex = termAtPrevIndex
      then conflictSearch s termAtPrevIndex (conflictIndex - 1)
      else conflictIndex)"
  by pat_completeness auto
termination
proof (relation "measure (\<lambda>(s, t, i). unat i)", goal_cases)
  case (2 s t i)
  then have "i \<noteq> 0" by auto
  then have "unat (i - 1) < unat i" by (metis unat_pred_u64 diff_less unat_gt_0 zero_less_one)
  then show ?case by simp
qed simp

declare conflictSearch.simps [simp del]

definition applyLogEntry :: "pbLogEntry \<Rightarrow> ServerState \<Rightarrow> ServerState" where
  "applyLogEntry entry s =
     (let internalEntry =
            \<lparr>le_Term = pe_Term entry, le_Index = pe_Index entry, le_Data = pe_Data entry,
             le_Type = ConvertEntryTypeFromProto (pe_Type entry)\<rparr>
      in
        if pe_Index entry \<le> go_len (ss_Log s) then
          let existingTerm = GetTermAtIndex s (pe_Index entry) in
          if existingTerm \<noteq> pe_Term entry
          then AppendEntry internalEntry (TruncateLogAfter (pe_Index entry - 1) s)
          else s
        else AppendEntry internalEntry s)"

fun applyLogEntries :: "pbLogEntry list \<Rightarrow> ServerState \<Rightarrow> ServerState" where
  "applyLogEntries [] s = s"
| "applyLogEntries (entry # entries) s = applyLogEntries entries (applyLogEntry entry s)"

text \<open>
  The handler of a follower. Steps 3 to 6 (the consistency check, the merge, the commit
  index) are \<open>appendAfterPrev\<close>; both return the new node and the response.
\<close>

definition appendAfterPrev ::
  "AppendEntriesRequest \<Rightarrow> AppendEntriesResponse \<Rightarrow> 'sm Node \<Rightarrow> 'sm Node \<times> AppendEntriesResponse" where
  "appendAfterPrev req resp n =
     (let (lastLogIndex, _) = LastLogIndexAndTerm (nd_serverState n);
          termAtPrevIndex = GetTermAtIndex (nd_serverState n) (ae_PrevLogIndex req)
      in
        if ae_PrevLogIndex req > 0 \<and> ae_PrevLogIndex req > lastLogIndex
        then (n, resp\<lparr>ar_ConflictIndex := lastLogIndex + 1\<rparr>)
        else if ae_PrevLogIndex req > 0 \<and> termAtPrevIndex \<noteq> ae_PrevLogTerm req
        then
          let conflictIndex = conflictSearch (nd_serverState n) termAtPrevIndex (ae_PrevLogIndex req)
          in (n, resp\<lparr>ar_ConflictIndex := conflictIndex + 1, ar_ConflictTerm := termAtPrevIndex\<rparr>)
        else
          let n = n\<lparr>nd_serverState :=
                      (if ae_Entries req \<noteq> []
                       then applyLogEntries (ae_Entries req) (nd_serverState n)
                       else nd_serverState n)\<rparr>;
              (lastLogIndex, _) = LastLogIndexAndTerm (nd_serverState n);
              n = n\<lparr>nd_volatileState :=
                      (if ae_LeaderCommit req > nd_commitIndex n
                       then SetCommitIndex (min (ae_LeaderCommit req) lastLogIndex) (nd_volatileState n)
                       else nd_volatileState n)\<rparr>
          in (n, resp\<lparr>ar_Success := True\<rparr>))"

definition processAppendEntries ::
  "AppendEntriesRequest \<Rightarrow> 'sm Node \<Rightarrow> 'sm Node \<times> AppendEntriesResponse" where
  "processAppendEntries req n =
     (let currentTerm = nd_term n;
          resp = \<lparr>ar_Term = currentTerm, ar_Success = False, ar_ConflictIndex = 0, ar_ConflictTerm = 0\<rparr>
      in
        if ae_Term req < currentTerm then (n, resp)
        else
          let (n, resp) =
                (if ae_Term req > currentTerm
                 then (stepDown (ae_Term req) n, resp\<lparr>ar_Term := ae_Term req\<rparr>)
                 else (n, resp));
              n = (if nd_state n = Candidate then setState Follower n else n);
              n = n\<lparr>nd_electionTimer := ElectionTimer_Reset (nd_electionTimer n)\<rparr>
          in appendAfterPrev req resp n)"


section \<open>Handling a response\<close>

definition on_leaderState :: "(LeaderState \<Rightarrow> LeaderState) \<Rightarrow> 'sm Node \<Rightarrow> 'sm Node" where
  "on_leaderState f n = n\<lparr>nd_leaderState := map_option f (nd_leaderState n)\<rparr>"

definition handleAppendEntriesResponse ::
  "Peer \<Rightarrow> AppendEntriesRequest \<Rightarrow> AppendEntriesResponse \<Rightarrow> 'sm Node \<Rightarrow> 'sm Node \<times> bool" where
  "handleAppendEntriesResponse peer req resp n =
     (if ar_Term resp > nd_term n then (stepDown (ar_Term resp) n, False)
      else if nd_state n \<noteq> Leader \<or> nd_term n \<noteq> ae_Term req then (n, False)
      else case nd_leaderState n of
        None \<Rightarrow> (n, False)
      | Some ls \<Rightarrow>
          if ar_Success resp then
            if ae_Entries req \<noteq> [] then
              let lastSentIndex = pe_Index (ae_Entries req ! (length (ae_Entries req) - 1));
                  n = on_leaderState (SetNextIndex (pr_ID peer) (lastSentIndex + 1)) n;
                  n = on_leaderState (SetMatchIndex (pr_ID peer) lastSentIndex) n
              in (tryAdvanceCommitIndex n, True)
            else (n, True)
          else
            let nextIndex = GetNextIndex ls (pr_ID peer) in
            if ar_ConflictIndex resp > 0
            then (on_leaderState (SetNextIndex (pr_ID peer) (ar_ConflictIndex resp)) n, False)
            else if nextIndex > 1
            then (on_leaderState (SetNextIndex (pr_ID peer) (nextIndex - 1)) n, False)
            else (n, False))"

definition sendHeartbeatToPeer_response ::
  "Peer \<Rightarrow> u64 \<Rightarrow> AppendEntriesResponse \<Rightarrow> 'sm Node \<Rightarrow> 'sm Node" where
  "sendHeartbeatToPeer_response peer term resp n =
     (if ar_Term resp > nd_term n then stepDown (ar_Term resp) n
      else if nd_state n \<noteq> Leader \<or> nd_term n \<noteq> term then n
      else if ar_Success resp then n
      else case nd_leaderState n of
        None \<Rightarrow> n
      | Some ls \<Rightarrow>
          let nextIndex = GetNextIndex ls (pr_ID peer) in
          if nextIndex > 1 then on_leaderState (SetNextIndex (pr_ID peer) (nextIndex - 1)) n else n)"

section \<open>The merge of a request into the log\<close>

text \<open>
  The reference for \<open>applyLogEntries\<close>: keep the existing entries as long as the
  terms agree, and replace the rest of the log from the first entry that disagrees.
\<close>

fun merge_suffix :: "LogEntry list \<Rightarrow> LogEntry list \<Rightarrow> LogEntry list" where
  "merge_suffix old [] = old"
| "merge_suffix [] new = new"
| "merge_suffix (e # old) (e' # new) =
     (if le_Term e = le_Term e' then e # merge_suffix old new else e' # new)"

lemma merge_suffix_Nil [simp]: "merge_suffix [] new = new"
  by (cases new) simp_all

lemma length_merge_suffix:
  "length new \<le> length (merge_suffix old new)"
  "length (merge_suffix old new) \<le> max (length old) (length new)"
  by (induction old new rule: merge_suffix.induct) auto

lemma merge_suffix_terms:
  "k < length new \<Longrightarrow> le_Term (merge_suffix old new ! k) = le_Term (new ! k)"
  by (induction old new arbitrary: k rule: merge_suffix.induct) (auto simp: nth_Cons split: nat.splits)

lemma merge_suffix_idem: "merge_suffix (merge_suffix old new) new = merge_suffix old new"
proof (induction old new rule: merge_suffix.induct)
  case (2 v va)
  have "merge_suffix xs xs = xs" for xs by (induction xs) simp_all
  then show ?case by simp
next
  case (3 e old e' new)
  have "merge_suffix xs xs = xs" for xs by (induction xs) simp_all
  with 3 show ?case by simp
qed simp

lemma merge_suffix_agree:
  assumes "\<And>k. k < length old \<Longrightarrow> k < length new \<Longrightarrow> le_Term (old ! k) = le_Term (new ! k)"
    and "length new \<le> length old"
  shows "merge_suffix old new = old"
  using assms
proof (induction old new rule: merge_suffix.induct)
  case (3 e old e' new)
  have "le_Term e = le_Term e'" using "3.prems"(1) [of 0] by simp
  moreover have "merge_suffix old new = old" if "le_Term e = le_Term e'"
    using that "3.prems"(1) [of "Suc _"] "3.prems"(2) by (intro "3.IH") auto
  ultimately show ?case by simp
qed auto

lemma merge_suffix_index:
  assumes "\<And>k. k < length old \<Longrightarrow> P k (old ! k)" and "\<And>k. k < length new \<Longrightarrow> P k (new ! k)"
    and "k < length (merge_suffix old new)"
  shows "P k (merge_suffix old new ! k)"
  using assms
proof (induction old new arbitrary: k P rule: merge_suffix.induct)
  case (3 e old e' new)
  show ?case
  proof (cases "le_Term e = le_Term e' \<and> k \<noteq> 0")
    case True
    then obtain j where k: "k = Suc j" by (cases k) auto
    have "P (Suc j) (merge_suffix old new ! j)"
      using True k "3.prems"(1) [of "Suc _"] "3.prems"(2) [of "Suc _"] "3.prems"(3)
      by (intro "3.IH" [where P = "\<lambda>i. P (Suc i)"]) auto
    then show ?thesis using True k by simp
  next
    case False
    then show ?thesis using "3.prems"(1) [of 0] "3.prems"(2) [of k] "3.prems"(3) by auto
  qed
qed auto

text \<open>
  \<open>entries_at p es\<close>: the entries of a request carry the indices that follow
  \<open>p\<close>, as those of every request \<open>buildAppendEntriesRequest\<close> makes from a
  well-formed log do.
\<close>

definition entries_at :: "nat \<Rightarrow> pbLogEntry list \<Rightarrow> bool" where
  "entries_at p es \<longleftrightarrow>
     p + length es < 2 ^ 63 \<and> (\<forall>k < length es. unat (pe_Index (es ! k)) = p + k + 1)"

lemma entries_at_Cons:
  "entries_at p (e # es) \<longleftrightarrow> p + 1 < 2 ^ 63 \<and> unat (pe_Index e) = p + 1 \<and> entries_at (Suc p) es"
  unfolding entries_at_def by (auto simp: nth_Cons split: nat.splits)

lemma applyLogEntry_eq:
  assumes "slice_ok (ss_Log s)" and "p \<le> length (ss_Log s)" and "unat (pe_Index e) = p + 1"
  shows "applyLogEntry e s =
     s\<lparr>ss_Log := (if p < length (ss_Log s) \<and> le_Term (ss_Log s ! p) = pe_Term e then ss_Log s
                 else take p (ss_Log s) @ [entry_from_proto e])\<rparr>"
proof -
  let ?log = "ss_Log s" and ?i = "pe_Index e"
  have nz: "?i \<noteq> 0" using assms(3) by auto
  have "p = unat (?i - 1)" using assms(3) nz by (simp add: unat_pred_u64)
  then have cut: "ss_Log (TruncateLogAfter (?i - 1) s) = take p ?log"
    using server_log.truncate_law [OF assms(1), of "?i - 1"] assms(2) by simp
  have upd: "TruncateLogAfter i s = s\<lparr>ss_Log := ss_Log (TruncateLogAfter i s)\<rparr>" for i
    by (simp add: TruncateLogAfter_def)
  have "GetTermAtIndex s ?i = le_Term (?log ! p)" if "p < length ?log"
    using server_log.term_at_inside [OF assms(1) nz] assms(3) that by simp
  then show ?thesis
    using assms cut upd [of "?i - 1"]
    by (auto simp: applyLogEntry_def Let_def go_simps AppendEntry_def entry_from_proto_def)
qed

lemma applyLogEntries_eq:
  assumes "slice_ok (ss_Log s)" and "p \<le> length (ss_Log s)" and "entries_at p es"
  shows "applyLogEntries es s =
     s\<lparr>ss_Log := take p (ss_Log s) @ merge_suffix (drop p (ss_Log s)) (ConvertFromProto es)\<rparr>"
  using assms
proof (induction es arbitrary: p s)
  case Nil
  then show ?case by (simp add: ConvertFromProto_def)
next
  case (Cons e es)
  let ?log = "ss_Log s" and ?e = "entry_from_proto e"
  let ?s = "applyLogEntry e s"
  have at: "unat (pe_Index e) = p + 1" "p + 1 < 2 ^ 63" "entries_at (Suc p) es"
    using Cons.prems(3) by (auto simp: entries_at_Cons)
  note step = applyLogEntry_eq [OF Cons.prems(1,2) at(1)]
  have "applyLogEntries es ?s =
      ?s\<lparr>ss_Log := take (Suc p) (ss_Log ?s) @ merge_suffix (drop (Suc p) (ss_Log ?s)) (ConvertFromProto es)\<rparr>"
    using Cons.prems at by (intro Cons.IH) (auto simp: step slice_ok_def)
  also have "\<dots> = s\<lparr>ss_Log := take p ?log @ merge_suffix (drop p ?log) (ConvertFromProto (e # es))\<rparr>"
  proof (cases "p < length ?log")
    case True
    then have "drop p ?log = ?log ! p # drop (Suc p) ?log" by (simp add: Cons_nth_drop_Suc)
    with True show ?thesis unfolding step
      by (auto simp: ConvertFromProto_def entry_from_proto_def take_Suc_conv_app_nth nth_append)
  next
    case False
    with Cons.prems(2) have "p = length ?log" by simp
    then show ?thesis unfolding step by (simp add: ConvertFromProto_def)
  qed
  finally show ?case by simp
qed

lemma wf_log_merge:
  assumes "wf_log log" and "p \<le> length log" and "entries_at p es"
  shows "wf_log (take p log @ merge_suffix (drop p log) (ConvertFromProto es))"
proof -
  let ?m = "merge_suffix (drop p log) (ConvertFromProto es)"
  have idx: "unat (le_Index (?m ! k)) = Suc (p + k)" if "k < length ?m" for k
  proof (rule merge_suffix_index [where P = "\<lambda>k e. unat (le_Index e) = Suc (p + k)", OF _ _ that])
    show "unat (le_Index (drop p log ! j)) = Suc (p + j)" if "j < length (drop p log)" for j
      using assms(1) that by (simp add: wf_log_def)
    show "unat (le_Index (ConvertFromProto es ! j)) = Suc (p + j)" if "j < length (ConvertFromProto es)" for j
      using assms(3) that by (simp add: entries_at_def ConvertFromProto_def entry_from_proto_def)
  qed
  have "length ?m \<le> max (length log - p) (length es)"
    using length_merge_suffix(2) [of "drop p log" "ConvertFromProto es"] by (simp add: ConvertFromProto_def)
  then have "p + length ?m < 2 ^ 63"
    using assms by (auto simp: wf_log_def slice_ok_def entries_at_def)
  then show ?thesis using assms(1,2) idx
    by (auto simp: wf_log_def slice_ok_def nth_append min_def)
qed


section \<open>The conflict index\<close>

lemma conflictSearch_spec:
  "conflictSearch s t i \<le> i \<and>
   (\<forall>j. conflictSearch s t i < j \<and> j \<le> i \<longrightarrow> GetTermAtIndex s j = t) \<and>
   (conflictSearch s t i = 0 \<or> GetTermAtIndex s (conflictSearch s t i) \<noteq> t)"
proof (induction s t i rule: conflictSearch.induct)
  case (1 s t i)
  show ?case
  proof (cases "i > 0 \<and> GetTermAtIndex s i = t")
    case True
    then have nz: "i \<noteq> 0" by auto
    then have "0 < unat i" by (simp add: unat_gt_0)
    then have pred: "j \<le> i - 1 \<longleftrightarrow> j < i" for j
      unfolding word_le_nat_alt word_less_nat_alt unat_pred_u64 [OF nz] by linarith
    have run: "conflictSearch s t i = conflictSearch s t (i - 1)"
      using True by (simp add: conflictSearch.simps [of s t i])
    have "j = i \<or> j \<le> i - 1" if "j \<le> i" for j using that pred by (auto simp: order_le_less)
    moreover have "conflictSearch s t (i - 1) \<le> i"
      using 1 [OF True] pred by (meson order_less_imp_le)
    ultimately show ?thesis unfolding run using 1 [OF True] True by blast
  next
    case False
    then show ?thesis by (auto simp: conflictSearch.simps [of s t i] word_gt_0)
  qed
qed

lemma conflictSearch_less:
  assumes "i \<noteq> 0" and "GetTermAtIndex s i = t"
  shows "conflictSearch s t i < i"
proof -
  have "conflictSearch s t i \<noteq> i" using conflictSearch_spec [of s t i] assms by metis
  then show ?thesis using conflictSearch_spec [of s t i] by (simp add: order_le_less)
qed

lemma GetTermAtIndex_log: "ss_Log s = ss_Log s' \<Longrightarrow> GetTermAtIndex s i = GetTermAtIndex s' i"
  by (simp add: GetTermAtIndex_def)

lemma LastLog_log: "ss_Log s = ss_Log s' \<Longrightarrow> LastLogIndexAndTerm s = LastLogIndexAndTerm s'"
  by (simp add: LastLogIndexAndTerm_def)

lemma conflictSearch_log:
  "ss_Log s = ss_Log s' \<Longrightarrow> conflictSearch s t i = conflictSearch s' t i"
proof (induction s t i rule: conflictSearch.induct)
  case (1 s t i)
  then show ?case
    using GetTermAtIndex_log [OF "1.prems", of i]
    by (simp add: conflictSearch.simps [of s t i] conflictSearch.simps [of s' t i])
qed


section \<open>The follower's handler\<close>

text \<open>The effect of hearing from a leader of a term that is not older.\<close>

definition heardFrom :: "AppendEntriesRequest \<Rightarrow> 'sm Node \<Rightarrow> 'sm Node" where
  "heardFrom req n =
     (let n = (if ae_Term req > nd_term n then stepDown (ae_Term req) n else n);
          n = (if nd_state n = Candidate then setState Follower n else n)
      in n\<lparr>nd_electionTimer := ElectionTimer_Reset (nd_electionTimer n)\<rparr>)"

lemma heardFrom_fields:
  "nd_log (heardFrom req n) = nd_log n"
  "nd_id (heardFrom req n) = nd_id n"
  "nd_config (heardFrom req n) = nd_config n"
  "nd_cluster (heardFrom req n) = nd_cluster n"
  "nd_volatileState (heardFrom req n) = nd_volatileState n"
  "nd_electionState (heardFrom req n) = nd_electionState n"
  "nd_stateMachine (heardFrom req n) = nd_stateMachine n"
  "nd_term (heardFrom req n) = max (nd_term n) (ae_Term req)"
  "nd_votedFor (heardFrom req n) = (if nd_term n < ae_Term req then '''' else nd_votedFor n)"
  "nd_state (heardFrom req n) =
     (if nd_term n < ae_Term req \<or> nd_state n = Candidate then Follower else nd_state n)"
  by (auto simp: heardFrom_def Let_def max_def)

lemma heardFrom_ok [wf_intros]: "node_ok n \<Longrightarrow> node_ok (heardFrom req n)"
  by (auto simp: heardFrom_def Let_def node_ok_def transition_fields ElectionTimer_Reset_ok)

text \<open>The consistency check: the log holds the entry the request builds on.\<close>

definition prev_matches :: "AppendEntriesRequest \<Rightarrow> LogEntry list \<Rightarrow> bool" where
  "prev_matches req log \<longleftrightarrow>
     ae_PrevLogIndex req = 0 \<or>
     unat (ae_PrevLogIndex req) \<le> length log \<and>
     le_Term (log ! (unat (ae_PrevLogIndex req) - 1)) = ae_PrevLogTerm req"

definition accepts :: "AppendEntriesRequest \<Rightarrow> 'sm Node \<Rightarrow> bool" where
  "accepts req n \<longleftrightarrow> nd_term n \<le> ae_Term req \<and> prev_matches req (nd_log n)"

definition merged_log :: "AppendEntriesRequest \<Rightarrow> LogEntry list \<Rightarrow> LogEntry list" where
  "merged_log req log =
     take (unat (ae_PrevLogIndex req)) log @
     merge_suffix (drop (unat (ae_PrevLogIndex req)) log) (ConvertFromProto (ae_Entries req))"

definition request_ok :: "AppendEntriesRequest \<Rightarrow> bool" where
  "request_ok req \<longleftrightarrow> entries_at (unat (ae_PrevLogIndex req)) (ae_Entries req)"

lemma wf_merged_log [wf_intros]:
  assumes "wf_log log" "prev_matches req log" "request_ok req"
  shows "wf_log (merged_log req log)"
  using assms wf_log_merge [of log "unat (ae_PrevLogIndex req)" "ae_Entries req"]
  by (auto simp: merged_log_def prev_matches_def request_ok_def)

text \<open>
  The response of a rejection: the own term; and, when the term was not the reason, where
  the leader should go on: behind the end of a log that is too short, or at the first index
  of the term found in the place of the previous entry.
\<close>

definition rejection :: "AppendEntriesRequest \<Rightarrow> 'sm Node \<Rightarrow> AppendEntriesResponse" where
  "rejection req n =
     (let prev = ae_PrevLogIndex req; t = GetTermAtIndex (nd_serverState n) prev in
      if ae_Term req < nd_term n
      then \<lparr>ar_Term = nd_term n, ar_Success = False, ar_ConflictIndex = 0, ar_ConflictTerm = 0\<rparr>
      else if length (nd_log n) < unat prev
      then \<lparr>ar_Term = ae_Term req, ar_Success = False, ar_ConflictIndex = go_len (nd_log n) + 1,
            ar_ConflictTerm = 0\<rparr>
      else \<lparr>ar_Term = ae_Term req, ar_Success = False,
            ar_ConflictIndex = conflictSearch (nd_serverState n) t prev + 1, ar_ConflictTerm = t\<rparr>)"

lemma processAppendEntries_stale:
  "ae_Term req < nd_term n \<Longrightarrow> processAppendEntries req n = (n, rejection req n)"
  by (simp add: processAppendEntries_def rejection_def)

lemma processAppendEntries_heard:
  "nd_term n \<le> ae_Term req \<Longrightarrow>
   processAppendEntries req n =
     appendAfterPrev req
       \<lparr>ar_Term = ae_Term req, ar_Success = False, ar_ConflictIndex = 0, ar_ConflictTerm = 0\<rparr>
       (heardFrom req n)"
  by (auto simp: processAppendEntries_def heardFrom_def Let_def)

lemma appendAfterPrev_accepts:
  assumes "wf_log (nd_log n)" and "prev_matches req (nd_log n)" and "request_ok req"
  shows "appendAfterPrev req resp n =
     (n\<lparr>nd_serverState := (nd_serverState n)\<lparr>ss_Log := merged_log req (nd_log n)\<rparr>,
        nd_volatileState :=
          (if nd_commitIndex n < ae_LeaderCommit req
           then SetCommitIndex (min (ae_LeaderCommit req) (go_len (merged_log req (nd_log n))))
                  (nd_volatileState n)
           else nd_volatileState n)\<rparr>,
      resp\<lparr>ar_Success := True\<rparr>)"
proof -
  let ?prev = "ae_PrevLogIndex req"
  have slice: "slice_ok (nd_log n)" using assms(1) by simp
  have fits: "unat ?prev \<le> length (nd_log n)" using assms(2) by (auto simp: prev_matches_def)
  have applied: "applyLogEntries (ae_Entries req) (nd_serverState n) =
      (nd_serverState n)\<lparr>ss_Log := merged_log req (nd_log n)\<rparr>"
    using applyLogEntries_eq [OF slice fits, of "ae_Entries req"] assms(3)
    by (simp add: request_ok_def merged_log_def)
  have last: "fst (LastLogIndexAndTerm s) = go_len (ss_Log s)" if "wf_log (ss_Log s)" for s
    using server_log.last_index_is_length [OF that] .
  have "\<not> (?prev > 0 \<and> ?prev > fst (LastLogIndexAndTerm (nd_serverState n)))"
    using fits slice by (simp add: last [OF assms(1)] go_simps)
  moreover have "\<not> (?prev > 0 \<and> GetTermAtIndex (nd_serverState n) ?prev \<noteq> ae_PrevLogTerm req)"
    using assms(2) server_log.term_at_inside [OF slice, of ?prev]
    by (auto simp: prev_matches_def)
  moreover have "wf_log (merged_log req (nd_log n))" using assms by (rule wf_merged_log)
  moreover have "(if ae_Entries req \<noteq> [] then applyLogEntries (ae_Entries req) (nd_serverState n)
      else nd_serverState n) = (nd_serverState n)\<lparr>ss_Log := merged_log req (nd_log n)\<rparr>"
    using applied by (cases "ae_Entries req") simp_all
  ultimately show ?thesis
    using last [of "(nd_serverState n)\<lparr>ss_Log := merged_log req (nd_log n)\<rparr>"]
    by (simp only: appendAfterPrev_def Let_def case_prod_unfold if_False) simp
qed

lemma appendAfterPrev_rejects:
  assumes "wf_log (nd_log n)" and "\<not> prev_matches req (nd_log n)"
  shows "appendAfterPrev req resp n =
     (n, if length (nd_log n) < unat (ae_PrevLogIndex req)
         then resp\<lparr>ar_ConflictIndex := go_len (nd_log n) + 1\<rparr>
         else resp\<lparr>ar_ConflictIndex :=
                conflictSearch (nd_serverState n)
                  (GetTermAtIndex (nd_serverState n) (ae_PrevLogIndex req)) (ae_PrevLogIndex req) + 1,
              ar_ConflictTerm := GetTermAtIndex (nd_serverState n) (ae_PrevLogIndex req)\<rparr>)"
proof -
  let ?prev = "ae_PrevLogIndex req"
  have slice: "slice_ok (nd_log n)" using assms(1) by simp
  have nz: "?prev \<noteq> 0" using assms(2) by (auto simp: prev_matches_def)
  then have pos: "?prev > 0" by (simp add: word_gt_0)
  have last: "fst (LastLogIndexAndTerm (nd_serverState n)) = go_len (nd_log n)"
    using server_log.last_index_is_length [OF assms(1)] .
  have "GetTermAtIndex (nd_serverState n) ?prev \<noteq> ae_PrevLogTerm req"
    if "unat ?prev \<le> length (nd_log n)"
    using assms(2) server_log.term_at_inside [OF slice nz that] that by (auto simp: prev_matches_def)
  then show ?thesis
    using pos slice by (simp add: appendAfterPrev_def case_prod_unfold last go_simps Let_def)
qed


lemma processAppendEntries_accepts:
  assumes "wf_log (nd_log n)" and "accepts req n" and "request_ok req"
  shows "processAppendEntries req n =
     ((heardFrom req n)
        \<lparr>nd_serverState := (nd_serverState (heardFrom req n))\<lparr>ss_Log := merged_log req (nd_log n)\<rparr>,
         nd_volatileState :=
           (if nd_commitIndex n < ae_LeaderCommit req
            then SetCommitIndex (min (ae_LeaderCommit req) (go_len (merged_log req (nd_log n))))
                   (nd_volatileState n)
            else nd_volatileState n)\<rparr>,
      \<lparr>ar_Term = ae_Term req, ar_Success = True, ar_ConflictIndex = 0, ar_ConflictTerm = 0\<rparr>)"
  using assms appendAfterPrev_accepts [of "heardFrom req n" req]
  by (simp add: accepts_def processAppendEntries_heard heardFrom_fields)

lemma processAppendEntries_rejects:
  assumes "wf_log (nd_log n)" and "\<not> accepts req n"
  shows "processAppendEntries req n =
     (if nd_term n \<le> ae_Term req then heardFrom req n else n, rejection req n)"
proof (cases "nd_term n \<le> ae_Term req")
  case True
  have log: "nd_log (heardFrom req n) = nd_log n" by (simp add: heardFrom_fields)
  note same = GetTermAtIndex_log [OF log] conflictSearch_log [OF log]
  from True assms have "\<not> prev_matches req (nd_log n)" by (simp add: accepts_def)
  then show ?thesis using True assms(1) appendAfterPrev_rejects [of "heardFrom req n" req]
    by (simp add: processAppendEntries_heard log same rejection_def Let_def)
next
  case False
  then show ?thesis by (simp add: processAppendEntries_stale not_le)
qed

lemma processAppendEntries_fields:
  assumes "wf_log (nd_log n)" "request_ok req"
  shows processAppendEntries_term:
      "nd_term (fst (processAppendEntries req n)) = max (nd_term n) (ae_Term req)"
    and "ar_Term (snd (processAppendEntries req n)) = max (nd_term n) (ae_Term req)"
    and "nd_votedFor (fst (processAppendEntries req n)) =
       (if nd_term n < ae_Term req then '''' else nd_votedFor n)"
    and "nd_id (fst (processAppendEntries req n)) = nd_id n"
    and "nd_cluster (fst (processAppendEntries req n)) = nd_cluster n"
    and "nd_config (fst (processAppendEntries req n)) = nd_config n"
    and processAppendEntries_success:
      "ar_Success (snd (processAppendEntries req n)) = accepts req n"
    and processAppendEntries_log:
      "nd_log (fst (processAppendEntries req n)) =
       (if accepts req n then merged_log req (nd_log n) else nd_log n)"
proof -
  note acc = processAppendEntries_accepts [OF assms(1) _ assms(2)]
  note rej = processAppendEntries_rejects [OF assms(1)]
  have newer: "nd_term n \<le> ae_Term req" if "accepts req n" using that by (simp add: accepts_def)
  show "nd_term (fst (processAppendEntries req n)) = max (nd_term n) (ae_Term req)"
    using acc rej by (cases "accepts req n") (simp_all add: heardFrom_fields max_def)
  show "ar_Term (snd (processAppendEntries req n)) = max (nd_term n) (ae_Term req)"
    using acc rej newer
    by (cases "accepts req n") (auto simp: rejection_def Let_def max_def not_le)
  show "nd_votedFor (fst (processAppendEntries req n)) =
       (if nd_term n < ae_Term req then '''' else nd_votedFor n)"
    using acc rej by (cases "accepts req n") (auto simp: heardFrom_fields not_le)
  show "nd_id (fst (processAppendEntries req n)) = nd_id n"
    "nd_cluster (fst (processAppendEntries req n)) = nd_cluster n"
    "nd_config (fst (processAppendEntries req n)) = nd_config n"
    using acc rej by (cases "accepts req n"; simp add: heardFrom_fields)+
  show "ar_Success (snd (processAppendEntries req n)) = accepts req n"
    using acc rej by (cases "accepts req n") (simp_all add: rejection_def Let_def)
  show "nd_log (fst (processAppendEntries req n)) =
       (if accepts req n then merged_log req (nd_log n) else nd_log n)"
    using acc rej by (cases "accepts req n") (simp_all add: heardFrom_fields)
qed

lemma processAppendEntries_ok [wf_intros]:
  assumes "node_ok n" and "request_ok req"
  shows "node_ok (fst (processAppendEntries req n))"
proof (cases "accepts req n")
  case True
  have wf: "wf_log (nd_log n)" using assms(1) by (simp add: node_ok_def)
  have "wf_log (merged_log req (nd_log n))"
    using wf True assms(2) by (auto simp: accepts_def intro: wf_merged_log)
  then show ?thesis
    using heardFrom_ok [OF assms(1), of req] processAppendEntries_accepts [OF wf True assms(2)]
    by (simp add: node_ok_def)
next
  case False
  have wf: "wf_log (nd_log n)" using assms(1) by (simp add: node_ok_def)
  show ?thesis using assms(1) heardFrom_ok [OF assms(1), of req]
    by (simp add: processAppendEntries_rejects [OF wf False])
qed

text \<open>The entries of an accepted request are in the log, by term, at their indices.\<close>

lemma merged_log_terms:
  assumes "prev_matches req log" and "k < length (ae_Entries req)"
  shows "unat (ae_PrevLogIndex req) + k < length (merged_log req log) \<and>
     le_Term (merged_log req log ! (unat (ae_PrevLogIndex req) + k)) = pe_Term (ae_Entries req ! k)"
proof -
  let ?p = "unat (ae_PrevLogIndex req)" and ?new = "ConvertFromProto (ae_Entries req)"
  have p: "?p \<le> length log" using assms(1) by (auto simp: prev_matches_def)
  have k: "k < length ?new" using assms(2) by (simp add: ConvertFromProto_def)
  have "le_Term (merge_suffix (drop ?p log) ?new ! k) = pe_Term (ae_Entries req ! k)"
    using merge_suffix_terms [OF k, of "drop ?p log"] assms(2)
    by (simp add: ConvertFromProto_def entry_from_proto_def)
  moreover have "k < length (merge_suffix (drop ?p log) ?new)"
    using length_merge_suffix(1) [of ?new "drop ?p log"] k by linarith
  ultimately show ?thesis using p
    by (cases "length log = ?p") (simp_all add: merged_log_def nth_append)
qed

lemma merged_log_prefix:
  "prev_matches req log \<Longrightarrow>
     take (unat (ae_PrevLogIndex req)) (merged_log req log) = take (unat (ae_PrevLogIndex req)) log"
  by (auto simp: merged_log_def prev_matches_def min_def)

lemma merged_log_idem:
  assumes "prev_matches req log"
  shows "prev_matches req (merged_log req log) \<and> merged_log req (merged_log req log) = merged_log req log"
proof -
  let ?p = "unat (ae_PrevLogIndex req)"
  have p: "?p \<le> length log" using assms by (auto simp: prev_matches_def)
  have "merged_log req (merged_log req log) = merged_log req log"
    using p by (simp add: merged_log_def min_def merge_suffix_idem)
  moreover have "prev_matches req (merged_log req log)"
  proof (cases "ae_PrevLogIndex req = 0")
    case False
    then have "?p - 1 < ?p" by (simp add: unat_gt_0)
    then show ?thesis using assms p by (auto simp: prev_matches_def merged_log_def nth_append)
  qed (simp add: prev_matches_def)
  ultimately show ?thesis by simp
qed



section \<open>Properties\<close>

text \<open>C5: What a follower does with an AppendEntries request whose entries carry the
  indices after \<open>prevLogIndex\<close>. It succeeds exactly when the request is not older
  than its term and its log holds the previous entry with the given term; then the log
  becomes the reference merge, holds every entry of the request by term at its index, keeps
  its prefix up to \<open>prevLogIndex\<close> and is still well formed, and the commit index is
  raised to the leader's or to the end of the log. Otherwise log and commit index stay. In
  every case the term becomes the larger of the two and is the term of the response.\<close>

theorem processAppendEntries_functional:
  assumes "node_ok n" and "request_ok req"
  shows "node_ok (fst (processAppendEntries req n)) \<and>
     ar_Success (snd (processAppendEntries req n)) = accepts req n \<and>
     nd_term (fst (processAppendEntries req n)) = max (nd_term n) (ae_Term req) \<and>
     ar_Term (snd (processAppendEntries req n)) = max (nd_term n) (ae_Term req) \<and>
     (if accepts req n
      then nd_log (fst (processAppendEntries req n)) = merged_log req (nd_log n) \<and>
        (\<forall>k < length (ae_Entries req).
           le_Term (merged_log req (nd_log n) ! (unat (ae_PrevLogIndex req) + k))
             = pe_Term (ae_Entries req ! k)) \<and>
        take (unat (ae_PrevLogIndex req)) (merged_log req (nd_log n))
          = take (unat (ae_PrevLogIndex req)) (nd_log n) \<and>
        nd_commitIndex (fst (processAppendEntries req n)) =
          (if nd_commitIndex n < ae_LeaderCommit req
           then min (ae_LeaderCommit req) (go_len (merged_log req (nd_log n)))
           else nd_commitIndex n)
      else nd_log (fst (processAppendEntries req n)) = nd_log n \<and>
        nd_commitIndex (fst (processAppendEntries req n)) = nd_commitIndex n)"
proof -
  have wf: "wf_log (nd_log n)" using assms(1) by (simp add: node_ok_def)
  have prev: "prev_matches req (nd_log n)" if "accepts req n" using that by (simp add: accepts_def)
  show ?thesis
    using processAppendEntries_ok [OF assms] processAppendEntries_fields [OF wf assms(2)]
      processAppendEntries_accepts [OF wf _ assms(2)] processAppendEntries_rejects [OF wf]
      merged_log_terms [OF prev] merged_log_prefix [OF prev]
    by (cases "accepts req n") (simp_all add: heardFrom_fields)
qed

definition example_follower :: "unit Node" where
  "example_follower =
     (example_node ''n2'' [''n1'', ''n3''])
       \<lparr>nd_serverState :=
          \<lparr>ss_CurrentTerm = 1, ss_VotedFor = '''',
           ss_Log = [\<lparr>le_Term = 1, le_Index = 1, le_Data = [], le_Type = EntryNoOp\<rparr>,
                     \<lparr>le_Term = 1, le_Index = 2, le_Data = [7], le_Type = EntryNormal\<rparr>]\<rparr>\<rparr>"

definition example_append :: "pbLogEntry list \<Rightarrow> AppendEntriesRequest" where
  "example_append es =
     \<lparr>ae_Term = 2, ae_LeaderId = ''n1'', ae_PrevLogIndex = 1, ae_PrevLogTerm = 1, ae_Entries = es,
      ae_LeaderCommit = 2\<rparr>"

definition example_entry :: pbLogEntry where
  "example_entry = \<lparr>pe_Term = 2, pe_Index = 2, pe_Type = ENTRY_TYPE_NORMAL, pe_Data = [8]\<rparr>"

lemma example_node_ok: "nodeID \<noteq> '''' \<Longrightarrow> node_ok (example_node nodeID peerIDs)"
proof -
  assume "nodeID \<noteq> ''''"
  then obtain n where "NewNode 0 (\<lambda>_. 0) () nodeID ''addr'' (map (\<lambda>p. \<lparr>pr_ID = p, pr_Address = p\<rparr>) peerIDs) [] = Inr n"
    by (simp add: NewNode_def provided_configs_valid NewElectionTimer_def default_timeouts Let_def)
  then show ?thesis using NewNode_ok by (fastforce simp: example_node_def)
qed

lemma example_follower_log:
  "nd_log example_follower =
     [\<lparr>le_Term = 1, le_Index = 1, le_Data = [], le_Type = EntryNoOp\<rparr>,
      \<lparr>le_Term = 1, le_Index = 2, le_Data = [7], le_Type = EntryNormal\<rparr>]"
  "nd_term example_follower = 1" "nd_commitIndex example_follower = 0"
  by (simp_all add: example_follower_def example_node_fields NewVolatileState_def)

lemma example_follower_ok: "node_ok example_follower"
  using example_node_ok [of "''n2''" "[''n1'', ''n3'']"]
  by (auto simp: example_follower_def node_ok_def wf_log_def slice_ok_def nth_Cons
      example_node_fields split: nat.splits)

lemma example_append_ok:
  "request_ok (example_append [])" "request_ok (example_append [example_entry])"
  "accepts (example_append es) example_follower"
  by (simp_all add: request_ok_def entries_at_def example_append_def example_entry_def accepts_def
      prev_matches_def example_follower_log)

theorem processAppendEntries_functional_witness:
  "ar_Success (snd (processAppendEntries (example_append [example_entry]) example_follower)) \<and>
   nd_log (fst (processAppendEntries (example_append [example_entry]) example_follower)) =
     [\<lparr>le_Term = 1, le_Index = 1, le_Data = [], le_Type = EntryNoOp\<rparr>,
      \<lparr>le_Term = 2, le_Index = 2, le_Data = [8], le_Type = EntryNormal\<rparr>]"
  using processAppendEntries_functional [OF example_follower_ok example_append_ok(2)]
    example_append_ok(3) [of "[example_entry]"]
  by (simp add: merged_log_def example_follower_log)
    (simp add: example_append_def ConvertFromProto_def entry_from_proto_def example_entry_def
      ConvertEntryTypeFromProto_def)

text \<open>When the previous entry's term disagrees, the conflict index a follower reports
  is the first index of the run of entries with the conflicting term that ends at
  \<open>prevLogIndex\<close>: every entry from it to \<open>prevLogIndex\<close> has that term and the
  one before it, if any, has not. The loop that finds it terminates.\<close>

theorem conflict_index_first_of_term:
  assumes "node_ok n" and "nd_term n \<le> ae_Term req" and "ae_PrevLogIndex req \<noteq> 0"
    and "unat (ae_PrevLogIndex req) \<le> length (nd_log n)"
    and "GetTermAtIndex (nd_serverState n) (ae_PrevLogIndex req) \<noteq> ae_PrevLogTerm req"
  shows "let r = snd (processAppendEntries req n) in
     \<not> ar_Success r \<and>
     ar_ConflictTerm r = GetTermAtIndex (nd_serverState n) (ae_PrevLogIndex req) \<and>
     0 < ar_ConflictIndex r \<and> ar_ConflictIndex r \<le> ae_PrevLogIndex req \<and>
     (\<forall>j. ar_ConflictIndex r \<le> j \<and> j \<le> ae_PrevLogIndex req \<longrightarrow>
        GetTermAtIndex (nd_serverState n) j = ar_ConflictTerm r) \<and>
     (ar_ConflictIndex r = 1 \<or>
        GetTermAtIndex (nd_serverState n) (ar_ConflictIndex r - 1) \<noteq> ar_ConflictTerm r)"
proof -
  let ?s = "nd_serverState n" and ?prev = "ae_PrevLogIndex req"
  let ?t = "GetTermAtIndex ?s ?prev"
  let ?c = "conflictSearch ?s ?t ?prev"
  have wf: "wf_log (nd_log n)" using assms(1) by (simp add: node_ok_def)
  have "\<not> accepts req n"
    using assms(3-5) server_log.term_at_inside [OF wf_log_slice_ok [OF wf] assms(3,4)]
    by (simp add: accepts_def prev_matches_def)
  then have r: "snd (processAppendEntries req n) = \<lparr>ar_Term = ae_Term req, ar_Success = False,
      ar_ConflictIndex = ?c + 1, ar_ConflictTerm = ?t\<rparr>"
    using assms(2,4) by (simp add: processAppendEntries_rejects [OF wf] rejection_def Let_def leD)
  obtain c where c: "c = ?c" by simp
  have spec: "\<forall>j. c < j \<and> j \<le> ?prev \<longrightarrow> GetTermAtIndex ?s j = ?t"
    "c = 0 \<or> GetTermAtIndex ?s c \<noteq> ?t" "c < ?prev"
    unfolding c using conflictSearch_spec [of ?s ?t ?prev] conflictSearch_less [OF assms(3) refl]
    by blast+
  have "c \<noteq> - 1" using spec(3) word_order.extremum_strict by metis
  then have suc: "unat (c + 1) = Suc (unat c)" by (intro unat_Suc_u64 unat_not_max_u64)
  then have le: "c + 1 \<le> j \<longleftrightarrow> c < j" for j
    by (simp add: word_le_nat_alt word_less_nat_alt Suc_le_eq)
  have pos: "0 < c + 1" using suc by (simp add: word_less_nat_alt)
  have last: "c + 1 = 1 \<or> GetTermAtIndex ?s (c + 1 - 1) \<noteq> ?t" using spec(2) by (elim disjE) simp_all
  show ?thesis unfolding Let_def r c [symmetric] AppendEntriesResponse.select_convs le
    by (intro conjI notI) (rule refl spec(1,3) pos last | assumption)+
qed

definition example_conflict :: AppendEntriesRequest where
  "example_conflict =
     \<lparr>ae_Term = 2, ae_LeaderId = ''n1'', ae_PrevLogIndex = 2, ae_PrevLogTerm = 2, ae_Entries = [],
      ae_LeaderCommit = 0\<rparr>"

theorem conflict_index_first_of_term_witness:
  "let r = snd (processAppendEntries example_conflict example_follower) in
     \<not> ar_Success r \<and> ar_ConflictTerm r = 1 \<and> ar_ConflictIndex r \<le> 2"
  using conflict_index_first_of_term [OF example_follower_ok, of example_conflict]
  by (simp add: example_conflict_def example_follower_log GetTermAtIndex_def go_len_def array_pos_def
      array_index_def Let_def)

text \<open>Delivering the same request twice is harmless: if it was accepted, a second
  delivery to the node with the same term finds it accepted again and leaves the log as it
  is.\<close>

theorem processAppendEntries_idempotent:
  assumes "node_ok n" and "request_ok req" and "accepts req n"
  shows "let n' = fst (processAppendEntries req n) in
     accepts req n' \<and> nd_log (fst (processAppendEntries req n')) = nd_log n' \<and>
     nd_term (fst (processAppendEntries req n')) = nd_term n'"
proof -
  have wf: "wf_log (nd_log n)" using assms(1) by (simp add: node_ok_def)
  let ?n = "fst (processAppendEntries req n)"
  have prev: "prev_matches req (nd_log n)" and newer: "nd_term n \<le> ae_Term req"
    using assms(3) by (auto simp: accepts_def)
  have log: "nd_log ?n = merged_log req (nd_log n)" "nd_term ?n = ae_Term req"
    using assms(3) newer processAppendEntries_fields [OF wf assms(2)] by (simp_all add: max_def)
  then have acc: "accepts req ?n" using merged_log_idem [OF prev] by (simp add: accepts_def)
  have wf': "wf_log (nd_log ?n)" using wf_merged_log [OF wf prev assms(2)] log by simp
  show ?thesis
    using acc log merged_log_idem [OF prev] processAppendEntries_fields [OF wf' assms(2)]
    by (simp add: Let_def)
qed

theorem processAppendEntries_idempotent_witness:
  "nd_log (fst (processAppendEntries (example_append [example_entry])
       (fst (processAppendEntries (example_append [example_entry]) example_follower))))
   = nd_log (fst (processAppendEntries (example_append [example_entry]) example_follower))"
  using processAppendEntries_idempotent [OF example_follower_ok example_append_ok(2,3)]
  by (simp add: Let_def)

text \<open>A heartbeat commits entries the leader never checked. The follower below holds
  an entry of term 1 at index 2; the heartbeat of the leader of term 2 vouches for index 1
  only, but its commit index is 2, and the handler takes the minimum with the end of the
  follower's own log: the old entry at index 2 becomes committed, although the leader's entry
  at index 2 has term 2.\<close>

theorem heartbeat_commits_unverified_entry:
  "let n' = fst (processAppendEntries (example_append []) example_follower) in
     isCommitted 2 n' \<and> GetTermAtIndex (nd_serverState n') 2 = 1"
proof -
  have wf: "wf_log (nd_log example_follower)" using example_follower_ok by (simp add: node_ok_def)
  show ?thesis
    unfolding processAppendEntries_accepts [OF wf example_append_ok(3,1)]
    by (simp add: Let_def isCommitted_def example_follower_log merged_log_def GetTermAtIndex_def)
      (simp add: example_append_def ConvertFromProto_def go_len_def array_pos_def array_index_def)
qed

end
