(* ===== verification/RaftElection.thy ===== *)
theory RaftElection
  imports RaftNode
begin

text \<open>
  Leader election, \<open>src/pkg/raft/election.go\<close>. \<open>startElection\<close> takes the node's
  lock several times; each locked section is a definition, in the order of the source: the
  section that becomes candidate and captures the term, the response section of
  \<open>sendRequestVote\<close>, the section that counts one granted vote, and the section that
  claims leadership. \<open>startElection\<close> composes them for a run no other handler
  interleaves with; the theory \<open>RaftCluster\<close> interleaves them.
\<close>

section \<open>Receiving a vote request\<close>

definition requestVote :: "RequestVoteRequest \<Rightarrow> 'sm Node \<Rightarrow> 'sm Node \<times> RequestVoteResponse" where
  "requestVote req n =
     (let currentTerm = nd_term n;
          resp = \<lparr>vr_Term = currentTerm, vr_VoteGranted = False\<rparr>
      in
        if rv_Term req < currentTerm then (n, resp)
        else
          let (n, currentTerm, resp) =
                (if rv_Term req > currentTerm
                 then (stepDown (rv_Term req) n, rv_Term req, resp\<lparr>vr_Term := rv_Term req\<rparr>)
                 else (n, currentTerm, resp));
              votedFor = nd_votedFor n
          in
            if votedFor \<noteq> '''' \<and> votedFor \<noteq> rv_CandidateId req then (n, resp)
            else
              let (lastLogIndex, lastLogTerm) = LastLogIndexAndTerm (nd_serverState n);
                  logIsUpToDate =
                    (if rv_LastLogTerm req > lastLogTerm then True
                     else if rv_LastLogTerm req = lastLogTerm \<and> rv_LastLogIndex req \<ge> lastLogIndex
                     then True
                     else False)
              in
                if \<not> logIsUpToDate then (n, resp)
                else
                  let n = n\<lparr>nd_serverState := SetVotedFor (rv_CandidateId req) (nd_serverState n)\<rparr>;
                      resp = resp\<lparr>vr_VoteGranted := True\<rparr>;
                      n = n\<lparr>nd_electionTimer := ElectionTimer_Reset (nd_electionTimer n)\<rparr>
                  in (n, resp))"


section \<open>Running an election\<close>

record election =
  el_term :: u64
  el_lastLogIndex :: u64
  el_lastLogTerm :: u64
  el_peers :: "Peer list"

definition startElection_begin :: "time \<Rightarrow> 'sm Node \<Rightarrow> 'sm Node \<times> election" where
  "startElection_begin now n =
     (let n = becomeCandidate now n;
          currentTerm = nd_term n;
          (lastLogIndex, lastLogTerm) = LastLogIndexAndTerm (nd_serverState n)
      in (n, \<lparr>el_term = currentTerm, el_lastLogIndex = lastLogIndex,
              el_lastLogTerm = lastLogTerm, el_peers = nd_peers n\<rparr>))"

definition sendRequestVote_request :: "'sm Node \<Rightarrow> election \<Rightarrow> RequestVoteRequest" where
  "sendRequestVote_request n e =
     \<lparr>rv_Term = el_term e, rv_CandidateId = nd_id n, rv_LastLogIndex = el_lastLogIndex e,
      rv_LastLogTerm = el_lastLogTerm e\<rparr>"

definition sendRequestVote_response ::
  "u64 \<Rightarrow> RequestVoteResponse \<Rightarrow> 'sm Node \<Rightarrow> 'sm Node \<times> bool" where
  "sendRequestVote_response term resp n =
     (if vr_Term resp > nd_term n then (stepDown (vr_Term resp) n, False)
      else if vr_Term resp < term then (n, False)
      else (n, vr_VoteGranted resp))"

text \<open>
  \<open>sendRequestVote\<close> with the outcome of the RPC: \<open>None\<close> when there is no
  client for the peer or the call fails.
\<close>

definition sendRequestVote ::
  "u64 \<Rightarrow> RequestVoteResponse option \<Rightarrow> 'sm Node \<Rightarrow> 'sm Node \<times> bool" where
  "sendRequestVote term outcome n =
     (case outcome of None \<Rightarrow> (n, False) | Some resp \<Rightarrow> sendRequestVote_response term resp n)"

definition votesNeeded :: "Peer list \<Rightarrow> int" where
  "votesNeeded peers = (int (length peers) + 1 + 1) div 2"

text \<open>Counting one granted vote: the new node and whether the election is won.\<close>

definition countVote :: "u64 \<Rightarrow> int \<Rightarrow> 'sm Node \<Rightarrow> 'sm Node \<times> bool" where
  "countVote currentTerm needed n =
     (let n = n\<lparr>nd_electionState := fst (AddVote '''' (nd_electionState n))\<rparr>;
          votesReceived = es_VoteCount (nd_electionState n);
          currentState = nd_state n;
          electionTerm = nd_term n
      in (n, votesReceived \<ge> needed \<and> currentState = Candidate \<and> electionTerm = currentTerm))"

definition claimLeadership :: "u64 \<Rightarrow> 'sm Node \<Rightarrow> 'sm Node" where
  "claimLeadership currentTerm n =
     (if nd_state n = Candidate \<and> nd_term n = currentTerm then becomeLeader n else n)"

text \<open>The loop over the votes received on the channel.\<close>

fun countVotes :: "u64 \<Rightarrow> int \<Rightarrow> bool list \<Rightarrow> 'sm Node \<Rightarrow> 'sm Node" where
  "countVotes currentTerm needed [] n = n"
| "countVotes currentTerm needed (vote # votes) n =
     (if vote then
        let (n, won) = countVote currentTerm needed n
        in if won then claimLeadership currentTerm n else countVotes currentTerm needed votes n
      else countVotes currentTerm needed votes n)"

text \<open>
  A whole election in which the calls to the peers end with the given outcomes, in the
  order in which their results reach the channel.
\<close>

fun collectVotes ::
  "u64 \<Rightarrow> RequestVoteResponse option list \<Rightarrow> 'sm Node \<Rightarrow> 'sm Node \<times> bool list" where
  "collectVotes term [] n = (n, [])"
| "collectVotes term (r # rs) n =
     (let (n, granted) = sendRequestVote term r n; (n, votes) = collectVotes term rs n
      in (n, granted # votes))"

definition startElection :: "time \<Rightarrow> RequestVoteResponse option list \<Rightarrow> 'sm Node \<Rightarrow> 'sm Node" where
  "startElection now outcomes n =
     (let (n, e) = startElection_begin now n;
          (n, votes) = collectVotes (el_term e) outcomes n
      in countVotes (el_term e) (votesNeeded (el_peers e)) votes n)"

definition handleElectionTimeout ::
  "time \<Rightarrow> RequestVoteResponse option list \<Rightarrow> 'sm Node \<Rightarrow> 'sm Node" where
  "handleElectionTimeout now outcomes n =
     (case nd_state n of
        Follower \<Rightarrow> startElection now outcomes n
      | Candidate \<Rightarrow> startElection now outcomes n
      | Leader \<Rightarrow> n)"

definition calculateQuorum :: "'sm Node \<Rightarrow> int" where
  "calculateQuorum n =
     (let peers = nd_peers n; clusterSize = int (length peers) + 1 in clusterSize div 2 + 1)"

definition hasQuorum :: "int \<Rightarrow> 'sm Node \<Rightarrow> bool" where
  "hasQuorum voteCount n \<longleftrightarrow> voteCount \<ge> calculateQuorum n"


section \<open>The vote handler\<close>

text \<open>The candidate's log is at least as up to date: compare last terms, then last indices.\<close>

definition up_to_date :: "u64 \<times> u64 \<Rightarrow> u64 \<times> u64 \<Rightarrow> bool" where
  "up_to_date candidate own \<longleftrightarrow>
     snd own < snd candidate \<or> snd own = snd candidate \<and> fst own \<le> fst candidate"

definition vote_free :: "RequestVoteRequest \<Rightarrow> 'sm Node \<Rightarrow> bool" where
  "vote_free req n \<longleftrightarrow>
     nd_term n < rv_Term req \<or>
     nd_term n = rv_Term req \<and> (nd_votedFor n = '''' \<or> nd_votedFor n = rv_CandidateId req)"

definition grants :: "RequestVoteRequest \<Rightarrow> 'sm Node \<Rightarrow> bool" where
  "grants req n \<longleftrightarrow>
     vote_free req n \<and>
     up_to_date (rv_LastLogIndex req, rv_LastLogTerm req) (LastLogIndexAndTerm (nd_serverState n))"

lemma LastLogIndexAndTerm_log:
  "ss_Log s = ss_Log s' \<Longrightarrow> LastLogIndexAndTerm s = LastLogIndexAndTerm s'"
  by (simp add: LastLogIndexAndTerm_def)

lemma LastLog_stepDown [simp]:
  "LastLogIndexAndTerm (nd_serverState (stepDown t n)) = LastLogIndexAndTerm (nd_serverState n)"
  by (rule LastLogIndexAndTerm_log) simp

text \<open>The whole effect of the handler, on every branch.\<close>

lemma requestVote_eq:
  "requestVote req n =
     (let m = (if rv_Term req > nd_term n then stepDown (rv_Term req) n else n) in
      if grants req n
      then (m\<lparr>nd_serverState := SetVotedFor (rv_CandidateId req) (nd_serverState m),
              nd_electionTimer := ElectionTimer_Reset (nd_electionTimer m)\<rparr>,
            \<lparr>vr_Term = rv_Term req, vr_VoteGranted = True\<rparr>)
      else (m, \<lparr>vr_Term = nd_term m, vr_VoteGranted = False\<rparr>))"
proof -
  consider (older) "rv_Term req < nd_term n" | (same) "rv_Term req = nd_term n"
    | (newer) "nd_term n < rv_Term req" by (metis linorder_cases)
  then show ?thesis
    by cases
      (auto simp: requestVote_def grants_def vote_free_def up_to_date_def Let_def case_prod_unfold
        max_def)
qed

lemma requestVote_granted [simp]: "vr_VoteGranted (snd (requestVote req n)) = grants req n"
  by (simp add: requestVote_eq Let_def)

lemma requestVote_term: "nd_term (fst (requestVote req n)) = max (nd_term n) (rv_Term req)"
  by (auto simp: requestVote_eq Let_def max_def)

lemma requestVote_resp_term:
  "vr_Term (snd (requestVote req n)) = max (nd_term n) (rv_Term req)"
  by (auto simp: requestVote_eq Let_def grants_def vote_free_def max_def)

lemma requestVote_votedFor:
  "nd_votedFor (fst (requestVote req n)) =
     (if grants req n then rv_CandidateId req
      else if nd_term n < rv_Term req then '''' else nd_votedFor n)"
  by (auto simp: requestVote_eq Let_def)

lemma requestVote_frame [frame_simps]:
  "nd_id (fst (requestVote req n)) = nd_id n"
  "nd_cluster (fst (requestVote req n)) = nd_cluster n"
  "nd_config (fst (requestVote req n)) = nd_config n"
  "nd_log (fst (requestVote req n)) = nd_log n"
  "nd_volatileState (fst (requestVote req n)) = nd_volatileState n"
  "nd_electionState (fst (requestVote req n)) = nd_electionState n"
  "nd_state (fst (requestVote req n)) = (if nd_term n < rv_Term req then Follower else nd_state n)"
  by (auto simp: requestVote_eq Let_def)

lemma requestVote_ok [wf_intros]:
  assumes "node_ok n"
  shows "node_ok (fst (requestVote req n))"
proof (cases "nd_term n < rv_Term req")
  case True
  then show ?thesis using stepDown_ok [OF assms, of "rv_Term req"]
    by (auto simp: requestVote_eq Let_def node_ok_def ElectionTimer_Reset_ok)
next
  case False
  then show ?thesis using assms
    by (auto simp: requestVote_eq Let_def node_ok_def ElectionTimer_Reset_ok grants_def
        vote_free_def)
qed


section \<open>A vote is given once per term\<close>

fun serveVotes ::
  "RequestVoteRequest list \<Rightarrow> 'sm Node \<Rightarrow> 'sm Node \<times> (RequestVoteRequest \<times> RequestVoteResponse) list"
where
  "serveVotes [] n = (n, [])"
| "serveVotes (req # reqs) n =
     (let (n, resp) = requestVote req n; (n, resps) = serveVotes reqs n
      in (n, (req, resp) # resps))"

lemma serveVotes_Cons:
  "serveVotes (req # reqs) n =
     (fst (serveVotes reqs (fst (requestVote req n))),
      (req, snd (requestVote req n)) # snd (serveVotes reqs (fst (requestVote req n))))"
  by (simp add: Let_def case_prod_unfold)

text \<open>
  \<open>voted_by t c n\<close>: node \<open>n\<close> has voted for \<open>c\<close> in term
  \<open>t\<close>, or is past that term. Every request keeps it, and under it a request of
  term \<open>t\<close> is granted to \<open>c\<close> only.
\<close>

definition voted_by :: "u64 \<Rightarrow> string \<Rightarrow> 'sm Node \<Rightarrow> bool" where
  "voted_by t c n \<longleftrightarrow> t < nd_term n \<or> t = nd_term n \<and> nd_votedFor n = c"

lemma voted_by_grants:
  "voted_by (rv_Term req) c n \<Longrightarrow> c \<noteq> '''' \<Longrightarrow> grants req n \<Longrightarrow> rv_CandidateId req = c"
  unfolding voted_by_def grants_def vote_free_def by (elim disjE conjE) simp_all

lemma voted_by_requestVote:
  assumes "voted_by t c n" and "c \<noteq> ''''"
  shows "voted_by t c (fst (requestVote req n))"
proof (cases "t < nd_term n \<or> t < rv_Term req")
  case True
  then show ?thesis by (auto simp: voted_by_def requestVote_term max_def)
next
  case False
  with assms have "t = nd_term n" "nd_votedFor n = c" "rv_Term req \<le> nd_term n"
    by (auto simp: voted_by_def)
  with assms(2) show ?thesis
    by (auto simp: voted_by_def requestVote_term requestVote_votedFor grants_def vote_free_def
        max_def)
qed

lemma voted_by_granted:
  "grants req n \<Longrightarrow> voted_by (rv_Term req) (rv_CandidateId req) (fst (requestVote req n))"
  by (auto simp: voted_by_def requestVote_term requestVote_votedFor grants_def vote_free_def max_def)

lemma serveVotes_respects_vote:
  assumes "voted_by t c n" and "c \<noteq> ''''"
    and "(req, resp) \<in> set (snd (serveVotes reqs n))" and "vr_VoteGranted resp" and "rv_Term req = t"
  shows "rv_CandidateId req = c"
  using assms
proof (induction reqs arbitrary: n)
  case Nil
  then show ?case by simp
next
  case (Cons r reqs)
  from Cons.prems(3) have "(req, resp) = (r, snd (requestVote r n))
      \<or> (req, resp) \<in> set (snd (serveVotes reqs (fst (requestVote r n))))"
    unfolding serveVotes_Cons by simp
  then show ?case
  proof
    assume "(req, resp) = (r, snd (requestVote r n))"
    then show ?thesis using Cons.prems voted_by_grants [of r c n] by simp
  next
    assume "(req, resp) \<in> set (snd (serveVotes reqs (fst (requestVote r n))))"
    then show ?thesis
      using Cons.IH [OF voted_by_requestVote [OF Cons.prems(1,2)]] Cons.prems by blast
  qed
qed

lemma serveVotes_once:
  assumes "(req1, resp1) \<in> set (snd (serveVotes reqs n))" "vr_VoteGranted resp1"
    and "(req2, resp2) \<in> set (snd (serveVotes reqs n))" "vr_VoteGranted resp2"
    and "rv_Term req1 = rv_Term req2" "rv_CandidateId req1 \<noteq> ''''" "rv_CandidateId req2 \<noteq> ''''"
  shows "rv_CandidateId req1 = rv_CandidateId req2"
  using assms
proof (induction reqs arbitrary: n)
  case Nil
  then show ?case by simp
next
  case (Cons r reqs)
  let ?n' = "fst (requestVote r n)"
  have split: "(q, p) \<in> set (snd (serveVotes (r # reqs) n)) \<Longrightarrow>
      (q, p) = (r, snd (requestVote r n)) \<or> (q, p) \<in> set (snd (serveVotes reqs ?n'))" for q p
    unfolding serveVotes_Cons by simp
  have now_later: "rv_CandidateId q = rv_CandidateId r"
    if "grants r n" "(q, p) \<in> set (snd (serveVotes reqs ?n'))" "vr_VoteGranted p"
      "rv_Term q = rv_Term r" "rv_CandidateId r \<noteq> ''''" for q p
    using serveVotes_respects_vote [OF voted_by_granted [OF that(1)] that(5,2,3,4)] .
  from split [OF Cons.prems(1)] split [OF Cons.prems(3)] show ?case
    using Cons.IH Cons.prems(2,4-7) now_later by (elim disjE) fastforce+
qed

section \<open>Counting votes\<close>

text \<open>
  Granted votes are recorded under the empty identifier, so the second one no longer counts:
  the count never passes the candidate's own vote plus one.
\<close>

lemma countVote_fields:
  "nd_state (fst (countVote t needed n)) = nd_state n"
  "nd_term (fst (countVote t needed n)) = nd_term n"
  "nd_electionState (fst (countVote t needed n)) = fst (AddVote '''' (nd_electionState n))"
  by (simp_all add: countVote_def Let_def)

lemma countVotes_stuck:
  assumes "es_VoteCount (fst (AddVote '''' (nd_electionState n))) < needed"
  shows "nd_state (countVotes t needed votes n) = nd_state n"
  using assms
proof (induction votes arbitrary: n)
  case Nil
  then show ?case by simp
next
  case (Cons vote votes)
  let ?m = "fst (countVote t needed n)"
  have lost: "\<not> snd (countVote t needed n)" using Cons.prems by (simp add: countVote_def Let_def)
  have "es_VoteCount (fst (AddVote '''' (nd_electionState ?m))) < needed"
    using Cons.prems by (simp add: countVote_fields) (simp add: AddVote_def)
  then have "nd_state (countVotes t needed votes ?m) = nd_state n"
    using Cons.IH [of ?m] by (simp add: countVote_fields)
  then show ?case using lost Cons by (simp add: case_prod_unfold)
qed

lemma countVotes_wins:
  assumes "nd_state n = Candidate" and "nd_term n = t"
    and "needed \<le> es_VoteCount (fst (AddVote '''' (nd_electionState n)))"
  shows "nd_state (countVotes t needed votes n) = (if True \<in> set votes then Leader else Candidate)"
  using assms
proof (induction votes)
  case Nil
  then show ?case by simp
next
  case (Cons vote votes)
  have "snd (countVote t needed n)" using Cons.prems by (simp add: countVote_def Let_def)
  then show ?case using Cons
    by (auto simp: case_prod_unfold claimLeadership_def countVote_fields)
qed

text \<open>Whether the outcome of a call counts as a granted vote of the given term.\<close>

definition vote_of :: "u64 \<Rightarrow> RequestVoteResponse option \<Rightarrow> bool" where
  "vote_of t outcome =
     (case outcome of None \<Rightarrow> False | Some resp \<Rightarrow> vr_Term resp = t \<and> vr_VoteGranted resp)"

lemma collectVotes_no_higher_term:
  assumes "\<forall>resp. Some resp \<in> set outcomes \<longrightarrow> vr_Term resp \<le> nd_term n"
  shows "collectVotes (nd_term n) outcomes n = (n, map (vote_of (nd_term n)) outcomes)"
  using assms
proof (induction outcomes)
  case Nil
  then show ?case by simp
next
  case (Cons r rs)
  then have "sendRequestVote (nd_term n) r n = (n, vote_of (nd_term n) r)"
    by (cases r) (auto simp: sendRequestVote_def sendRequestVote_response_def vote_of_def)
  with Cons show ?case by (simp add: Let_def)
qed

lemma votesNeeded_two: "votesNeeded peers \<le> 2 \<longleftrightarrow> length peers \<le> 3"
  unfolding votesNeeded_def by linarith

lemma startElection_begin_eq:
  "startElection_begin now n =
     (becomeCandidate now n,
      \<lparr>el_term = nd_term n + 1, el_lastLogIndex = fst (LastLogIndexAndTerm (nd_serverState n)),
       el_lastLogTerm = snd (LastLogIndexAndTerm (nd_serverState n)), el_peers = nd_peers n\<rparr>)"
proof -
  have "LastLogIndexAndTerm (nd_serverState (becomeCandidate now n))
      = LastLogIndexAndTerm (nd_serverState n)"
    by (rule LastLogIndexAndTerm_log) simp
  then show ?thesis by (simp add: startElection_begin_def Let_def case_prod_unfold)
qed

lemma startElection_outcome:
  assumes "nd_id n \<noteq> ''''"
    and "\<forall>resp. Some resp \<in> set outcomes \<longrightarrow> vr_Term resp \<le> nd_term n + 1"
  shows "nd_state (startElection now outcomes n) =
     (if length (nd_peers n) \<le> 3 \<and> (\<exists>r \<in> set outcomes. vote_of (nd_term n + 1) r)
      then Leader else Candidate)"
proof -
  let ?c = "becomeCandidate now n" and ?t = "nd_term n + 1"
  let ?votes = "map (vote_of ?t) outcomes" and ?needed = "votesNeeded (nd_peers n)"
  have run: "startElection now outcomes n = countVotes ?t ?needed ?votes ?c"
    using collectVotes_no_higher_term [of outcomes ?c] assms(2)
    by (simp add: startElection_def startElection_begin_eq)
  have count: "es_VoteCount (fst (AddVote '''' (nd_electionState ?c))) = 2"
    using assms(1) by (simp add: becomeCandidate_electionState AddVote_def ElectionState_Reset_def)
  show ?thesis
  proof (cases "length (nd_peers n) \<le> 3")
    case True
    then have "?needed \<le> 2" by (simp add: votesNeeded_two)
    then have "nd_state (countVotes ?t ?needed ?votes ?c)
        = (if True \<in> set ?votes then Leader else Candidate)"
      using count by (intro countVotes_wins) auto
    with True run show ?thesis by auto
  next
    case False
    then have "2 < ?needed" using votesNeeded_two [of "nd_peers n"] by linarith
    then have "nd_state (countVotes ?t ?needed ?votes ?c) = nd_state ?c"
      using count by (intro countVotes_stuck) auto
    with False run show ?thesis by simp
  qed
qed


section \<open>Properties\<close>

text \<open>C3: \<open>requestVote\<close> grants a vote exactly when the request is not of an older
  term, the node has not voted for another candidate in the request's term, and the
  candidate's last log entry is at least as up to date; it then records the vote, and in
  every case the node's term becomes the larger of the two and the response carries it.\<close>

theorem requestVote_functional:
  "let (n', resp) = requestVote req n in
     vr_VoteGranted resp = grants req n \<and>
     vr_Term resp = max (nd_term n) (rv_Term req) \<and> nd_term n' = max (nd_term n) (rv_Term req) \<and>
     nd_votedFor n' = (if grants req n then rv_CandidateId req
                       else if nd_term n < rv_Term req then '''' else nd_votedFor n) \<and>
     nd_log n' = nd_log n \<and>
     nd_state n' = (if nd_term n < rv_Term req then Follower else nd_state n)"
  using requestVote_granted [of req n] requestVote_resp_term [of req n] requestVote_term [of req n]
    requestVote_votedFor [of req n] requestVote_frame [of req n]
  by (simp add: case_prod_unfold)


definition example_vote :: "string \<Rightarrow> RequestVoteRequest" where
  "example_vote c = \<lparr>rv_Term = 1, rv_CandidateId = c, rv_LastLogIndex = 0, rv_LastLogTerm = 0\<rparr>"

lemma example_grants: "grants (example_vote c) (example_node ''n1'' [''n2'', ''n3''])"
  by (simp add: grants_def vote_free_def up_to_date_def example_vote_def example_node_fields
      NewServerState_def LastLogIndexAndTerm_def)


text \<open>C10: The outcome of an election no other handler interferes with: the node becomes
  leader exactly when it has at most three peers and some peer granted its vote in the new
  term. With four or more peers no set of votes, not even all of them, elects a leader (the
  loop records every granted vote under the empty identifier), and with no peers at all the
  loop never runs.\<close>

theorem startElection_leader_iff:
  assumes "nd_id n \<noteq> ''''"
    and "\<forall>resp. Some resp \<in> set outcomes \<longrightarrow> vr_Term resp \<le> nd_term n + 1"
  shows "nd_state (startElection now outcomes n) = Leader \<longleftrightarrow>
     length (nd_peers n) \<le> 3 \<and> (\<exists>r \<in> set outcomes. vote_of (nd_term n + 1) r)"
  using startElection_outcome [OF assms] by simp

definition example_grant :: "RequestVoteResponse option" where
  "example_grant = Some \<lparr>vr_Term = 1, vr_VoteGranted = True\<rparr>"

theorem startElection_leader_iff_witness:
  "nd_state (startElection 0 [example_grant, None] (example_node ''n1'' [''n2'', ''n3''])) = Leader \<and>
   nd_state (startElection 0 [example_grant, example_grant, example_grant, example_grant]
     (example_node ''n1'' [''n2'', ''n3'', ''n4'', ''n5''])) \<noteq> Leader"
  using startElection_leader_iff [of "example_node ''n1'' [''n2'', ''n3'']" "[example_grant, None]" 0]
    startElection_leader_iff [of "example_node ''n1'' [''n2'', ''n3'', ''n4'', ''n5'']"
      "[example_grant, example_grant, example_grant, example_grant]" 0]
  by (simp add: example_node_fields NewServerState_def example_grant_def vote_of_def)

text \<open>The number of votes \<open>startElection\<close> asks for is the quorum
  \<open>calculateQuorum\<close> computes in a cluster of odd size, and one less than that, half
  the cluster, in a cluster of even size.\<close>

theorem votesNeeded_vs_quorum:
  "votesNeeded (nd_peers n) =
     (if even (length (nd_peers n) + 1) then calculateQuorum n - 1 else calculateQuorum n)"
  unfolding votesNeeded_def calculateQuorum_def Let_def by presburger

text \<open>A candidate whose election times out starts the next election in the next term,
  but its election timer is not armed again: the state does not change, so
  \<open>setState\<close> does not reset the one-shot timer that has just fired. A follower's
  timeout does re-arm it.\<close>

theorem candidate_timer_not_rearmed:
  assumes "\<not> et_stopped (nd_electionTimer n)"
    and "nd_electionTimer n = ElectionTimer_fire timer" and "nd_state n \<noteq> Leader"
  shows "et_timer (nd_electionTimer (fst (startElection_begin now n))) = None \<longleftrightarrow>
     nd_state n = Candidate"
proof -
  have "et_timer (nd_electionTimer n) = None"
    using assms(2) by (simp add: ElectionTimer_fire_def split: option.splits)
  then show ?thesis
    using assms(1,3) ElectionTimer_Reset_arms [of "nd_electionTimer n"]
    by (cases "nd_state n") (auto simp: startElection_begin_eq setState_electionTimer)
qed

definition example_timer :: ElectionTimer where
  "example_timer =
     ElectionTimer_Start \<lparr>et_minTime = 150, et_maxTime = 300, et_timer = None, et_c = False,
       et_running = False, et_stopped = False, et_rand = (\<lambda>_. 7), et_draws = 0\<rparr>"

theorem candidate_timer_not_rearmed_witness:
  "et_timer (nd_electionTimer (fst (startElection_begin 0
     ((example_node ''n1'' [''n2''])\<lparr>nd_state := Candidate,
        nd_electionTimer := ElectionTimer_fire example_timer\<rparr>)))) = None"
  using candidate_timer_not_rearmed [of "(example_node ''n1'' [''n2''])\<lparr>nd_state := Candidate,
      nd_electionTimer := ElectionTimer_fire example_timer\<rparr>" example_timer 0]
  by (simp add: ElectionTimer_fire_def example_timer_def ElectionTimer_Start_def Let_def
      randomTimeout_def)

end
