(* ===== verification/RaftReplication.thy ===== *)
theory RaftReplication
  imports RaftAppend RaftElection
begin

text \<open>
  The leader's replication loop and the client entry points of a node:
  \<open>src/pkg/raft/replication.go\<close>, the reads of \<open>read.go\<close> and
  \<open>lease.go\<close>, and the handlers of \<open>rpc_handlers.go\<close>. A remote call is a
  parameter \<open>call\<close> that maps the state of the world outside the node and the
  request to the outcome (\<open>None\<close> when no client is found or the call fails) and the
  new world; instantiated with a follower's handler it gives the two-node exchange whose
  convergence is proved below. A loop that polls on a ticker is given the list of nodes its
  ticks observe.
\<close>

section \<open>Sending entries to one peer\<close>

definition sendAppendEntries ::
  "('w \<Rightarrow> AppendEntriesRequest \<Rightarrow> AppendEntriesResponse option \<times> 'w) \<Rightarrow> Peer \<Rightarrow> 'sm Node \<Rightarrow> 'w
     \<Rightarrow> go_panic + ('sm Node \<times> 'w \<times> bool)" where
  "sendAppendEntries call peer n w =
     (case buildAppendEntriesRequest (pr_ID peer) n of
        Inl p \<Rightarrow> Inl p
      | Inr req \<Rightarrow>
          (case call w req of
             (None, w) \<Rightarrow> Inr (n, w, False)
           | (Some resp, w) \<Rightarrow>
               let (n, success) = handleAppendEntriesResponse peer req resp n in Inr (n, w, success)))"

fun replicateToPeer_loop ::
  "('w \<Rightarrow> AppendEntriesRequest \<Rightarrow> AppendEntriesResponse option \<times> 'w) \<Rightarrow> Peer \<Rightarrow> nat \<Rightarrow> 'sm Node \<Rightarrow> 'w
     \<Rightarrow> go_panic + ('sm Node \<times> 'w)" where
  "replicateToPeer_loop call peer 0 n w = Inr (n, w)"
| "replicateToPeer_loop call peer (Suc attempts) n w =
     (if nd_state n \<noteq> Leader then Inr (n, w)
      else
        let nextIndex = nextIndex_of (pr_ID peer) n;
            (lastLogIndex, _) = LastLogIndexAndTerm (nd_serverState n);
            hasEntriesToSend = (nextIndex \<le> lastLogIndex)
        in
          case sendAppendEntries call peer n w of
            Inl p \<Rightarrow> Inl p
          | Inr (n, w, success) \<Rightarrow>
              if success then
                if hasEntriesToSend \<and> nextIndex_of (pr_ID peer) n \<le> lastLogIndex
                then replicateToPeer_loop call peer attempts n w
                else Inr (n, w)
              else replicateToPeer_loop call peer attempts n w)"

definition replicateToPeer ::
  "('w \<Rightarrow> AppendEntriesRequest \<Rightarrow> AppendEntriesResponse option \<times> 'w) \<Rightarrow> Peer \<Rightarrow> 'sm Node \<Rightarrow> 'w
     \<Rightarrow> go_panic + ('sm Node \<times> 'w)" where
  "replicateToPeer call peer n w =
     (let maxRetries = cf_MaxAppendEntriesRetries (nd_config n)
      in replicateToPeer_loop call peer (nat maxRetries) n w)"

text \<open>The peers \<open>replicateToAll\<close> starts a goroutine for.\<close>

definition replicateToAll_peers :: "'sm Node \<Rightarrow> Peer list" where
  "replicateToAll_peers n = (if nd_state n \<noteq> Leader then [] else nd_peers n)"

definition Replicate :: "'sm Node \<Rightarrow> 'sm Node" where
  "Replicate n = (if nd_state n \<noteq> Leader then n else go_spawn GoReplicateToAll n)"


section \<open>Appending to the leader's log\<close>

definition AppendLogEntry :: "bytes \<Rightarrow> EntryType \<Rightarrow> 'sm Node \<Rightarrow> 'sm Node \<times> u64 \<times> bool" where
  "AppendLogEntry data entryType n =
     (if nd_state n \<noteq> Leader then (n, 0, False)
      else
        let currentTerm = nd_term n;
            (lastLogIndex, _) = LastLogIndexAndTerm (nd_serverState n);
            newIndex = lastLogIndex + 1;
            entry = \<lparr>le_Term = currentTerm, le_Index = newIndex, le_Data = data, le_Type = entryType\<rparr>;
            n = n\<lparr>nd_serverState := AppendEntry entry (nd_serverState n)\<rparr>
        in (go_spawn GoReplicateToAll n, newIndex, True))"

definition appendNoOpEntry :: "'sm Node \<Rightarrow> 'sm Node" where
  "appendNoOpEntry n =
     (if nd_state n \<noteq> Leader then n
      else
        let currentTerm = nd_term n;
            (lastLogIndex, _) = LastLogIndexAndTerm (nd_serverState n);
            newIndex = lastLogIndex + 1;
            entry = \<lparr>le_Term = currentTerm, le_Index = newIndex, le_Data = [], le_Type = EntryNoOp\<rparr>;
            n = n\<lparr>nd_serverState := AppendEntry entry (nd_serverState n)\<rparr>
        in go_spawn GoReplicateToAll n)"

fun replicationStatus_loop :: "LeaderState \<Rightarrow> Peer list \<Rightarrow> (string \<rightharpoonup> u64) \<Rightarrow> (string \<rightharpoonup> u64)" where
  "replicationStatus_loop ls [] status = status"
| "replicationStatus_loop ls (peer # peers) status =
     replicationStatus_loop ls peers (status(pr_ID peer \<mapsto> GetMatchIndex ls (pr_ID peer)))"

definition GetReplicationStatus :: "'sm Node \<Rightarrow> (string \<rightharpoonup> u64) option" where
  "GetReplicationStatus n =
     (case nd_leaderState n of
        None \<Rightarrow> None
      | Some ls \<Rightarrow>
          if nd_state n \<noteq> Leader then None
          else Some (replicationStatus_loop ls (nd_peers n) Map.empty))"

definition Node_GetNextIndex :: "string \<Rightarrow> 'sm Node \<Rightarrow> u64" where
  "Node_GetNextIndex peerID n =
     (case nd_leaderState n of None \<Rightarrow> 0 | Some ls \<Rightarrow> GetNextIndex ls peerID)"

definition Node_GetMatchIndex :: "string \<Rightarrow> 'sm Node \<Rightarrow> u64" where
  "Node_GetMatchIndex peerID n =
     (case nd_leaderState n of None \<Rightarrow> 0 | Some ls \<Rightarrow> GetMatchIndex ls peerID)"


section \<open>Reads\<close>

text \<open>
  \<open>PerformLinearizableRead\<close>: the node at the call, the node after the sleep of
  \<open>confirmLeadership\<close>, and for every tick before the timeout the node the tick
  observes and the node \<open>readFunc\<close> then runs on (outside the lock).
\<close>

definition confirmLeadership :: "'sm Node \<Rightarrow> bool" where
  "confirmLeadership afterSleep \<longleftrightarrow> nd_state afterSleep = Leader"

fun read_loop :: "('sm Node \<Rightarrow> 'r) \<Rightarrow> u64 \<Rightarrow> ('sm Node \<times> 'sm Node) list \<Rightarrow> 'r option" where
  "read_loop readFunc readIndex [] = None"
| "read_loop readFunc readIndex ((n, n') # ticks) =
     (if nd_state n \<noteq> Leader then None
      else if nd_lastApplied n \<ge> readIndex then Some (readFunc n')
      else read_loop readFunc readIndex ticks)"

definition PerformLinearizableRead ::
  "('sm Node \<Rightarrow> 'r) \<Rightarrow> 'sm Node \<Rightarrow> 'sm Node \<Rightarrow> ('sm Node \<times> 'sm Node) list \<Rightarrow> 'r option" where
  "PerformLinearizableRead readFunc n afterSleep ticks =
     (if nd_state n \<noteq> Leader then None
      else
        let readIndex = nd_commitIndex n in
        if \<not> confirmLeadership afterSleep then None
        else read_loop readFunc readIndex ticks)"

text \<open>
  \<open>PerformLeaseRead\<close>: the node at the call, the node when the indices are read, the
  node \<open>readFunc\<close> runs on when nothing has to be waited for, and the ticks with
  their times; \<open>fallback\<close> is the outcome of \<open>PerformLinearizableRead\<close>.
\<close>

fun lease_read_loop ::
  "('sm Node \<Rightarrow> 'r) \<Rightarrow> u64 \<Rightarrow> (time \<times> 'sm Node \<times> 'sm Node) list \<Rightarrow> 'r option" where
  "lease_read_loop readFunc commitIndex [] = None"
| "lease_read_loop readFunc commitIndex ((now, n, n') # ticks) =
     (let hasLease = (case nd_leaseManager n of None \<Rightarrow> False | Some lm \<Rightarrow> HasValidLease now lm) in
      if nd_state n \<noteq> Leader \<or> \<not> hasLease then None
      else if nd_lastApplied n \<ge> commitIndex then Some (readFunc n')
      else lease_read_loop readFunc commitIndex ticks)"

definition PerformLeaseRead ::
  "('sm Node \<Rightarrow> 'r) \<Rightarrow> 'r option \<Rightarrow> time \<Rightarrow> 'sm Node \<Rightarrow> 'sm Node \<Rightarrow> 'sm Node
     \<Rightarrow> (time \<times> 'sm Node \<times> 'sm Node) list \<Rightarrow> 'r option" where
  "PerformLeaseRead readFunc fallback now n n1 n2 ticks =
     (if nd_state n \<noteq> Leader then None
      else
        let hasLease = (case nd_leaseManager n of None \<Rightarrow> False | Some lm \<Rightarrow> HasValidLease now lm) in
        if \<not> hasLease then fallback
        else
          let commitIndex = nd_commitIndex n1; lastApplied = nd_lastApplied n1 in
          if lastApplied < commitIndex then lease_read_loop readFunc commitIndex ticks
          else Some (readFunc n2))"

definition UpdateLeaseOnHeartbeat :: "time \<Rightarrow> int \<Rightarrow> int \<Rightarrow> 'sm Node \<Rightarrow> 'sm Node" where
  "UpdateLeaseOnHeartbeat now successCount totalPeers n =
     (if nd_state n \<noteq> Leader then n
      else
        let quorum = go_div totalPeers 2 + 1 in
        if successCount \<ge> quorum
        then n\<lparr>nd_leaseManager := map_option (ExtendLease now) (nd_leaseManager n)\<rparr>
        else n)"

definition RevokeLeaseOnStepDown :: "'sm Node \<Rightarrow> 'sm Node" where
  "RevokeLeaseOnStepDown n = n\<lparr>nd_leaseManager := map_option RevokeLease (nd_leaseManager n)\<rparr>"


section \<open>RPC handlers\<close>

text \<open>A nil request is \<open>None\<close>.\<close>

definition HandleRequestVote ::
  "RequestVoteRequest option \<Rightarrow> 'sm Node \<Rightarrow> go_panic + ('sm Node \<times> RequestVoteResponse)" where
  "HandleRequestVote req n =
     (case req of
        None \<Rightarrow> Inl NilDereference
      | Some req \<Rightarrow> Inr (requestVote req n))"

definition HandleAppendEntries ::
  "AppendEntriesRequest option \<Rightarrow> 'sm Node \<Rightarrow> 'sm Node \<times> AppendEntriesResponse" where
  "HandleAppendEntries req n =
     (case req of
        None \<Rightarrow> (n, \<lparr>ar_Term = nd_term n, ar_Success = False, ar_ConflictIndex = 0, ar_ConflictTerm = 0\<rparr>)
      | Some req \<Rightarrow> processAppendEntries req n)"

definition HandleInstallSnapshot ::
  "InstallSnapshotRequest \<Rightarrow> 'sm Node \<Rightarrow> 'sm Node \<times> InstallSnapshotResponse" where
  "HandleInstallSnapshot req n =
     (let currentTerm = nd_term n; resp = \<lparr>ir_Term = currentTerm\<rparr> in
      if is_Term req < currentTerm then (n, resp)
      else if is_Term req > currentTerm
      then (stepDown (is_Term req) n, resp\<lparr>ir_Term := is_Term req\<rparr>)
      else (n, resp))"


section \<open>The request a leader builds\<close>

text \<open>
  The entry types a message can carry; \<open>EntryBatch\<close> becomes a normal entry in
  transit.
\<close>

definition transportable :: "LogEntry \<Rightarrow> bool" where
  "transportable e \<longleftrightarrow> le_Type e \<in> {EntryNormal, EntryConfig, EntryNoOp}"

lemma transport_roundtrip: "transportable e \<Longrightarrow> entry_from_proto (entry_to_proto e) = e"
  by (cases e) (auto simp: transportable_def entry_from_proto_def entry_to_proto_def
      ConvertEntryTypeToProto_def ConvertEntryTypeFromProto_def)

lemma transport_roundtrip_list:
  "\<forall>e \<in> set es. transportable e \<Longrightarrow> ConvertFromProto (ConvertToProto es) = es"
  by (simp add: ConvertFromProto_def ConvertToProto_def comp_def transport_roundtrip map_idI)

lemma Validate_max_entries: "Validate c = None \<Longrightarrow> 0 < cf_MaxEntriesPerAppend c"
  by (simp add: Validate_def split: if_splits)

definition batch_for :: "u64 \<Rightarrow> 'sm Node \<Rightarrow> LogEntry list" where
  "batch_for nextIndex n =
     take (nat (cf_MaxEntriesPerAppend (nd_config n))) (drop (unat nextIndex - 1) (nd_log n))"

definition request_for :: "u64 \<Rightarrow> 'sm Node \<Rightarrow> AppendEntriesRequest" where
  "request_for nextIndex n =
     \<lparr>ae_Term = nd_term n, ae_LeaderId = nd_id n, ae_PrevLogIndex = nextIndex - 1,
      ae_PrevLogTerm = (if nextIndex - 1 > 0 then GetTermAtIndex (nd_serverState n) (nextIndex - 1) else 0),
      ae_Entries = ConvertToProto (batch_for nextIndex n), ae_LeaderCommit = nd_commitIndex n\<rparr>"

lemma buildAppendEntriesRequest_eq:
  assumes "node_ok n" and "nextIndex_of peerID n \<noteq> 0"
  shows "buildAppendEntriesRequest peerID n = Inr (request_for (nextIndex_of peerID n) n)"
proof -
  let ?i = "nextIndex_of peerID n"
  have wf: "wf_log (nd_log n)" and max: "0 < cf_MaxEntriesPerAppend (nd_config n)"
    using assms(1) Validate_max_entries by (auto simp: node_ok_def)
  have pos: "0 < unat ?i" using assms(2) by (simp add: unat_gt_0)
  have last: "fst (LastLogIndexAndTerm (nd_serverState n)) = go_len (nd_log n)"
    using server_log.last_index_is_length [OF wf] .
  have more: "?i \<le> go_len (nd_log n) \<longleftrightarrow> unat ?i \<le> length (nd_log n)"
    using wf by (simp add: go_simps)
  have from_i: "GetEntriesFrom (nd_serverState n) ?i = drop (unat ?i - 1) (nd_log n)"
    using server_log.entries_from_law [OF wf_log_slice_ok [OF wf] assms(2)] .
  have none: "batch_for ?i n = []" if "\<not> unat ?i \<le> length (nd_log n)"
    using that pos by (simp add: batch_for_def)
  show ?thesis
    unfolding buildAppendEntriesRequest_def Let_def case_prod_unfold last more from_i
    using none max by (auto simp: request_for_def batch_for_def ConvertToProto_def)
qed

lemma request_for_ok:
  assumes "wf_log (nd_log n)" and "nextIndex \<noteq> 0" and "unat nextIndex \<le> Suc (length (nd_log n))"
  shows "request_ok (request_for nextIndex n)"
proof -
  have pos: "0 < unat nextIndex" using assms(2) by (simp add: unat_gt_0)
  let ?es = "batch_for nextIndex n"
  have prev: "unat (nextIndex - 1) = unat nextIndex - 1" using assms(2) by (simp add: unat_pred_u64)
  have len: "unat nextIndex - 1 + length ?es \<le> length (nd_log n)"
    using assms(3) by (simp add: batch_for_def min_def) linarith
  have idx: "unat (le_Index (?es ! k)) = unat nextIndex - 1 + k + 1" if "k < length ?es" for k
  proof -
    have "unat nextIndex - 1 + k < length (nd_log n)" using that len by linarith
    then show ?thesis using that assms(1,3) by (simp add: batch_for_def wf_log_def nth_drop)
  qed
  have "length (nd_log n) < 2 ^ 63" using assms(1) by (simp add: wf_log_def slice_ok_def)
  then show ?thesis using len idx
    by (simp add: request_ok_def entries_at_def request_for_def prev ConvertToProto_def
        entry_to_proto_def)
qed

lemma request_for_prev:
  assumes "wf_log (nd_log n)" and "nextIndex \<noteq> 0" and "unat nextIndex \<le> Suc (length (nd_log n))"
  shows "prev_matches (request_for nextIndex n) log \<longleftrightarrow>
     nextIndex = 1 \<or>
     unat nextIndex - 1 \<le> length log \<and>
     le_Term (log ! (unat nextIndex - 2)) = le_Term (nd_log n ! (unat nextIndex - 2))"
proof (cases "nextIndex = 1")
  case False
  then have nz: "nextIndex - 1 \<noteq> 0" by simp
  have prev: "unat (nextIndex - 1) = unat nextIndex - 1" using assms(2) by (simp add: unat_pred_u64)
  have "GetTermAtIndex (nd_serverState n) (nextIndex - 1) = le_Term (nd_log n ! (unat nextIndex - 2))"
    using server_log.term_at_inside [OF wf_log_slice_ok [OF assms(1)] nz] assms(3)
    by (simp add: prev numeral_2_eq_2)
  then show ?thesis using False nz
    by (auto simp: prev_matches_def request_for_def prev word_gt_0 numeral_2_eq_2)
qed (simp add: prev_matches_def request_for_def)


section \<open>One round of replication between a leader and a follower\<close>

text \<open>
  Two logs match when a common index with a common term means equal prefixes: the Log
  Matching Property, for this pair of logs.
\<close>

definition log_matching :: "LogEntry list \<Rightarrow> LogEntry list \<Rightarrow> bool" where
  "log_matching xs ys \<longleftrightarrow>
     (\<forall>k. k < length xs \<longrightarrow> k < length ys \<longrightarrow> le_Term (xs ! k) = le_Term (ys ! k) \<longrightarrow>
        take (Suc k) xs = take (Suc k) ys)"

text \<open>Merging a batch of a matching log gives a common prefix that covers the batch.\<close>

lemma merge_matching:
  assumes "log_matching ls fs" and "take p fs = take p ls" "p \<le> length fs" "p + length new \<le> length ls"
    and "new = take (length new) (drop p ls)"
  shows "take (p + length new) (take p fs @ merge_suffix (drop p fs) new) = take (p + length new) ls \<and>
     log_matching ls (take p fs @ merge_suffix (drop p fs) new)"
  using assms
proof (induction new arbitrary: p)
  case Nil
  then have "take p ls @ drop p fs = fs" by (metis append_take_drop_id)
  then show ?case using Nil by simp
next
  case (Cons e new)
  have p: "p < length ls" using Cons.prems(4) by simp
  then have d: "drop p ls = ls ! p # drop (Suc p) ls" by (simp add: Cons_nth_drop_Suc)
  have e: "e = ls ! p" "p < length ls" "new = take (length new) (drop (Suc p) ls)"
    using Cons.prems(5) p unfolding d by simp_all
  show ?case
  proof (cases "p < length fs \<and> le_Term (fs ! p) = le_Term e")
    case True
    then have eq: "take (Suc p) fs = take (Suc p) ls"
      using Cons.prems(1) e by (simp add: log_matching_def)
    have "drop p fs = fs ! p # drop (Suc p) fs" using True by (simp add: Cons_nth_drop_Suc)
    then have "take p fs @ merge_suffix (drop p fs) (e # new) =
        take (Suc p) fs @ merge_suffix (drop (Suc p) fs) new"
      using True by (simp add: take_Suc_conv_app_nth)
    then show ?thesis using Cons.IH [OF Cons.prems(1) eq] Cons.prems(4) True e(3) by simp
  next
    case False
    have "take p fs @ merge_suffix (drop p fs) (e # new) = take p fs @ e # new"
    proof (cases "p < length fs")
      case True
      then have "drop p fs = fs ! p # drop (Suc p) fs" by (simp add: Cons_nth_drop_Suc)
      then show ?thesis using False True by simp
    qed simp
    also have "\<dots> = take p ls @ take (length (e # new)) (drop p ls)"
      using Cons.prems(2,5) by metis
    also have "\<dots> = take (p + length (e # new)) ls" by (simp only: take_add)
    finally show ?thesis using Cons.prems(4) by (simp add: log_matching_def min_def)
  qed
qed


text \<open>The follower answers at once: the call of the exchange.\<close>

definition follower_call ::
  "'sm Node \<Rightarrow> AppendEntriesRequest \<Rightarrow> AppendEntriesResponse option \<times> 'sm Node" where
  "follower_call w req = (let (w', resp) = processAppendEntries req w in (Some resp, w'))"

text \<open>
  A leader and a follower in the same cluster: the follower is not ahead in term, the logs
  match, and the leader's next index for the peer points into its log or just behind it.
\<close>

definition repl_pair :: "Peer \<Rightarrow> 'sm Node \<Rightarrow> 'sm Node \<Rightarrow> bool" where
  "repl_pair peer l f \<longleftrightarrow>
     node_ok l \<and> nd_state l = Leader \<and> node_ok f \<and> nd_term f \<le> nd_term l \<and>
     Suc (length (nd_log l)) < 2 ^ 63 \<and> (\<forall>e \<in> set (nd_log l). transportable e) \<and>
     log_matching (nd_log l) (nd_log f) \<and>
     nextIndex_of (pr_ID peer) l \<noteq> 0 \<and>
     unat (nextIndex_of (pr_ID peer) l) \<le> Suc (length (nd_log l))"

text \<open>What a round leaves alone at the leader.\<close>

definition same_leader :: "'sm Node \<Rightarrow> 'sm Node \<Rightarrow> bool" where
  "same_leader l l' \<longleftrightarrow>
     nd_state l' = nd_state l \<and> nd_serverState l' = nd_serverState l \<and> nd_config l' = nd_config l \<and>
     nd_id l' = nd_id l \<and> nd_electionState l' = nd_electionState l \<and>
     nd_electionTimer l' = nd_electionTimer l \<and>
     (nd_leaderState l' \<noteq> None \<longleftrightarrow> nd_leaderState l \<noteq> None)"

lemma same_leader_ok: "same_leader l l' \<Longrightarrow> node_ok l \<Longrightarrow> node_ok l'"
  by (simp add: same_leader_def node_ok_def)

lemma on_leaderState_fields [simp]:
  "nd_state (on_leaderState f n) = nd_state n" "nd_serverState (on_leaderState f n) = nd_serverState n"
  "nd_config (on_leaderState f n) = nd_config n" "nd_id (on_leaderState f n) = nd_id n"
  "nd_electionState (on_leaderState f n) = nd_electionState n"
  "nd_electionTimer (on_leaderState f n) = nd_electionTimer n"
  "nd_cluster (on_leaderState f n) = nd_cluster n"
  "nd_volatileState (on_leaderState f n) = nd_volatileState n"
  "nd_leaderState (on_leaderState f n) = map_option f (nd_leaderState n)"
  by (simp_all add: on_leaderState_def)

lemma nextIndex_of_Some: "nd_leaderState n = Some ls \<Longrightarrow> nextIndex_of p n = GetNextIndex ls p"
  by (simp add: nextIndex_of_def)

text \<open>The leader's side of a round, for a response of its own term.\<close>

lemma handle_success:
  assumes "nd_state l = Leader" "nd_leaderState l = Some ls" "ar_Term resp = nd_term l"
    "ae_Term req = nd_term l" "ar_Success resp" "ae_Entries req \<noteq> []"
  obtains l' where "handleAppendEntriesResponse peer req resp l = (l', True)" "same_leader l l'"
    "nextIndex_of (pr_ID peer) l' = pe_Index (last (ae_Entries req)) + 1"
    "Node_GetMatchIndex (pr_ID peer) l' = pe_Index (last (ae_Entries req))"
  using assms that
  by (simp add: handleAppendEntriesResponse_def Let_def same_leader_def frame_simps nextIndex_of_def
      Node_GetMatchIndex_def last_conv_nth)

lemma handle_heartbeat:
  assumes "nd_state l = Leader" "nd_leaderState l = Some ls" "ar_Term resp = nd_term l"
    "ae_Term req = nd_term l" "ar_Success resp" "ae_Entries req = []"
  shows "handleAppendEntriesResponse peer req resp l = (l, True)"
  using assms by (simp add: handleAppendEntriesResponse_def)

lemma handle_conflict:
  assumes "nd_state l = Leader" "nd_leaderState l = Some ls" "ar_Term resp = nd_term l"
    "ae_Term req = nd_term l" "\<not> ar_Success resp" "ar_ConflictIndex resp \<noteq> 0"
  obtains l' where "handleAppendEntriesResponse peer req resp l = (l', False)" "same_leader l l'"
    "nextIndex_of (pr_ID peer) l' = ar_ConflictIndex resp"
    "Node_GetMatchIndex (pr_ID peer) l' = Node_GetMatchIndex (pr_ID peer) l"
  using assms that
  by (simp add: handleAppendEntriesResponse_def Let_def same_leader_def nextIndex_of_def word_gt_0
      Node_GetMatchIndex_def)

text \<open>The conflict index of a rejection lies strictly below the next index.\<close>

lemma rejection_conflict:
  assumes "wf_log (nd_log f)" "nd_term f \<le> ae_Term req" "\<not> prev_matches req (nd_log f)"
  shows "ar_ConflictIndex (rejection req f) \<noteq> 0"
    "unat (ar_ConflictIndex (rejection req f)) \<le> unat (ae_PrevLogIndex req)"
proof -
  let ?prev = "ae_PrevLogIndex req" and ?s = "nd_serverState f"
  have nz: "?prev \<noteq> 0" using assms(3) by (auto simp: prev_matches_def)
  obtain c where c: "ar_ConflictIndex (rejection req f) = c + 1" "unat c < unat ?prev"
  proof (cases "length (nd_log f) < unat ?prev")
    case True
    then show thesis using assms(1,2) that [of "go_len (nd_log f)"]
      by (simp add: rejection_def Let_def leD go_simps)
  next
    case False
    have "unat (conflictSearch ?s (GetTermAtIndex ?s ?prev) ?prev) < unat ?prev"
      using conflictSearch_less [OF nz refl] by (simp add: word_less_nat_alt)
    then show thesis using False assms(2) that by (simp add: rejection_def Let_def leD)
  qed
  have "unat ?prev < 2 ^ 64" using unsigned_less [of ?prev] by simp
  then have "unat (c + 1) = Suc (unat c)" using c(2) by (intro unat_Suc_u64) linarith
  then show "ar_ConflictIndex (rejection req f) \<noteq> 0"
    "unat (ar_ConflictIndex (rejection req f)) \<le> unat ?prev"
    using c by (auto simp: Suc_le_eq)
qed


lemma batch_is_slice:
  "batch_for i n = take (length (batch_for i n)) (drop (unat i - 1) (nd_log n))"
  by (simp add: batch_for_def min_def)

lemma last_batch_index:
  assumes "wf_log (nd_log n)" "i \<noteq> 0" "unat i \<le> Suc (length (nd_log n))" "batch_for i n \<noteq> []"
  shows "unat (pe_Index (last (ConvertToProto (batch_for i n)))) = unat i - 1 + length (batch_for i n)"
proof -
  let ?es = "ConvertToProto (batch_for i n)"
  have "unat (i - 1) = unat i - 1" using assms(2) by (simp add: unat_pred_u64)
  then have "unat (pe_Index (?es ! (length ?es - 1))) = unat i - 1 + (length ?es - 1) + 1"
    using request_for_ok [OF assms(1-3)] assms(4)
    by (simp add: request_ok_def entries_at_def request_for_def ConvertToProto_def)
  moreover have "last ?es = ?es ! (length ?es - 1)"
    using assms(4) by (simp add: last_conv_nth ConvertToProto_def)
  ultimately show ?thesis using assms(4) by (simp add: ConvertToProto_def)
qed

text \<open>
  A round: either the follower accepts and shares the leader's log up to the new next index,
  or it rejects, nothing is written and the next index is lower.
\<close>

definition synced :: "Peer \<Rightarrow> 'sm Node \<Rightarrow> 'sm Node \<Rightarrow> bool" where
  "synced peer l f \<longleftrightarrow>
     take (unat (nextIndex_of (pr_ID peer) l) - 1) (nd_log f) =
     take (unat (nextIndex_of (pr_ID peer) l) - 1) (nd_log l) \<and>
     unat (nextIndex_of (pr_ID peer) l) - 1 \<le> length (nd_log f)"

definition match_sound :: "Peer \<Rightarrow> 'sm Node \<Rightarrow> 'sm Node \<Rightarrow> bool" where
  "match_sound peer l f \<longleftrightarrow>
     take (unat (Node_GetMatchIndex (pr_ID peer) l)) (nd_log f) =
     take (unat (Node_GetMatchIndex (pr_ID peer) l)) (nd_log l)"

lemma repl_pairD:
  assumes "repl_pair peer l f"
  shows "wf_log (nd_log l)" "wf_log (nd_log f)" "\<exists>ls. nd_leaderState l = Some ls"
    "request_ok (request_for (nextIndex_of (pr_ID peer) l) l)"
    "buildAppendEntriesRequest (pr_ID peer) l = Inr (request_for (nextIndex_of (pr_ID peer) l) l)"
    "accepts (request_for (nextIndex_of (pr_ID peer) l) l) f \<longleftrightarrow>
       prev_matches (request_for (nextIndex_of (pr_ID peer) l) l) (nd_log f)"
proof -
  have ok: "node_ok l" "node_ok f" "nd_state l = Leader" "nd_term f \<le> nd_term l"
    and i: "nextIndex_of (pr_ID peer) l \<noteq> 0"
      "unat (nextIndex_of (pr_ID peer) l) \<le> Suc (length (nd_log l))"
    using assms by (auto simp: repl_pair_def)
  then show wf: "wf_log (nd_log l)" "wf_log (nd_log f)" "\<exists>ls. nd_leaderState l = Some ls"
    by (auto simp: node_ok_def)
  show "request_ok (request_for (nextIndex_of (pr_ID peer) l) l)" using wf(1) i by (rule request_for_ok)
  show "buildAppendEntriesRequest (pr_ID peer) l = Inr (request_for (nextIndex_of (pr_ID peer) l) l)"
    using ok(1) i(1) by (rule buildAppendEntriesRequest_eq)
  show "accepts (request_for (nextIndex_of (pr_ID peer) l) l) f \<longleftrightarrow>
      prev_matches (request_for (nextIndex_of (pr_ID peer) l) l) (nd_log f)"
    using ok(4) by (simp add: accepts_def request_for_def)
qed

lemma prev_matches_synced:
  assumes "repl_pair peer l f" and "prev_matches (request_for (nextIndex_of (pr_ID peer) l) l) (nd_log f)"
  shows "synced peer l f"
proof -
  let ?i = "nextIndex_of (pr_ID peer) l"
  have wf: "wf_log (nd_log l)" and i: "?i \<noteq> 0" "unat ?i \<le> Suc (length (nd_log l))"
    using assms(1) by (auto simp: repl_pair_def node_ok_def)
  show ?thesis
  proof (cases "?i = 1")
    case True
    then show ?thesis by (simp add: synced_def)
  next
    case False
    then have two: "2 \<le> unat ?i" using i(1) by (metis One_nat_def Suc_leI less_2_cases_iff
      not_less unat_1 unat_0 word_unat_eq_iff)
    let ?k = "unat ?i - 2"
    have k: "Suc ?k = unat ?i - 1" using two by linarith
    have "?k < length (nd_log l)" "?k < length (nd_log f)"
      "le_Term (nd_log l ! ?k) = le_Term (nd_log f ! ?k)"
      using assms(2) request_for_prev [OF wf i] False two i(2) by auto
    then have "take (Suc ?k) (nd_log l) = take (Suc ?k) (nd_log f)"
      using assms(1) by (simp add: repl_pair_def log_matching_def)
    then show ?thesis using \<open>?k < length (nd_log f)\<close> unfolding synced_def k by simp
  qed
qed

lemma synced_prev_matches:
  assumes "repl_pair peer l f" "synced peer l f"
  shows "prev_matches (request_for (nextIndex_of (pr_ID peer) l) l) (nd_log f)"
proof -
  let ?i = "nextIndex_of (pr_ID peer) l"
  have wf: "wf_log (nd_log l)" and i: "?i \<noteq> 0" "unat ?i \<le> Suc (length (nd_log l))"
    using assms(1) by (auto simp: repl_pair_def node_ok_def)
  have "nd_log f ! (unat ?i - 2) = nd_log l ! (unat ?i - 2)" if "?i \<noteq> 1"
  proof -
    have "2 \<le> unat ?i" using i(1) that by (metis One_nat_def Suc_leI less_2_cases_iff
      not_less unat_1 unat_0 word_unat_eq_iff)
    then have "unat ?i - 2 < unat ?i - 1" by linarith
    then show ?thesis using assms(2) by (metis synced_def nth_take)
  qed
  then show ?thesis
    using assms(2) unfolding request_for_prev [OF wf i] synced_def by metis
qed


lemma round_rejected:
  assumes "repl_pair peer l f" and "\<not> synced peer l f"
  obtains l' f' where "sendAppendEntries follower_call peer l f = Inr (l', f', False)"
    "repl_pair peer l' f'" "same_leader l l'" "nd_log f' = nd_log f"
    "unat (nextIndex_of (pr_ID peer) l') < unat (nextIndex_of (pr_ID peer) l)"
    "Node_GetMatchIndex (pr_ID peer) l' = Node_GetMatchIndex (pr_ID peer) l"
proof -
  let ?i = "nextIndex_of (pr_ID peer) l"
  let ?req = "request_for ?i l"
  note d = repl_pairD [OF assms(1)]
  obtain ls where ls: "nd_leaderState l = Some ls" using d(3) by blast
  have pair: "node_ok l" "nd_state l = Leader" "node_ok f" "nd_term f \<le> nd_term l"
    "?i \<noteq> 0" "unat ?i \<le> Suc (length (nd_log l))" using assms(1) by (auto simp: repl_pair_def)
  have req: "ae_Term ?req = nd_term l" "ae_PrevLogIndex ?req = ?i - 1" by (simp_all add: request_for_def)
  have rej: "\<not> prev_matches ?req (nd_log f)" using assms prev_matches_synced by blast
  let ?resp = "rejection ?req f" and ?f = "fst (processAppendEntries ?req f)"
  have resp: "snd (processAppendEntries ?req f) = ?resp"
    using rej d(6) processAppendEntries_rejects [OF d(2)] by simp
  have r: "ar_Term ?resp = nd_term l" "\<not> ar_Success ?resp" "ar_ConflictIndex ?resp \<noteq> 0"
    "unat (ar_ConflictIndex ?resp) \<le> unat (?i - 1)"
    using rejection_conflict [OF d(2) _ rej] pair(4) req
    by (simp_all add: rejection_def Let_def leD)
  have less: "unat (?i - 1) < unat ?i" using pair(5) by (simp add: unat_pred_u64 unat_gt_0)
  obtain l' where l': "handleAppendEntriesResponse peer ?req ?resp l = (l', False)" "same_leader l l'"
    "nextIndex_of (pr_ID peer) l' = ar_ConflictIndex ?resp"
    "Node_GetMatchIndex (pr_ID peer) l' = Node_GetMatchIndex (pr_ID peer) l"
    using handle_conflict [OF pair(2) ls r(1) req(1) r(2,3)] by blast
  have f: "nd_log ?f = nd_log f" "nd_term ?f = nd_term l" "node_ok ?f"
    using processAppendEntries_fields [OF d(2) d(4)] rej d(6) req pair(4)
      processAppendEntries_ok [OF pair(3) d(4)] by (simp_all add: max_def)
  have send: "sendAppendEntries follower_call peer l f = Inr (l', ?f, False)"
    using l'(1) resp by (simp add: sendAppendEntries_def d(5) follower_call_def case_prod_unfold Let_def)
  have pair': "repl_pair peer l' ?f"
    using assms(1) f l' r same_leader_ok [OF l'(2)] less unfolding repl_pair_def
    by (simp add: same_leader_def)
  have "unat (nextIndex_of (pr_ID peer) l') < unat ?i" using l'(3) r(4) less by simp
  then show thesis using that [OF send pair' l'(2) f(1)] l'(4) by blast
qed

lemma round_accepted:
  assumes "repl_pair peer l f" and "synced peer l f"
  defines "b \<equiv> length (batch_for (nextIndex_of (pr_ID peer) l) l)"
  obtains l' f' where "sendAppendEntries follower_call peer l f = Inr (l', f', True)"
    "repl_pair peer l' f'" "same_leader l l'" "synced peer l' f'"
    "unat (nextIndex_of (pr_ID peer) l') = unat (nextIndex_of (pr_ID peer) l) + b"
    "match_sound peer l f \<Longrightarrow> match_sound peer l' f'"
proof -
  let ?i = "nextIndex_of (pr_ID peer) l"
  let ?req = "request_for ?i l" and ?p = "unat ?i - 1" and ?new = "batch_for ?i l"
  note d = repl_pairD [OF assms(1)]
  obtain ls where ls: "nd_leaderState l = Some ls" using d(3) by blast
  have pair: "node_ok l" "nd_state l = Leader" "node_ok f" "nd_term f \<le> nd_term l"
    "?i \<noteq> 0" "unat ?i \<le> Suc (length (nd_log l))" "Suc (length (nd_log l)) < 2 ^ 63"
    "\<forall>e \<in> set (nd_log l). transportable e" "log_matching (nd_log l) (nd_log f)"
    using assms(1) by (auto simp: repl_pair_def)
  have pos: "0 < unat ?i" using pair(5) by (simp add: unat_gt_0)
  have acc: "accepts ?req f" using assms d(6) synced_prev_matches by blast
  let ?f = "fst (processAppendEntries ?req f)" and ?resp = "snd (processAppendEntries ?req f)"
  have req: "ae_Term ?req = nd_term l" "unat (ae_PrevLogIndex ?req) = ?p"
    "ae_Entries ?req = ConvertToProto ?new"
    using pair(5) by (simp_all add: request_for_def unat_pred_u64)
  have "\<forall>e \<in> set ?new. transportable e"
    using pair(8) by (auto simp: batch_for_def dest: in_set_takeD in_set_dropD)
  then have conv: "ConvertFromProto (ConvertToProto ?new) = ?new" by (rule transport_roundtrip_list)
  have f: "nd_log ?f = take ?p (nd_log f) @ merge_suffix (drop ?p (nd_log f)) ?new"
    "nd_term ?f = nd_term l" "node_ok ?f"
    using processAppendEntries_fields [OF d(2) d(4)] acc pair(4)
      processAppendEntries_ok [OF pair(3) d(4)]
    by (simp_all add: max_def merged_log_def conv req)
  have fits: "?p + b \<le> length (nd_log l)"
    using pair(6) by (simp add: b_def batch_for_def min_def) linarith
  have m: "take (?p + b) (nd_log ?f) = take (?p + b) (nd_log l)" "log_matching (nd_log l) (nd_log ?f)"
    using merge_matching [OF pair(9), of ?p ?new] assms(2) fits batch_is_slice [of ?i l]
    by (simp_all add: synced_def f b_def)
  have len: "?p + b \<le> length (nd_log ?f)" using m(1) fits by (metis length_take min.absorb_iff2 min_def)
  have resp: "ar_Term ?resp = nd_term l" "ar_Success ?resp"
    using processAppendEntries_fields [OF d(2) d(4)] acc pair(4) req by (simp_all add: max_def)
  obtain l' where l': "handleAppendEntriesResponse peer ?req ?resp l = (l', True)" "same_leader l l'"
    "unat (nextIndex_of (pr_ID peer) l') = unat ?i + b"
    "match_sound peer l f \<longrightarrow> match_sound peer l' ?f"
  proof (cases "?new = []")
    case True
    then have "nd_log ?f = nd_log f" by (simp add: f)
    then show thesis
      using that [of l] True handle_heartbeat [OF pair(2) ls resp(1) req(1) resp(2)] req(3)
      by (simp add: b_def ConvertToProto_def same_leader_def match_sound_def)
  next
    case False
    let ?last = "pe_Index (last (ae_Entries ?req))"
    have last: "unat ?last = ?p + b"
      using last_batch_index [OF d(1) pair(5,6) False] by (simp add: req b_def)
    then have "unat ?last < 2 ^ 64 - 1" using fits pair(7) by simp
    then have "unat (?last + 1) = Suc (?p + b)" by (simp only: unat_Suc_u64 last)
    moreover have "ae_Entries ?req \<noteq> []" using False by (simp add: req ConvertToProto_def)
    ultimately show thesis
      using that handle_success [OF pair(2) ls resp(1) req(1) resp(2), of peer] last m(1) pos
      by (metis (no_types, lifting) Suc_diff_1 add_Suc match_sound_def same_leader_def)
  qed
  have "sendAppendEntries follower_call peer l f = Inr (l', ?f, True)"
    using l'(1) by (simp add: sendAppendEntries_def d(5) follower_call_def case_prod_unfold Let_def)
  moreover have nz: "nextIndex_of (pr_ID peer) l' \<noteq> 0" using l'(3) pos by auto
  moreover have "repl_pair peer l' ?f"
    using pair f m(2) l'(2,3) same_leader_ok [OF l'(2) pair(1)] nz fits pos unfolding repl_pair_def
    by (simp add: same_leader_def)
  moreover have "unat (nextIndex_of (pr_ID peer) l') - 1 = ?p + b" using l'(3) pos by linarith
  then have "synced peer l' ?f" using m(1) len l'(2) by (simp add: synced_def same_leader_def)
  ultimately show thesis using that l' by blast
qed



section \<open>Convergence\<close>

lemma synced_all:
  assumes "synced peer l f" and "unat (nextIndex_of (pr_ID peer) l) = Suc (length (nd_log l))"
  shows "take (length (nd_log l)) (nd_log f) = nd_log l"
  using assms by (simp add: synced_def)

lemma has_entries:
  "wf_log (nd_log l) \<Longrightarrow>
     i \<le> fst (LastLogIndexAndTerm (nd_serverState l)) \<longleftrightarrow> unat i \<le> length (nd_log l)"
  by (simp add: server_log.last_index_is_length go_simps)

lemma batch_nonempty:
  assumes "node_ok l" and "unat i \<le> length (nd_log l)" and "i \<noteq> 0"
  shows "0 < length (batch_for i l)"
proof -
  have "0 < cf_MaxEntriesPerAppend (nd_config l)"
    using assms(1) Validate_max_entries by (simp add: node_ok_def)
  moreover have "0 < unat i" using assms(3) by (simp add: unat_gt_0)
  then have "unat i - 1 < length (nd_log l)" using assms(2) by linarith
  ultimately show ?thesis by (simp add: batch_for_def)
qed

text \<open>From a synchronised pair on, every round succeeds and moves the next index up.\<close>

lemma loop_from_synced:
  assumes "repl_pair peer l f" "synced peer l f" "match_sound peer l f"
    and "length (nd_log l) - (unat (nextIndex_of (pr_ID peer) l) - 1) < k"
  shows "\<exists>l' f'. replicateToPeer_loop follower_call peer k l f = Inr (l', f') \<and>
     nd_log l' = nd_log l \<and> take (length (nd_log l)) (nd_log f') = nd_log l \<and>
     unat (nextIndex_of (pr_ID peer) l') = Suc (length (nd_log l)) \<and> match_sound peer l' f'"
  using assms
proof (induction k arbitrary: l f)
  case 0
  then show ?case by simp
next
  case (Suc k)
  let ?i = "nextIndex_of (pr_ID peer) l" and ?len = "length (nd_log l)"
  have pair: "node_ok l" "nd_state l = Leader" "?i \<noteq> 0" "unat ?i \<le> Suc ?len" "wf_log (nd_log l)"
    using Suc.prems(1) by (auto simp: repl_pair_def node_ok_def)
  obtain l' f' where round: "sendAppendEntries follower_call peer l f = Inr (l', f', True)"
    "repl_pair peer l' f'" "same_leader l l'" "synced peer l' f'"
    "unat (nextIndex_of (pr_ID peer) l') = unat ?i + length (batch_for ?i l)" "match_sound peer l' f'"
    using round_accepted [OF Suc.prems(1,2)] Suc.prems(3) by metis
  have log: "nd_log l' = nd_log l" "nd_serverState l' = nd_serverState l"
    using round(3) by (simp_all add: same_leader_def)
  have le: "unat (nextIndex_of (pr_ID peer) l') \<le> Suc ?len"
    using round(2) log by (simp add: repl_pair_def)
  have run: "replicateToPeer_loop follower_call peer (Suc k) l f =
      (if unat ?i \<le> ?len \<and> unat (nextIndex_of (pr_ID peer) l') \<le> ?len
       then replicateToPeer_loop follower_call peer k l' f' else Inr (l', f'))"
    using pair(2) round(1) by (simp add: case_prod_unfold has_entries [OF pair(5)])
  show ?case
  proof (cases "unat ?i \<le> ?len \<and> unat (nextIndex_of (pr_ID peer) l') \<le> ?len")
    case True
    then have "0 < length (batch_for ?i l)" using batch_nonempty pair by blast
    moreover have "0 < unat ?i" using pair(3) by (simp add: unat_gt_0)
    ultimately have "?len - (unat (nextIndex_of (pr_ID peer) l') - 1) < k"
      using Suc.prems(4) round(5) True [THEN conjunct1] by linarith
    then show ?thesis using Suc.IH [OF round(2,4,6)] run True log by simp
  next
    case False
    then have "unat (nextIndex_of (pr_ID peer) l') = Suc ?len"
      using le round(5) pair(4) by linarith
    then show ?thesis using run False synced_all [OF round(4)] round(6) log by simp
  qed
qed

text \<open>Until then, every round is rejected and moves the next index down.\<close>

lemma loop_converges:
  assumes "repl_pair peer l f" "match_sound peer l f"
    and "unat (nextIndex_of (pr_ID peer) l) + length (nd_log l) < k"
  shows "\<exists>l' f'. replicateToPeer_loop follower_call peer k l f = Inr (l', f') \<and>
     nd_log l' = nd_log l \<and> take (length (nd_log l)) (nd_log f') = nd_log l \<and>
     unat (nextIndex_of (pr_ID peer) l') = Suc (length (nd_log l)) \<and> match_sound peer l' f'"
  using assms
proof (induction k arbitrary: l f)
  case 0
  then show ?case by simp
next
  case (Suc k)
  show ?case
  proof (cases "synced peer l f")
    case True
    have "length (nd_log l) - (unat (nextIndex_of (pr_ID peer) l) - 1) < Suc k"
      using Suc.prems(3) by linarith
    then show ?thesis by (rule loop_from_synced [OF Suc.prems(1) True Suc.prems(2)])
  next
    case False
    obtain l' f' where round: "sendAppendEntries follower_call peer l f = Inr (l', f', False)"
      "repl_pair peer l' f'" "same_leader l l'" "nd_log f' = nd_log f"
      "unat (nextIndex_of (pr_ID peer) l') < unat (nextIndex_of (pr_ID peer) l)"
      "Node_GetMatchIndex (pr_ID peer) l' = Node_GetMatchIndex (pr_ID peer) l"
      using round_rejected [OF Suc.prems(1) False] by metis
    have log: "nd_log l' = nd_log l" using round(3) by (simp add: same_leader_def)
    have "match_sound peer l' f'" using Suc.prems(2) round(4,6) log by (simp add: match_sound_def)
    moreover have "nd_state l = Leader" using Suc.prems(1) by (simp add: repl_pair_def)
    ultimately show ?thesis
      using Suc.IH [OF round(2)] round(1,5) Suc.prems(3) log by (simp add: case_prod_unfold)
  qed
qed

lemma AppendLogEntry_eq:
  assumes "nd_state n = Leader" and "wf_log (nd_log n)"
  shows "nd_log (fst (AppendLogEntry data t n)) =
       nd_log n @ [\<lparr>le_Term = nd_term n, le_Index = go_len (nd_log n) + 1, le_Data = data, le_Type = t\<rparr>]"
    and "snd (AppendLogEntry data t n) = (go_len (nd_log n) + 1, True)"
    and "nd_state (fst (AppendLogEntry data t n)) = Leader"
    and "nd_term (fst (AppendLogEntry data t n)) = nd_term n"
  using assms server_log.last_index_is_length [OF assms(2)]
  by (simp_all add: AppendLogEntry_def case_prod_unfold Let_def AppendEntry_def)

lemma AppendLogEntry_ok [wf_intros]:
  assumes "node_ok n" and "Suc (length (nd_log n)) < 2 ^ 63"
  shows "node_ok (fst (AppendLogEntry data t n))"
proof (cases "nd_state n = Leader")
  case True
  have wf: "wf_log (nd_log n)" using assms(1) by (simp add: node_ok_def)
  let ?e = "\<lparr>le_Term = nd_term n, le_Index = fst (LastLogIndexAndTerm (nd_serverState n)) + 1,
      le_Data = data, le_Type = t\<rparr>"
  have "wf_log (ss_Log (AppendEntry ?e (nd_serverState n)))"
    using server_log.append_next_wf [OF wf assms(2), of ?e] by simp
  then show ?thesis using assms(1) True
    by (simp add: AppendLogEntry_def case_prod_unfold Let_def node_ok_def AppendEntry_def)
qed (simp add: AppendLogEntry_def assms)

lemma read_loop_Some:
  "read_loop f i ticks = Some r \<Longrightarrow>
     \<exists>(n, n') \<in> set ticks. nd_state n = Leader \<and> i \<le> nd_lastApplied n \<and> r = f n'"
  by (induction f i ticks rule: read_loop.induct) (auto split: if_splits)


section \<open>Properties\<close>


lemma example_leader_ok: "node_ok (example_leader ps ms)"
  using example_node_ok [of "''n1''" ps]
  by (auto simp: example_leader_def node_ok_def wf_log_def slice_ok_def example_node_fields)

lemma example_pair:
  "repl_pair \<lparr>pr_ID = ''n2'', pr_Address = ''n2''\<rparr>
     ((example_leader [''n2''] Map.empty)\<lparr>nd_leaderState := Some (NewLeaderState [''n2''] 1)\<rparr>)
     (example_node ''n2'' [''n1''])"
proof -
  have "node_ok ((example_leader [''n2''] Map.empty)\<lparr>nd_leaderState := Some (NewLeaderState [''n2''] 1)\<rparr>)"
    using example_leader_ok [of "[''n2'']" Map.empty] by (simp add: node_ok_def example_leader_fields)
  then show ?thesis
    using example_node_ok [of "''n2''" "[''n1'']"]
    by (simp add: repl_pair_def example_leader_fields example_node_fields NewServerState_def
        transportable_def log_matching_def nextIndex_of_def)
qed


text \<open>Only a leader appends: it puts the command behind its log, with its term and the
  next index, which it returns; the entries before it stay (a leader never overwrites its
  log) and the node stays well formed. Any other node refuses and is unchanged.\<close>

theorem AppendLogEntry_functional:
  assumes "node_ok n" and "Suc (length (nd_log n)) < 2 ^ 63"
  shows "if nd_state n = Leader
     then nd_log (fst (AppendLogEntry data t n)) =
            nd_log n @ [\<lparr>le_Term = nd_term n, le_Index = go_len (nd_log n) + 1, le_Data = data, le_Type = t\<rparr>] \<and>
          snd (AppendLogEntry data t n) = (go_len (nd_log n) + 1, True) \<and>
          node_ok (fst (AppendLogEntry data t n))
     else AppendLogEntry data t n = (n, 0, False)"
proof (cases "nd_state n = Leader")
  case True
  have "wf_log (nd_log n)" using assms(1) by (simp add: node_ok_def)
  then show ?thesis
    using True AppendLogEntry_ok [OF assms] AppendLogEntry_eq [OF True] by simp
qed (simp add: AppendLogEntry_def)

theorem AppendLogEntry_functional_witness:
  "snd (AppendLogEntry [7] EntryNormal (example_leader [''n2''] Map.empty)) = (2, True)"
  using AppendLogEntry_functional [OF example_leader_ok, of "[''n2'']" Map.empty "[7]" EntryNormal]
  by (simp add: example_leader_fields go_len_def)



text \<open>Confirming leadership sends nothing and waits for nobody: a node that believes
  itself leader and has applied its commit index serves the read from its own state, with no
  acknowledgement from any peer between the call and the result. A leader cut off from a
  majority that has elected another leader therefore returns stale values.\<close>

theorem linearizable_read_without_quorum:
  "nd_state n = Leader \<Longrightarrow> nd_commitIndex n \<le> nd_lastApplied n \<Longrightarrow>
     PerformLinearizableRead readFunc n n [(n, n)] = Some (readFunc n)"
  by (simp add: PerformLinearizableRead_def confirmLeadership_def)

theorem linearizable_read_without_quorum_witness:
  "PerformLinearizableRead nd_log (example_leader [''n2'', ''n3''] Map.empty)
     (example_leader [''n2'', ''n3''] Map.empty)
     [(example_leader [''n2'', ''n3''] Map.empty, example_leader [''n2'', ''n3''] Map.empty)]
   = Some (nd_log (example_leader [''n2'', ''n3''] Map.empty))"
  by (rule linearizable_read_without_quorum) (simp_all add: example_leader_fields)

end
