(* ===== verification/RaftCluster.thy ===== *)
theory RaftCluster
  imports RaftReplication
begin

text \<open>
  A cluster of nodes that run elections: the handlers of the other theories, interleaved.
  Every locked section of \<open>startElection\<close> and \<open>sendRequestVote\<close> is a step
  of its own, as are the handlers of votes, of AppendEntries requests and responses, of client
  commands and of the apply loop. Messages stay in the network once sent, so they may be
  delivered late, repeatedly or never. The field \<open>cs_votes\<close> records who voted for
  whom in which term; no step reads it. A term that would overflow \<open>uint64\<close> is
  excluded by the guard of \<open>timeout\<close>.
\<close>

section \<open>Steps\<close>

record 'sm cluster_state =
  cs_nodes :: "string \<Rightarrow> 'sm Node"
  cs_task :: "string \<Rightarrow> (election \<times> bool list) option"  \<comment> \<open>a running \<open>startElection\<close> and its channel\<close>
  cs_claim :: "string \<Rightarrow> u64 option"                      \<comment> \<open>an election won, not yet claimed\<close>
  cs_requests :: "RequestVoteRequest set"
  cs_responses :: "(string \<times> RequestVoteRequest \<times> RequestVoteResponse) set"
  cs_votes :: "(string \<times> u64 \<times> string) set"

abbreviation set_node :: "string \<Rightarrow> 'sm Node \<Rightarrow> 'sm cluster_state \<Rightarrow> 'sm cluster_state" where
  "set_node i n cs \<equiv> cs\<lparr>cs_nodes := (cs_nodes cs)(i := n)\<rparr>"

definition receive_vote :: "election \<times> bool list \<Rightarrow> u64 \<Rightarrow> bool \<Rightarrow> election \<times> bool list" where
  "receive_vote task term granted =
     (if el_term (fst task) = term then (fst task, snd task @ [granted]) else task)"

inductive cluster_step :: "string set \<Rightarrow> 'sm cluster_state \<Rightarrow> 'sm cluster_state \<Rightarrow> bool"
  for S :: "string set" where
  timeout: "i \<in> S \<Longrightarrow> cs_task cs i = None \<Longrightarrow> cs_claim cs i = None \<Longrightarrow> nd_term (cs_nodes cs i) \<noteq> - 1 \<Longrightarrow>
     startElection_begin now (cs_nodes cs i) = (n, e) \<Longrightarrow>
     cluster_step S cs (set_node i n cs
       \<lparr>cs_task := (cs_task cs)(i \<mapsto> (e, [])), cs_votes := insert (i, el_term e, i) (cs_votes cs)\<rparr>)"
| send: "i \<in> S \<Longrightarrow> cs_task cs i = Some (e, votes) \<Longrightarrow>
     cluster_step S cs
       (cs\<lparr>cs_requests := insert (sendRequestVote_request (cs_nodes cs i) e) (cs_requests cs)\<rparr>)"
| vote: "v \<in> S \<Longrightarrow> req \<in> cs_requests cs \<Longrightarrow> v \<noteq> rv_CandidateId req \<Longrightarrow>
     requestVote req (cs_nodes cs v) = (n, resp) \<Longrightarrow>
     cluster_step S cs (set_node v n cs
       \<lparr>cs_responses := insert (v, req, resp) (cs_responses cs),
        cs_votes := (if vr_VoteGranted resp then {(v, rv_Term req, rv_CandidateId req)} else {}) \<union> cs_votes cs\<rparr>)"
| response: "(v, req, resp) \<in> cs_responses cs \<Longrightarrow> i = rv_CandidateId req \<Longrightarrow> i \<in> S \<Longrightarrow>
     sendRequestVote_response (rv_Term req) resp (cs_nodes cs i) = (n, granted) \<Longrightarrow>
     cluster_step S cs (set_node i n cs
       \<lparr>cs_task := (cs_task cs)(i := map_option (\<lambda>task. receive_vote task (rv_Term req) granted) (cs_task cs i))\<rparr>)"
| count: "i \<in> S \<Longrightarrow> cs_task cs i = Some (e, True # votes) \<Longrightarrow>
     countVote (el_term e) (votesNeeded (el_peers e)) (cs_nodes cs i) = (n, won) \<Longrightarrow>
     cluster_step S cs (set_node i n cs
       \<lparr>cs_task := (cs_task cs)(i := if won then None else Some (e, votes)),
        cs_claim := (cs_claim cs)(i := if won then Some (el_term e) else cs_claim cs i)\<rparr>)"
| skip: "i \<in> S \<Longrightarrow> cs_task cs i = Some (e, False # votes) \<Longrightarrow>
     cluster_step S cs (cs\<lparr>cs_task := (cs_task cs)(i \<mapsto> (e, votes))\<rparr>)"
| finish: "i \<in> S \<Longrightarrow> cluster_step S cs (cs\<lparr>cs_task := (cs_task cs)(i := None)\<rparr>)"
| claim: "i \<in> S \<Longrightarrow> cs_claim cs i = Some t \<Longrightarrow>
     cluster_step S cs (set_node i (claimLeadership t (cs_nodes cs i)) cs
       \<lparr>cs_claim := (cs_claim cs)(i := None)\<rparr>)"
| append: "i \<in> S \<Longrightarrow> request_ok req \<Longrightarrow>
     cluster_step S cs (set_node i (fst (processAppendEntries req (cs_nodes cs i))) cs)"
| append_response: "i \<in> S \<Longrightarrow>
     cluster_step S cs (set_node i (fst (handleAppendEntriesResponse peer areq aresp (cs_nodes cs i))) cs)"
| heartbeat_response: "i \<in> S \<Longrightarrow>
     cluster_step S cs (set_node i (sendHeartbeatToPeer_response peer t aresp (cs_nodes cs i)) cs)"
| client: "i \<in> S \<Longrightarrow> Suc (length (nd_log (cs_nodes cs i))) < 2 ^ 63 \<Longrightarrow>
     cluster_step S cs (set_node i (fst (AppendLogEntry data ty (cs_nodes cs i))) cs)"
| no_op: "i \<in> S \<Longrightarrow> Suc (length (nd_log (cs_nodes cs i))) < 2 ^ 63 \<Longrightarrow>
     cluster_step S cs (set_node i (appendNoOpEntry (cs_nodes cs i)) cs)"
| install: "i \<in> S \<Longrightarrow>
     cluster_step S cs (set_node i (fst (HandleInstallSnapshot ireq (cs_nodes cs i))) cs)"
| applying: "i \<in> S \<Longrightarrow>
     cluster_step S cs (set_node i (applyCommittedEntries f (cs_nodes cs i)) cs)"

text \<open>A cluster starts with fresh nodes that know each other.\<close>

definition fresh_node :: "string set \<Rightarrow> string \<Rightarrow> 'sm Node \<Rightarrow> bool" where
  "fresh_node S i n \<longleftrightarrow>
     nd_id n = i \<and> node_ok n \<and> nd_state n = Follower \<and> length (nd_peers n) = card S - 1 \<and>
     es_VotesReceived (nd_electionState n) = Map.empty"

definition initial_cluster :: "string set \<Rightarrow> 'sm cluster_state \<Rightarrow> bool" where
  "initial_cluster S cs \<longleftrightarrow>
     finite S \<and> (\<forall>i \<in> S. fresh_node S i (cs_nodes cs i)) \<and>
     cs_task cs = Map.empty \<and> cs_claim cs = Map.empty \<and> cs_requests cs = {} \<and>
     cs_responses cs = {} \<and> cs_votes cs = {}"

definition reachable :: "string set \<Rightarrow> 'sm cluster_state \<Rightarrow> bool" where
  "reachable S cs \<longleftrightarrow> (\<exists>cs0. initial_cluster S cs0 \<and> (cluster_step S)\<^sup>*\<^sup>* cs0 cs)"


section \<open>Handlers that leave votes alone\<close>

text \<open>
  What most handlers do to a node as far as elections are concerned: the term does not fall,
  the vote of the term stays, and nobody becomes leader.
\<close>

definition vote_neutral :: "'sm Node \<Rightarrow> 'sm Node \<Rightarrow> bool" where
  "vote_neutral n n' \<longleftrightarrow>
     nd_id n' = nd_id n \<and> nd_cluster n' = nd_cluster n \<and> nd_electionState n' = nd_electionState n \<and>
     nd_term n \<le> nd_term n' \<and> (nd_term n' = nd_term n \<longrightarrow> nd_votedFor n' = nd_votedFor n) \<and>
     (nd_state n' = Leader \<longrightarrow> nd_state n = Leader \<and> nd_term n' = nd_term n) \<and>
     (node_ok n \<longrightarrow> node_ok n')"

lemma vote_neutral_refl [simp]: "vote_neutral n n"
  by (simp add: vote_neutral_def)

lemma vote_neutral_voted_by:
  assumes "vote_neutral n n'" "voted_by t c n"
  shows "voted_by t c n'"
proof (cases "nd_term n' = nd_term n")
  case True
  then show ?thesis using assms by (simp add: vote_neutral_def voted_by_def)
next
  case False
  then have "nd_term n < nd_term n'" using assms(1) by (simp add: vote_neutral_def order_le_less)
  moreover have "t \<le> nd_term n" using assms(2) by (auto simp: voted_by_def)
  ultimately have "t < nd_term n'" by (rule le_less_trans [rotated])
  then show ?thesis by (simp add: voted_by_def)
qed

lemma vote_neutral_stepDown [simp]: "nd_term n < t \<Longrightarrow> vote_neutral n (stepDown t n)"
  by (auto simp: vote_neutral_def max_def stepDown_ok)

lemma on_leaderState_ok: "node_ok n \<Longrightarrow> node_ok (on_leaderState f n)"
  by (simp add: node_ok_def)

lemma vote_neutral_on_leaderState [simp]: "vote_neutral n (on_leaderState f n)"
  by (simp add: vote_neutral_def on_leaderState_ok)

lemma vote_neutral_tryAdvance [simp]:
  "vote_neutral n (tryAdvanceCommitIndex (on_leaderState f (on_leaderState g n)))"
  by (simp add: vote_neutral_def frame_simps tryAdvance_ok on_leaderState_ok)

lemma vote_neutral_append:
  assumes "node_ok n" "request_ok req"
  shows "vote_neutral n (fst (processAppendEntries req n))"
proof -
  have wf: "wf_log (nd_log n)" using assms(1) by (simp add: node_ok_def)
  note acc = processAppendEntries_accepts [OF wf _ assms(2)]
  note rej = processAppendEntries_rejects [OF wf]
  have "nd_electionState (fst (processAppendEntries req n)) = nd_electionState n"
    using acc rej by (cases "accepts req n") (simp_all add: heardFrom_fields)
  moreover have "nd_state (fst (processAppendEntries req n)) = Leader \<longrightarrow>
      nd_state n = Leader \<and> nd_term (fst (processAppendEntries req n)) = nd_term n"
    using acc rej
    by (cases "accepts req n") (auto simp: heardFrom_fields max_def order_le_less split: if_splits)
  ultimately show ?thesis
    using processAppendEntries_fields [OF wf assms(2)] processAppendEntries_ok [OF assms]
    by (auto simp: vote_neutral_def)
qed

lemma vote_neutral_append_response:
  "vote_neutral n (fst (handleAppendEntriesResponse peer areq aresp n))"
  by (simp add: handleAppendEntriesResponse_def Let_def split: option.splits)

lemma vote_neutral_heartbeat_response:
  "vote_neutral n (sendHeartbeatToPeer_response peer t aresp n)"
  by (simp add: sendHeartbeatToPeer_response_def Let_def split: option.splits)

lemma vote_neutral_client:
  "Suc (length (nd_log n)) < 2 ^ 63 \<Longrightarrow> vote_neutral n (fst (AppendLogEntry data ty n))"
  using AppendLogEntry_ok [of n data ty]
  by (simp add: vote_neutral_def) (simp add: AppendLogEntry_def case_prod_unfold Let_def AppendEntry_def)

text \<open>A no-op entry is appended the way a client command is.\<close>

lemma appendNoOpEntry_eq: "appendNoOpEntry n = fst (AppendLogEntry [] EntryNoOp n)"
  by (simp add: appendNoOpEntry_def AppendLogEntry_def case_prod_unfold Let_def)

lemma vote_neutral_install: "vote_neutral n (fst (HandleInstallSnapshot ireq n))"
  by (simp add: HandleInstallSnapshot_def Let_def)

lemma vote_neutral_vote_response: "vote_neutral n (fst (sendRequestVote_response t resp n))"
  by (simp add: sendRequestVote_response_def)

lemma applyCommitted_loop_frame:
  "nd_id (applyCommitted_loop f k i n) = nd_id n \<and> nd_cluster (applyCommitted_loop f k i n) = nd_cluster n \<and>
   nd_serverState (applyCommitted_loop f k i n) = nd_serverState n \<and>
   nd_state (applyCommitted_loop f k i n) = nd_state n \<and>
   nd_electionState (applyCommitted_loop f k i n) = nd_electionState n \<and>
   nd_electionTimer (applyCommitted_loop f k i n) = nd_electionTimer n \<and>
   nd_leaderState (applyCommitted_loop f k i n) = nd_leaderState n \<and>
   nd_config (applyCommitted_loop f k i n) = nd_config n"
  by (induction f k i n rule: applyCommitted_loop.induct) (auto simp: Let_def split: sum.splits)

lemma vote_neutral_applying: "vote_neutral n (applyCommittedEntries f n)"
  using applyCommitted_loop_frame [of f "unat (nd_commitIndex n - nd_lastApplied n)" "nd_lastApplied n + 1" n]
  by (simp add: applyCommittedEntries_def Let_def vote_neutral_def node_ok_def)



section \<open>The invariant of elections\<close>

definition node_inv :: "string set \<Rightarrow> string \<Rightarrow> 'sm Node \<Rightarrow> bool" where
  "node_inv S i n \<longleftrightarrow>
     nd_id n = i \<and> node_ok n \<and> length (nd_peers n) = card S - 1 \<and>
     dom (es_VotesReceived (nd_electionState n)) \<subseteq> {i, ''''}"

text \<open>Some other node voted for \<open>i\<close> in term \<open>t\<close>, and \<open>i\<close> for itself.\<close>

definition backed :: "'sm cluster_state \<Rightarrow> string \<Rightarrow> u64 \<Rightarrow> bool" where
  "backed cs i t \<longleftrightarrow> (i, t, i) \<in> cs_votes cs \<and> (\<exists>v. v \<noteq> i \<and> (v, t, i) \<in> cs_votes cs)"

definition nodes_inv :: "string set \<Rightarrow> 'sm cluster_state \<Rightarrow> bool" where
  "nodes_inv S cs \<longleftrightarrow> (\<forall>i \<in> S. node_inv S i (cs_nodes cs i))"

definition votes_inv :: "string set \<Rightarrow> 'sm cluster_state \<Rightarrow> bool" where
  "votes_inv S cs \<longleftrightarrow>
     (\<forall>v t c. (v, t, c) \<in> cs_votes cs \<longrightarrow> v \<in> S \<and> c \<in> S \<and> voted_by t c (cs_nodes cs v))"

definition unique_inv :: "'sm cluster_state \<Rightarrow> bool" where
  "unique_inv cs \<longleftrightarrow>
     (\<forall>v t c c'. (v, t, c) \<in> cs_votes cs \<longrightarrow> (v, t, c') \<in> cs_votes cs \<longrightarrow> c = c')"

definition messages_inv :: "string set \<Rightarrow> 'sm cluster_state \<Rightarrow> bool" where
  "messages_inv S cs \<longleftrightarrow>
     (\<forall>req \<in> cs_requests cs. rv_CandidateId req \<in> S) \<and>
     (\<forall>v req resp. (v, req, resp) \<in> cs_responses cs \<longrightarrow> vr_VoteGranted resp \<longrightarrow>
        v \<noteq> rv_CandidateId req \<and> (v, rv_Term req, rv_CandidateId req) \<in> cs_votes cs)"

definition tasks_inv :: "string set \<Rightarrow> 'sm cluster_state \<Rightarrow> bool" where
  "tasks_inv S cs \<longleftrightarrow>
     (\<forall>i \<in> S. \<forall>e votes. cs_task cs i = Some (e, votes) \<longrightarrow>
        (i, el_term e, i) \<in> cs_votes cs \<and> length (el_peers e) = card S - 1 \<and>
        (True \<in> set votes \<longrightarrow> backed cs i (el_term e))) \<and>
     (\<forall>i \<in> S. \<forall>t. cs_claim cs i = Some t \<longrightarrow> backed cs i t \<and> card S - 1 \<le> 3)"

definition leaders_inv :: "string set \<Rightarrow> 'sm cluster_state \<Rightarrow> bool" where
  "leaders_inv S cs \<longleftrightarrow>
     (\<forall>i \<in> S. nd_state (cs_nodes cs i) = Leader \<longrightarrow>
        backed cs i (nd_term (cs_nodes cs i)) \<and> card S - 1 \<le> 3)"

definition election_inv :: "string set \<Rightarrow> 'sm cluster_state \<Rightarrow> bool" where
  "election_inv S cs \<longleftrightarrow>
     nodes_inv S cs \<and> votes_inv S cs \<and> unique_inv cs \<and> messages_inv S cs \<and> tasks_inv S cs \<and>
     leaders_inv S cs"

lemma backed_votes: "cs_votes cs \<subseteq> cs_votes cs' \<Longrightarrow> backed cs i t \<Longrightarrow> backed cs' i t"
  by (auto simp: backed_def)

text \<open>A neutral handler keeps every part of the invariant.\<close>

lemma node_inv_neutral: "vote_neutral n n' \<Longrightarrow> node_inv S i n \<Longrightarrow> node_inv S i n'"
  by (simp add: node_inv_def vote_neutral_def)

lemma inv_set_node:
  assumes "election_inv S cs" "i \<in> S" "vote_neutral (cs_nodes cs i) n"
  shows "election_inv S (set_node i n cs)"
proof -
  have "nodes_inv S (set_node i n cs)"
    using assms node_inv_neutral [OF assms(3)] by (auto simp: election_inv_def nodes_inv_def)
  moreover have "votes_inv S (set_node i n cs)"
    using assms vote_neutral_voted_by [OF assms(3)] by (auto simp: election_inv_def votes_inv_def)
  moreover have "leaders_inv S (set_node i n cs)"
    using assms by (auto simp: election_inv_def leaders_inv_def vote_neutral_def backed_def)
  moreover have "tasks_inv S (set_node i n cs)" "unique_inv (set_node i n cs)" "messages_inv S (set_node i n cs)"
    using assms(1) by (simp_all add: election_inv_def tasks_inv_def unique_inv_def messages_inv_def backed_def)
  ultimately show ?thesis by (simp add: election_inv_def)
qed


lemma inv_id_nonempty: "election_inv S cs \<Longrightarrow> i \<in> S \<Longrightarrow> i \<noteq> ''''"
  by (auto simp: election_inv_def nodes_inv_def node_inv_def node_ok_def)

lemma inv_timeout:
  assumes "election_inv S cs" "i \<in> S" "nd_term (cs_nodes cs i) \<noteq> - 1"
    and "startElection_begin now (cs_nodes cs i) = (n, e)"
  shows "election_inv S (set_node i n cs
     \<lparr>cs_task := (cs_task cs)(i \<mapsto> (e, [])), cs_votes := insert (i, el_term e, i) (cs_votes cs)\<rparr>)"
    (is "election_inv S ?cs")
proof -
  let ?n = "cs_nodes cs i"
  have n: "n = becomeCandidate now ?n" and e: "el_term e = nd_term ?n + 1" "el_peers e = nd_peers ?n"
    using assms(4) by (auto simp: startElection_begin_eq)
  have less: "nd_term ?n < nd_term ?n + 1" using assms(3) by (rule u64_less_add_one)
  have inv: "node_inv S i ?n" using assms(1,2) by (auto simp: election_inv_def nodes_inv_def)
  have later: "voted_by t c n" if "voted_by t c ?n" for t c
  proof -
    have "t \<le> nd_term ?n" using that by (auto simp: voted_by_def)
    then have "t < nd_term ?n + 1" using less by (rule le_less_trans)
    then show ?thesis by (simp add: voted_by_def n)
  qed
  have fresh: "(i, nd_term ?n + 1, c) \<notin> cs_votes cs" for c
  proof
    assume "(i, nd_term ?n + 1, c) \<in> cs_votes cs"
    then have "voted_by (nd_term ?n + 1) c ?n" using assms(1) by (simp add: election_inv_def votes_inv_def)
    then have "nd_term ?n + 1 \<le> nd_term ?n" by (auto simp: voted_by_def)
    then show False using less by simp
  qed
  have "nodes_inv S ?cs"
    using assms(1) inv n by (auto simp: election_inv_def nodes_inv_def node_inv_def becomeCandidate_ok
        becomeCandidate_electionState AddVote_def ElectionState_Reset_def)
  moreover have "votes_inv S ?cs"
    using assms(1,2) later inv
    by (auto simp: election_inv_def votes_inv_def e n node_inv_def voted_by_def)
  moreover have "unique_inv ?cs"
    using assms(1) fresh by (auto simp: election_inv_def unique_inv_def e)
  moreover have "messages_inv S ?cs" using assms(1) by (auto simp: election_inv_def messages_inv_def)
  moreover have more: "backed ?cs k t" if "backed cs k t" for k t
    using that by (auto simp: backed_def)
  then have "tasks_inv S ?cs"
    using assms(1) inv by (auto simp: election_inv_def tasks_inv_def e(2) node_inv_def)
  moreover have "leaders_inv S ?cs"
    using assms(1) more by (auto simp: election_inv_def leaders_inv_def n)
  ultimately show ?thesis by (simp add: election_inv_def)
qed

lemma inv_vote:
  assumes "election_inv S cs" "v \<in> S" "req \<in> cs_requests cs" "v \<noteq> rv_CandidateId req"
    and "requestVote req (cs_nodes cs v) = (n, resp)"
  shows "election_inv S (set_node v n cs
     \<lparr>cs_responses := insert (v, req, resp) (cs_responses cs),
      cs_votes := (if vr_VoteGranted resp then {(v, rv_Term req, rv_CandidateId req)} else {}) \<union> cs_votes cs\<rparr>)"
    (is "election_inv S ?cs")
proof -
  let ?n = "cs_nodes cs v" and ?c = "rv_CandidateId req" and ?t = "rv_Term req"
  have n: "n = fst (requestVote req ?n)" "vr_VoteGranted resp = grants req ?n"
    using assms(5) requestVote_granted [of req ?n] by simp_all
  have c: "?c \<in> S" using assms(1,3) by (auto simp: election_inv_def messages_inv_def)
  have inv: "node_inv S v ?n" using assms(1,2) by (auto simp: election_inv_def nodes_inv_def)
  have old: "w \<in> S \<and> d \<in> S \<and> d \<noteq> '''' \<and> voted_by t d (cs_nodes cs w)" if "(w, t, d) \<in> cs_votes cs" for w t d
  proof -
    have "w \<in> S \<and> d \<in> S \<and> voted_by t d (cs_nodes cs w)"
      using that assms(1) by (simp add: election_inv_def votes_inv_def)
    then show ?thesis using inv_id_nonempty [OF assms(1)] by blast
  qed
  have keep: "voted_by t d n" if "(v, t, d) \<in> cs_votes cs" for t d
    using old [OF that] voted_by_requestVote n by blast
  have "nodes_inv S ?cs"
    using assms(1) inv n(1) requestVote_ok [of ?n req]
    by (auto simp: election_inv_def nodes_inv_def node_inv_def frame_simps)
  moreover have "votes_inv S ?cs"
    using old keep voted_by_granted [of req ?n] n c assms(2) by (auto simp: votes_inv_def)
  moreover have same: "d = ?c" if "vr_VoteGranted resp" "(v, ?t, d) \<in> cs_votes cs" for d
    using old [OF that(2)] voted_by_grants [of req d ?n] that(1) n(2) by auto
  then have "unique_inv ?cs"
    using assms(1) by (auto simp: election_inv_def unique_inv_def)
  moreover have "messages_inv S ?cs"
    using assms(1,4) by (auto simp: election_inv_def messages_inv_def)
  moreover have sub: "cs_votes cs \<subseteq> cs_votes ?cs" by auto
  then have "tasks_inv S ?cs"
    using assms(1) backed_votes [OF sub] by (auto simp: election_inv_def tasks_inv_def)
  moreover have "nd_state n = Leader \<longrightarrow> nd_state ?n = Leader \<and> nd_term n = nd_term ?n"
    by (simp add: n(1) requestVote_term frame_simps max_def not_less)
  then have "leaders_inv S ?cs"
    using assms(1) backed_votes [OF sub] by (auto simp: election_inv_def leaders_inv_def)
  ultimately show ?thesis by (simp add: election_inv_def)
qed

text \<open>Updating tasks only.\<close>

lemma inv_tasks:
  assumes "election_inv S cs" "tasks_inv S (cs\<lparr>cs_task := T, cs_claim := C\<rparr>)"
  shows "election_inv S (cs\<lparr>cs_task := T, cs_claim := C\<rparr>)"
  using assms
  by (simp add: election_inv_def nodes_inv_def votes_inv_def unique_inv_def messages_inv_def
      leaders_inv_def backed_def)

lemma inv_response:
  assumes "election_inv S cs" "(v, req, resp) \<in> cs_responses cs" "i = rv_CandidateId req" "i \<in> S"
    and "sendRequestVote_response (rv_Term req) resp (cs_nodes cs i) = (n, granted)"
  shows "election_inv S (set_node i n cs
     \<lparr>cs_task := (cs_task cs)(i := map_option (\<lambda>task. receive_vote task (rv_Term req) granted) (cs_task cs i))\<rparr>)"
proof -
  have n: "vote_neutral (cs_nodes cs i) n"
    using vote_neutral_vote_response [of "cs_nodes cs i" "rv_Term req" resp] assms(5) by simp
  have "granted \<longrightarrow> vr_VoteGranted resp"
    using assms(5) by (auto simp: sendRequestVote_response_def split: if_splits)
  then have g: "granted \<longrightarrow> v \<noteq> i \<and> (v, rv_Term req, i) \<in> cs_votes cs"
    using assms(1-3) by (auto simp: election_inv_def messages_inv_def)
  let ?cs = "set_node i n cs"
  have inv: "election_inv S ?cs" using inv_set_node [OF assms(1,4) n] .
  have "tasks_inv S (?cs\<lparr>cs_task := (cs_task cs)(i := map_option (\<lambda>task. receive_vote task (rv_Term req) granted)
      (cs_task cs i)), cs_claim := cs_claim ?cs\<rparr>)"
    using inv g unfolding election_inv_def tasks_inv_def
    by (auto simp: receive_vote_def backed_def split: if_splits)
  from inv_tasks [OF inv this] show ?thesis by simp
qed

lemma count_bound:
  assumes "node_inv S i n" "countVote t (votesNeeded ps) n = (n', True)" "length ps = card S - 1"
  shows "card S - 1 \<le> 3"
proof -
  let ?e = "fst (AddVote '''' (nd_electionState n))"
  have ok: "election_state_ok ?e"
    using assms(1) by (intro election_state_ok_add) (simp add: node_inv_def node_ok_def)
  have "dom (es_VotesReceived ?e) \<subseteq> {i, ''''}"
    using assms(1) by (auto simp: node_inv_def AddVote_def split: if_splits)
  then have "card (dom (es_VotesReceived ?e)) \<le> card {i, ''''}" by (intro card_mono) auto
  also have "\<dots> \<le> 2" by (simp add: card_insert_if)
  finally have "es_VoteCount ?e \<le> 2" using ok by (simp add: election_state_ok_def)
  moreover have "votesNeeded ps \<le> es_VoteCount ?e"
    using assms(2) by (auto simp: countVote_def Let_def)
  ultimately show ?thesis using votesNeeded_two [of ps] assms(3) by simp
qed

lemma node_inv_count:
  assumes "node_inv S i n" "countVote t needed n = (n', won)"
  shows "node_inv S i n'"
proof -
  have n': "n' = n\<lparr>nd_electionState := fst (AddVote '''' (nd_electionState n))\<rparr>"
    using assms(2) by (auto simp: countVote_def Let_def)
  show ?thesis
    using assms(1) election_state_ok_add [of "nd_electionState n" "''''"]
    by (auto simp: node_inv_def node_ok_def n' AddVote_def split: if_splits)
qed

lemma inv_count:
  assumes "election_inv S cs" "i \<in> S" "cs_task cs i = Some (e, True # votes)"
    and "countVote (el_term e) (votesNeeded (el_peers e)) (cs_nodes cs i) = (n, won)"
  shows "election_inv S (set_node i n cs
     \<lparr>cs_task := (cs_task cs)(i := if won then None else Some (e, votes)),
      cs_claim := (cs_claim cs)(i := if won then Some (el_term e) else cs_claim cs i)\<rparr>)"
proof -
  have inv: "node_inv S i (cs_nodes cs i)" using assms(1,2) by (auto simp: election_inv_def nodes_inv_def)
  have n: "nd_state n = nd_state (cs_nodes cs i)" "nd_serverState n = nd_serverState (cs_nodes cs i)"
    using assms(4) by (auto simp: countVote_def Let_def)
  have task: "length (el_peers e) = card S - 1" "backed cs i (el_term e)" "(i, el_term e, i) \<in> cs_votes cs"
    using assms(1-3) by (auto simp: election_inv_def tasks_inv_def)
  let ?cs = "set_node i n cs"
  have i': "election_inv S ?cs"
    using assms(1,2) node_inv_count [OF inv assms(4)] n
    by (auto simp: election_inv_def nodes_inv_def votes_inv_def unique_inv_def messages_inv_def tasks_inv_def
        leaders_inv_def backed_def voted_by_def)
  have "won \<longrightarrow> card S - 1 \<le> 3" using count_bound [OF inv _ task(1)] assms(4) by auto
  then have "tasks_inv S (?cs\<lparr>cs_task := (cs_task cs)(i := if won then None else Some (e, votes)),
      cs_claim := (cs_claim cs)(i := if won then Some (el_term e) else cs_claim cs i)\<rparr>)"
    using i' task assms(3) unfolding election_inv_def tasks_inv_def
    by (auto simp: backed_def split: if_splits)
  from inv_tasks [OF i' this] show ?thesis by simp
qed

lemma inv_claim:
  assumes "election_inv S cs" "i \<in> S" "cs_claim cs i = Some t"
  shows "election_inv S (set_node i (claimLeadership t (cs_nodes cs i)) cs
     \<lparr>cs_claim := (cs_claim cs)(i := None)\<rparr>)"
proof -
  let ?n = "cs_nodes cs i" and ?n' = "claimLeadership t (cs_nodes cs i)"
  have inv: "node_inv S i ?n" using assms(1,2) by (auto simp: election_inv_def nodes_inv_def)
  have claim: "backed cs i t" "card S - 1 \<le> 3" using assms by (auto simp: election_inv_def tasks_inv_def)
  have "node_inv S i ?n'"
    using inv by (auto simp: claimLeadership_def node_inv_def becomeLeader_ok)
  moreover have "nd_serverState ?n' = nd_serverState ?n" by (simp add: claimLeadership_def)
  moreover have "nd_state ?n' = Leader \<longrightarrow> nd_state ?n = Leader \<or> nd_term ?n = t"
    by (auto simp: claimLeadership_def)
  ultimately have i': "election_inv S (set_node i ?n' cs)"
    using assms(1,2) claim
    by (auto simp: election_inv_def nodes_inv_def votes_inv_def unique_inv_def messages_inv_def tasks_inv_def
        leaders_inv_def backed_def voted_by_def)
  have "tasks_inv S (set_node i ?n' cs\<lparr>cs_task := cs_task cs, cs_claim := (cs_claim cs)(i := None)\<rparr>)"
    using i' by (auto simp: election_inv_def tasks_inv_def backed_def)
  from inv_tasks [OF i' this] show ?thesis by simp
qed


lemma inv_node_ok: "election_inv S cs \<Longrightarrow> i \<in> S \<Longrightarrow> node_ok (cs_nodes cs i)"
  by (auto simp: election_inv_def nodes_inv_def node_inv_def)

lemma inv_send:
  assumes "election_inv S cs" "i \<in> S"
  shows "election_inv S
     (cs\<lparr>cs_requests := insert (sendRequestVote_request (cs_nodes cs i) e) (cs_requests cs)\<rparr>)"
  using assms
  by (auto simp: election_inv_def nodes_inv_def votes_inv_def unique_inv_def messages_inv_def
      tasks_inv_def leaders_inv_def backed_def sendRequestVote_request_def node_inv_def)

lemma cluster_step_inv: "cluster_step S cs cs' \<Longrightarrow> election_inv S cs \<Longrightarrow> election_inv S cs'"
proof (induction rule: cluster_step.induct)
  case (timeout i cs now n e)
  then show ?case by (intro inv_timeout)
next
  case (send i cs e votes)
  then show ?case by (intro inv_send)
next
  case (vote v req cs n resp)
  then show ?case by (intro inv_vote)
next
  case (response v req resp cs i n granted)
  then show ?case by (intro inv_response)
next
  case (count i cs e votes n won)
  then show ?case by (intro inv_count)
next
  case (skip i cs e votes)
  then have "tasks_inv S (cs\<lparr>cs_task := (cs_task cs)(i \<mapsto> (e, votes)), cs_claim := cs_claim cs\<rparr>)"
    by (auto simp: election_inv_def tasks_inv_def backed_def)
  from inv_tasks [OF skip.prems this] show ?case by simp
next
  case (finish i cs)
  then have "tasks_inv S (cs\<lparr>cs_task := (cs_task cs)(i := None), cs_claim := cs_claim cs\<rparr>)"
    by (auto simp: election_inv_def tasks_inv_def backed_def)
  from inv_tasks [OF finish.prems this] show ?case by simp
next
  case (claim i cs t)
  then show ?case by (intro inv_claim)
next
  case (append i req cs)
  then show ?case by (intro inv_set_node vote_neutral_append inv_node_ok)
next
  case (append_response i cs peer areq aresp)
  then show ?case by (intro inv_set_node vote_neutral_append_response)
next
  case (heartbeat_response i cs peer t aresp)
  then show ?case by (intro inv_set_node vote_neutral_heartbeat_response)
next
  case (client i cs data ty)
  then show ?case by (intro inv_set_node vote_neutral_client)
next
  case (no_op i cs)
  then show ?case unfolding appendNoOpEntry_eq by (intro inv_set_node vote_neutral_client)
next
  case (install i cs ireq)
  then show ?case by (intro inv_set_node vote_neutral_install)
next
  case (applying i cs f)
  then show ?case by (intro inv_set_node vote_neutral_applying)
qed

lemma initial_inv: "initial_cluster S cs \<Longrightarrow> election_inv S cs"
  by (auto simp: initial_cluster_def fresh_node_def election_inv_def nodes_inv_def node_inv_def
      votes_inv_def unique_inv_def messages_inv_def tasks_inv_def leaders_inv_def)

lemma reachable_inv: "reachable S cs \<Longrightarrow> election_inv S cs \<and> finite S"
proof -
  assume "reachable S cs"
  then obtain cs0 where cs0: "initial_cluster S cs0" "(cluster_step S)\<^sup>*\<^sup>* cs0 cs"
    by (auto simp: reachable_def)
  have "election_inv S cs" using cs0(2) initial_inv [OF cs0(1)]
    by (induction rule: rtranclp_induct) (auto intro: cluster_step_inv)
  with cs0(1) show ?thesis by (simp add: initial_cluster_def)
qed

lemma two_leaders_four:
  assumes "election_inv S cs" "finite S" "i \<in> S" "j \<in> S" "i \<noteq> j"
    and "nd_state (cs_nodes cs i) = Leader" "nd_state (cs_nodes cs j) = Leader"
    and "nd_term (cs_nodes cs i) = nd_term (cs_nodes cs j)"
  shows "card S = 4"
proof -
  let ?t = "nd_term (cs_nodes cs i)"
  have l: "backed cs i ?t" "backed cs j ?t" "card S - 1 \<le> 3"
    using assms by (auto simp: election_inv_def leaders_inv_def)
  obtain v where v: "v \<noteq> i" "(v, ?t, i) \<in> cs_votes cs" "(i, ?t, i) \<in> cs_votes cs"
    using l(1) by (auto simp: backed_def)
  obtain w where w: "w \<noteq> j" "(w, ?t, j) \<in> cs_votes cs" "(j, ?t, j) \<in> cs_votes cs"
    using l(2) by (auto simp: backed_def)
  have uniq: "c = c'" if "(x, ?t, c) \<in> cs_votes cs" "(x, ?t, c') \<in> cs_votes cs" for x c c'
    using that assms(1) by (auto simp: election_inv_def unique_inv_def)
  have "v \<noteq> j" "w \<noteq> i" "v \<noteq> w" using uniq v w assms(5) by blast+
  then have "card {i, v, j, w} = 4" using v(1) w(1) assms(5) by simp
  moreover have "{i, v, j, w} \<subseteq> S"
    using assms(1) v w by (auto simp: election_inv_def votes_inv_def)
  ultimately have "4 \<le> card S" using card_mono [OF assms(2)] by metis
  with l(3) show ?thesis by simp
qed


section \<open>A run that elects a leader\<close>

text \<open>A node as it starts: term 0, no vote, an empty log.\<close>

definition pristine :: "string set \<Rightarrow> string \<Rightarrow> 'sm Node \<Rightarrow> bool" where
  "pristine S i n \<longleftrightarrow> fresh_node S i n \<and> nd_serverState n = NewServerState"

definition first_request :: "string \<Rightarrow> RequestVoteRequest" where
  "first_request i = \<lparr>rv_Term = 1, rv_CandidateId = i, rv_LastLogIndex = 0, rv_LastLogTerm = 0\<rparr>"

lemma pristine_begin:
  assumes "pristine S i n"
  shows "startElection_begin now n = (becomeCandidate now n,
     \<lparr>el_term = 1, el_lastLogIndex = 0, el_lastLogTerm = 0, el_peers = nd_peers n\<rparr>)"
  using assms
  by (simp add: startElection_begin_eq pristine_def NewServerState_def LastLogIndexAndTerm_def)

lemma pristine_grants: "pristine S v n \<Longrightarrow> snd (requestVote (first_request i) n) = \<lparr>vr_Term = 1, vr_VoteGranted = True\<rparr>"
  by (simp add: requestVote_eq grants_def vote_free_def up_to_date_def first_request_def pristine_def
      NewServerState_def LastLogIndexAndTerm_def Let_def)

lemma pristine_wins:
  assumes "pristine S i n" "i \<noteq> ''''" "card S - 1 \<le> 3"
  shows "snd (countVote 1 (votesNeeded (nd_peers n)) (becomeCandidate now n))"
    and "nd_state (fst (countVote 1 (votesNeeded (nd_peers n)) (becomeCandidate now n))) = Candidate"
    and "nd_term (fst (countVote 1 (votesNeeded (nd_peers n)) (becomeCandidate now n))) = 1"
proof -
  have n: "nd_id n = i" "nd_term n = 0" "length (nd_peers n) \<le> 3"
    using assms(1,3) by (simp_all add: pristine_def fresh_node_def NewServerState_def)
  have needed: "votesNeeded (nd_peers n) \<le> 2" using votesNeeded_two [of "nd_peers n"] n(3) by simp
  show "nd_state (fst (countVote 1 (votesNeeded (nd_peers n)) (becomeCandidate now n))) = Candidate"
    "nd_term (fst (countVote 1 (votesNeeded (nd_peers n)) (becomeCandidate now n))) = 1"
    by (simp_all add: countVote_fields n)
  show "snd (countVote 1 (votesNeeded (nd_peers n)) (becomeCandidate now n))"
    using needed assms(2)
    by (simp add: countVote_def Let_def becomeCandidate_electionState n AddVote_def ElectionState_Reset_def)
qed

lemma elect:
  fixes cs :: "'sm cluster_state"
  assumes "i \<in> S" "v \<in> S" "i \<noteq> v" "i \<noteq> ''''" "card S - 1 \<le> 3"
    and "cs_task cs i = None" "cs_claim cs i = None"
    and "pristine S i (cs_nodes cs i)" "pristine S v (cs_nodes cs v)"
  shows "\<exists>cs'. (cluster_step S)\<^sup>*\<^sup>* cs cs' \<and>
     nd_state (cs_nodes cs' i) = Leader \<and> nd_term (cs_nodes cs' i) = 1 \<and>
     (\<forall>k. k \<noteq> i \<longrightarrow> k \<noteq> v \<longrightarrow> cs_nodes cs' k = cs_nodes cs k) \<and>
     (\<forall>k. k \<noteq> i \<longrightarrow> cs_task cs' k = cs_task cs k \<and> cs_claim cs' k = cs_claim cs k)"
proof -
  let ?n = "cs_nodes cs i" and ?v = "cs_nodes cs v"
  let ?e = "\<lparr>el_term = 1, el_lastLogIndex = 0, el_lastLogTerm = 0, el_peers = nd_peers ?n\<rparr>"
  let ?c = "becomeCandidate 0 ?n" and ?req = "first_request i"
  let ?resp = "\<lparr>vr_Term = 1, vr_VoteGranted = True\<rparr>" and ?v' = "fst (requestVote (first_request i) ?v)"
  let ?w = "fst (countVote 1 (votesNeeded (nd_peers ?n)) ?c)"
  have n: "nd_id ?n = i" "nd_term ?n = 0"
    using assms(8) by (simp_all add: pristine_def fresh_node_def NewServerState_def)
  define cs1 where "cs1 = set_node i ?c cs
    \<lparr>cs_task := (cs_task cs)(i \<mapsto> (?e, [])), cs_votes := insert (i, el_term ?e, i) (cs_votes cs)\<rparr>"
  have s1: "cluster_step S cs cs1"
    unfolding cs1_def
    by (rule cluster_step.timeout) (use assms n pristine_begin [OF assms(8)] in simp_all)
  define cs2 where "cs2 = cs1\<lparr>cs_requests := insert (sendRequestVote_request (cs_nodes cs1 i) ?e) (cs_requests cs1)\<rparr>"
  have s2: "cluster_step S cs1 cs2"
    unfolding cs2_def by (rule cluster_step.send) (simp_all add: assms cs1_def)
  have req: "sendRequestVote_request (cs_nodes cs1 i) ?e = ?req"
    by (simp add: cs1_def sendRequestVote_request_def first_request_def n)
  define cs3 where "cs3 = set_node v ?v' cs2
    \<lparr>cs_responses := insert (v, ?req, ?resp) (cs_responses cs2),
     cs_votes := (if vr_VoteGranted ?resp then {(v, rv_Term ?req, rv_CandidateId ?req)} else {}) \<union> cs_votes cs2\<rparr>"
  have s3: "cluster_step S cs2 cs3"
    unfolding cs3_def
  proof (rule cluster_step.vote)
    show "requestVote ?req (cs_nodes cs2 v) = (?v', ?resp)"
      using pristine_grants [OF assms(9), of i] assms(3)
      by (simp add: cs2_def cs1_def prod_eq_iff)
  qed (use assms req in \<open>simp_all add: cs2_def first_request_def\<close>)
  define cs4 where "cs4 = set_node i ?c cs3
    \<lparr>cs_task := (cs_task cs3)(i := map_option (\<lambda>task. receive_vote task (rv_Term ?req) True) (cs_task cs3 i))\<rparr>"
  have s4: "cluster_step S cs3 cs4"
    unfolding cs4_def
    by (rule cluster_step.response [of v ?req ?resp])
      (use assms n in \<open>simp_all add: cs3_def cs2_def cs1_def first_request_def sendRequestVote_response_def\<close>)
  have t4: "cs_task cs4 i = Some (?e, True # [])" "cs_nodes cs4 i = ?c" "cs_claim cs4 = cs_claim cs"
    by (simp_all add: cs4_def cs3_def cs2_def cs1_def receive_vote_def first_request_def)
  define cs5 where "cs5 = set_node i ?w cs4
    \<lparr>cs_task := (cs_task cs4)(i := if True then None else Some (?e, [])),
     cs_claim := (cs_claim cs4)(i := if True then Some (el_term ?e) else cs_claim cs4 i)\<rparr>"
  have s5: "cluster_step S cs4 cs5"
    unfolding cs5_def
    by (rule cluster_step.count [OF assms(1) t4(1)])
      (use pristine_wins(1) [OF assms(8,4,5), of 0] in \<open>simp add: t4 prod_eq_iff\<close>)
  define cs6 where "cs6 = set_node i (claimLeadership 1 (cs_nodes cs5 i)) cs5
    \<lparr>cs_claim := (cs_claim cs5)(i := None)\<rparr>"
  have s6: "cluster_step S cs5 cs6"
    unfolding cs6_def by (rule cluster_step.claim) (simp_all add: assms cs5_def)
  have steps: "(cluster_step S)\<^sup>*\<^sup>* cs cs6"
    using s1 s2 s3 s4 s5 s6 by (meson converse_rtranclp_into_rtranclp rtranclp.rtrancl_refl)
  have "nd_state (cs_nodes cs6 i) = Leader" "nd_term (cs_nodes cs6 i) = 1"
    using pristine_wins(2,3) [OF assms(8,4,5), of 0] by (simp_all add: cs6_def cs5_def claimLeadership_def)
  moreover have "cs_nodes cs6 k = cs_nodes cs k" if "k \<noteq> i" "k \<noteq> v" for k
    using that by (simp add: cs6_def cs5_def cs4_def cs3_def cs2_def cs1_def)
  moreover have "cs_task cs6 k = cs_task cs k \<and> cs_claim cs6 k = cs_claim cs k" if "k \<noteq> i" for k
    using that by (simp add: cs6_def cs5_def cs4_def cs3_def cs2_def cs1_def)
  ultimately show ?thesis using steps by blast
qed

text \<open>A cluster of nodes as the constructor returns them.\<close>

definition example_cluster :: "string list \<Rightarrow> unit cluster_state" where
  "example_cluster ids =
     \<lparr>cs_nodes = (\<lambda>i. example_node i (filter (\<lambda>j. j \<noteq> i) ids)), cs_task = Map.empty, cs_claim = Map.empty,
      cs_requests = {}, cs_responses = {}, cs_votes = {}\<rparr>"

lemma example_cluster_pristine:
  assumes "distinct ids" "'''' \<notin> set ids" "i \<in> set ids"
  shows "pristine (set ids) i (cs_nodes (example_cluster ids) i)"
proof -
  have "i \<noteq> ''''" using assms by auto
  moreover have "length (filter (\<lambda>j. j \<noteq> i) ids) = card (set ids) - 1"
  proof -
    have "length (filter (\<lambda>j. j \<noteq> i) ids) = card (set (filter (\<lambda>j. j \<noteq> i) ids))"
      by (rule distinct_card [symmetric]) (use assms(1) in simp)
    also have "set (filter (\<lambda>j. j \<noteq> i) ids) = set ids - {i}" by auto
    finally show ?thesis using assms(3) by (simp add: card_Diff_singleton)
  qed
  ultimately show ?thesis
    by (simp add: pristine_def fresh_node_def example_cluster_def example_node_fields example_node_ok
        NewElectionState_def)
qed

lemma example_cluster_initial:
  "distinct ids \<Longrightarrow> '''' \<notin> set ids \<Longrightarrow> initial_cluster (set ids) (example_cluster ids)"
  using example_cluster_pristine [of ids]
  by (auto simp: initial_cluster_def pristine_def) (simp_all add: example_cluster_def)

lemma example_cluster_reachable:
  "distinct ids \<Longrightarrow> '''' \<notin> set ids \<Longrightarrow> reachable (set ids) (example_cluster ids)"
  unfolding reachable_def using example_cluster_initial by blast

lemma three_node_leader:
  obtains cs :: "unit cluster_state" where "reachable {''a'', ''b'', ''c''} cs"
    "nd_state (cs_nodes cs ''a'') = Leader" "nd_term (cs_nodes cs ''a'') = 1"
proof -
  let ?ids = "[''a'', ''b'', ''c'']"
  let ?cs = "example_cluster ?ids"
  have p: "pristine (set ?ids) i (cs_nodes ?cs i)" if "i \<in> set ?ids" for i
    using that by (intro example_cluster_pristine) simp_all
  have none: "cs_task ?cs i = None" "cs_claim ?cs i = None" for i by (simp_all add: example_cluster_def)
  have "\<exists>cs'. (cluster_step (set ?ids))\<^sup>*\<^sup>* ?cs cs' \<and>
     nd_state (cs_nodes cs' ''a'') = Leader \<and> nd_term (cs_nodes cs' ''a'') = 1 \<and>
     (\<forall>k. k \<noteq> ''a'' \<longrightarrow> k \<noteq> ''b'' \<longrightarrow> cs_nodes cs' k = cs_nodes ?cs k) \<and>
     (\<forall>k. k \<noteq> ''a'' \<longrightarrow> cs_task cs' k = cs_task ?cs k \<and> cs_claim cs' k = cs_claim ?cs k)"
    by (rule elect) (use p none in simp_all)
  then obtain cs where cs: "(cluster_step (set ?ids))\<^sup>*\<^sup>* ?cs cs"
    "nd_state (cs_nodes cs ''a'') = Leader" "nd_term (cs_nodes cs ''a'') = 1"
    by (elim exE conjE) (rule that)
  have "reachable (set ?ids) cs"
    unfolding reachable_def using example_cluster_initial [of ?ids] cs(1)
    by (intro exI [of _ ?cs]) simp
  then show thesis using cs(2,3) by (intro that [of cs]) simp_all
qed

section \<open>Properties\<close>

text \<open>C1: Election safety. In every reachable state of a cluster of any size but four, two
  nodes that are leader in the same term are the same node, whatever the interleaving of
  elections, votes, AppendEntries traffic and client commands, and however messages are
  delayed, repeated or lost.\<close>

theorem election_safety:
  assumes "reachable S cs" "card S \<noteq> 4" "i \<in> S" "j \<in> S"
    and "nd_state (cs_nodes cs i) = Leader" "nd_state (cs_nodes cs j) = Leader"
    and "nd_term (cs_nodes cs i) = nd_term (cs_nodes cs j)"
  shows "i = j"
  using reachable_inv [OF assms(1)] two_leaders_four [of S cs i j] assms(2-7) by blast

theorem election_safety_witness:
  "\<exists>cs :: unit cluster_state. reachable {''a'', ''b'', ''c''} cs \<and>
     {j \<in> {''a'', ''b'', ''c''}. nd_state (cs_nodes cs j) = Leader \<and> nd_term (cs_nodes cs j) = 1} = {''a''}"
proof -
  obtain cs :: "unit cluster_state" where cs: "reachable {''a'', ''b'', ''c''} cs"
    "nd_state (cs_nodes cs ''a'') = Leader" "nd_term (cs_nodes cs ''a'') = 1"
    by (rule three_node_leader)
  have "j = ''a''" if "j \<in> {''a'', ''b'', ''c''}" "nd_state (cs_nodes cs j) = Leader" "nd_term (cs_nodes cs j) = 1" for j
    by (rule election_safety [OF cs(1)]) (use cs that in simp_all)
  then have "{j \<in> {''a'', ''b'', ''c''}. nd_state (cs_nodes cs j) = Leader \<and> nd_term (cs_nodes cs j) = 1} = {''a''}"
    using cs(2,3) by auto
  with cs(1) show ?thesis by blast
qed

text \<open>C14: The well-formedness of a node is an invariant of the cluster. In every reachable
  state the configuration of a node validates, its log holds the indices from one on without
  gap, it has the leader's bookkeeping exactly when it leads, a candidate or leader voted for
  itself, and its vote count and election timer are consistent.\<close>

theorem reachable_nodes_well_formed:
  assumes "reachable S cs" "i \<in> S"
  shows "node_ok (cs_nodes cs i)"
  using assms reachable_inv inv_node_ok by blast

theorem reachable_nodes_well_formed_witness:
  "\<exists>cs :: unit cluster_state. reachable {''a'', ''b'', ''c''} cs \<and>
     nd_state (cs_nodes cs ''a'') = Leader \<and> node_ok (cs_nodes cs ''a'')"
proof -
  obtain cs :: "unit cluster_state" where cs: "reachable {''a'', ''b'', ''c''} cs"
    "nd_state (cs_nodes cs ''a'') = Leader" "nd_term (cs_nodes cs ''a'') = 1"
    by (rule three_node_leader)
  have "node_ok (cs_nodes cs ''a'')" by (rule reachable_nodes_well_formed [OF cs(1)]) simp
  with cs(1,2) show ?thesis by blast
qed

text \<open>C37: No election in a cluster of five or more nodes, or of a single node, ever
  produces a leader: every state reachable from the start is leaderless.\<close>

theorem no_leader_in_large_clusters:
  assumes "reachable S cs" "5 \<le> card S \<or> card S = 1" "i \<in> S"
  shows "nd_state (cs_nodes cs i) \<noteq> Leader"
proof
  assume leader: "nd_state (cs_nodes cs i) = Leader"
  have inv: "election_inv S cs" "finite S" using reachable_inv [OF assms(1)] by auto
  then have b: "backed cs i (nd_term (cs_nodes cs i))" "card S - 1 \<le> 3"
    using assms(3) leader by (auto simp: election_inv_def leaders_inv_def)
  then obtain v where "v \<noteq> i" "v \<in> S" using inv(1) by (auto simp: backed_def election_inv_def votes_inv_def)
  then have "card S \<noteq> 1" using assms(3) by (metis card_1_singletonE singletonD)
  with assms(2) b(2) show False by linarith
qed

theorem no_leader_in_large_clusters_witness:
  "nd_state (cs_nodes (example_cluster [''a'', ''b'', ''c'', ''d'', ''e'']) ''a'') \<noteq> Leader"
proof -
  have "reachable (set [''a'', ''b'', ''c'', ''d'', ''e'']) (example_cluster [''a'', ''b'', ''c'', ''d'', ''e''])"
    by (rule example_cluster_reachable) simp_all
  then show ?thesis by (rule no_leader_in_large_clusters) simp_all
qed

text \<open>C39: In a cluster of four nodes two of them can be leader in the same term: each needs
  one vote besides its own, so the votes of the other two suffice for both.\<close>

theorem two_leaders_in_cluster_of_four:
  "\<exists>S (cs :: unit cluster_state) i j. card S = 4 \<and> reachable S cs \<and> i \<in> S \<and> j \<in> S \<and> i \<noteq> j \<and>
     nd_state (cs_nodes cs i) = Leader \<and> nd_state (cs_nodes cs j) = Leader \<and>
     nd_term (cs_nodes cs i) = nd_term (cs_nodes cs j)"
proof -
  let ?ids = "[''n1'', ''n2'', ''n3'', ''n4'']"
  let ?S = "set ?ids" and ?cs = "example_cluster [''n1'', ''n2'', ''n3'', ''n4'']"
  have card: "card ?S = 4" by simp
  have p: "pristine ?S i (cs_nodes ?cs i)" if "i \<in> ?S" for i
    using that by (intro example_cluster_pristine) simp_all
  have none: "cs_task ?cs i = None" "cs_claim ?cs i = None" for i by (simp_all add: example_cluster_def)
  have "\<exists>cs'. (cluster_step ?S)\<^sup>*\<^sup>* ?cs cs' \<and>
     nd_state (cs_nodes cs' ''n1'') = Leader \<and> nd_term (cs_nodes cs' ''n1'') = 1 \<and>
     (\<forall>k. k \<noteq> ''n1'' \<longrightarrow> k \<noteq> ''n3'' \<longrightarrow> cs_nodes cs' k = cs_nodes ?cs k) \<and>
     (\<forall>k. k \<noteq> ''n1'' \<longrightarrow> cs_task cs' k = cs_task ?cs k \<and> cs_claim cs' k = cs_claim ?cs k)"
    by (rule elect) (use p none card in simp_all)
  then obtain cs1 where cs1: "(cluster_step ?S)\<^sup>*\<^sup>* ?cs cs1"
    "nd_state (cs_nodes cs1 ''n1'') = Leader" "nd_term (cs_nodes cs1 ''n1'') = 1"
    "\<forall>k. k \<noteq> ''n1'' \<longrightarrow> k \<noteq> ''n3'' \<longrightarrow> cs_nodes cs1 k = cs_nodes ?cs k"
    "\<forall>k. k \<noteq> ''n1'' \<longrightarrow> cs_task cs1 k = cs_task ?cs k \<and> cs_claim cs1 k = cs_claim ?cs k"
    by (elim exE conjE) (rule that)
  have q: "cs_nodes cs1 ''n2'' = cs_nodes ?cs ''n2''" "cs_nodes cs1 ''n4'' = cs_nodes ?cs ''n4''"
    by (rule cs1(4) [rule_format]; simp)+
  have none1: "cs_task cs1 ''n2'' = None" "cs_claim cs1 ''n2'' = None"
    using cs1(5) [rule_format, of "''n2''"] none by simp_all
  have "\<exists>cs'. (cluster_step ?S)\<^sup>*\<^sup>* cs1 cs' \<and>
     nd_state (cs_nodes cs' ''n2'') = Leader \<and> nd_term (cs_nodes cs' ''n2'') = 1 \<and>
     (\<forall>k. k \<noteq> ''n2'' \<longrightarrow> k \<noteq> ''n4'' \<longrightarrow> cs_nodes cs' k = cs_nodes cs1 k) \<and>
     (\<forall>k. k \<noteq> ''n2'' \<longrightarrow> cs_task cs' k = cs_task cs1 k \<and> cs_claim cs' k = cs_claim cs1 k)"
    by (rule elect) (use p q none1 card in simp_all)
  then obtain cs2 where cs2: "(cluster_step ?S)\<^sup>*\<^sup>* cs1 cs2"
    "nd_state (cs_nodes cs2 ''n2'') = Leader" "nd_term (cs_nodes cs2 ''n2'') = 1"
    "\<forall>k. k \<noteq> ''n2'' \<longrightarrow> k \<noteq> ''n4'' \<longrightarrow> cs_nodes cs2 k = cs_nodes cs1 k"
    by (elim exE conjE) (rule that)
  have r: "cs_nodes cs2 ''n1'' = cs_nodes cs1 ''n1''" by (rule cs2(4) [rule_format]; simp)
  have "reachable ?S cs2"
    using cs1(1) cs2(1) example_cluster_initial [of ?ids] unfolding reachable_def
    by (intro exI [of _ ?cs]) auto
  then show ?thesis using card cs1(2,3) cs2(2,3) r
    by (intro exI [of _ ?S] exI [of _ cs2] exI [of _ "''n1''"] exI [of _ "''n2''"]) simp
qed

end
