(* ===== verification/LogMatching.thy ===== *)
theory LogMatching
  imports RaftCluster
begin

text \<open>
  The logs of a cluster. The replication of \<open>src/pkg/raft/replication.go\<close> checks that the
  node leads, releases the lock, and builds the request under the lock again; both are steps
  here, as are commands, and the delivery of a request to its peer. All other handlers take part
  as the steps of \<open>RaftCluster\<close> that leave the logs alone.
\<close>

section \<open>Steps\<close>

text \<open>
  \<open>lg_senders\<close> are the goroutines that have passed the check; a request carries the log it
  was built from, which no step reads.
\<close>

record 'sm log_state =
  lg_cluster :: "'sm cluster_state"
  lg_senders :: "(string \<times> Peer) set"
  lg_requests :: "(string \<times> AppendEntriesRequest \<times> LogEntry list) set"

abbreviation lg_node :: "'sm log_state \<Rightarrow> string \<Rightarrow> 'sm Node" where
  "lg_node ls i \<equiv> cs_nodes (lg_cluster ls) i"

text \<open>\<open>held\<close>: the lock is kept from the check to the end of the construction.\<close>

inductive log_step :: "bool \<Rightarrow> string set \<Rightarrow> 'sm log_state \<Rightarrow> 'sm log_state \<Rightarrow> bool"
  for held :: bool and S :: "string set" where
  quiet: "cluster_step S (lg_cluster ls) cs \<Longrightarrow> (\<And>i. i \<in> S \<Longrightarrow> nd_log (cs_nodes cs i) = nd_log (lg_node ls i)) \<Longrightarrow>
    log_step held S ls (ls\<lparr>lg_cluster := cs\<rparr>)"
| command: "i \<in> S \<Longrightarrow> Suc (length (nd_log (lg_node ls i))) < 2 ^ 63 \<Longrightarrow>
    log_step held S ls (ls\<lparr>lg_cluster := set_node i (fst (AppendLogEntry data ty (lg_node ls i))) (lg_cluster ls)\<rparr>)"
| check: "i \<in> S \<Longrightarrow> peer \<in> set (replicateToAll_peers (lg_node ls i)) \<Longrightarrow>
    log_step held S ls (ls\<lparr>lg_senders := insert (i, peer) (lg_senders ls)\<rparr>)"
| build: "i \<in> S \<Longrightarrow> (i, peer) \<in> lg_senders ls \<Longrightarrow> held \<longrightarrow> nd_state (lg_node ls i) = Leader \<Longrightarrow>
    buildAppendEntriesRequest (pr_ID peer) (lg_node ls i) = Inr req \<Longrightarrow>
    log_step held S ls
      (ls\<lparr>lg_requests := insert (pr_ID peer, req, nd_log (lg_node ls i)) (lg_requests ls)\<rparr>)"
| deliver: "k \<in> S \<Longrightarrow> (k, req, l) \<in> lg_requests ls \<Longrightarrow> k \<noteq> ae_LeaderId req \<Longrightarrow>
    log_step held S ls (ls\<lparr>lg_cluster := set_node k (fst (processAppendEntries req (lg_node ls k))) (lg_cluster ls)\<rparr>)"

definition log_reachable :: "bool \<Rightarrow> string set \<Rightarrow> 'sm log_state \<Rightarrow> bool" where
  "log_reachable held S ls \<longleftrightarrow>
     (\<exists>ls0. initial_cluster S (lg_cluster ls0) \<and> (\<forall>i \<in> S. nd_log (lg_node ls0 i) = []) \<and>
        lg_senders ls0 = {} \<and> lg_requests ls0 = {} \<and> (log_step held S)\<^sup>*\<^sup>* ls0 ls)"

section \<open>Leaders\<close>

text \<open>What a handler does to the leadership of a node.\<close>

definition lead_step :: "'sm Node \<Rightarrow> 'sm Node \<Rightarrow> bool" where
  "lead_step n n' \<longleftrightarrow>
     nd_term n \<le> nd_term n' \<and>
     (nd_state n = Leader \<longrightarrow> nd_term n' = nd_term n \<longrightarrow> nd_state n' = Leader) \<and>
     (nd_state n' = Leader \<longrightarrow> nd_term n' = nd_term n)"

definition leaders_step :: "string set \<Rightarrow> 'sm cluster_state \<Rightarrow> 'sm cluster_state \<Rightarrow> bool" where
  "leaders_step S cs cs' \<longleftrightarrow>
     cs_votes cs \<subseteq> cs_votes cs' \<and> (\<forall>i \<in> S. lead_step (cs_nodes cs i) (cs_nodes cs' i))"

lemma lead_step_refl [simp]: "lead_step n n"
  by (simp add: lead_step_def)

lemma leaders_step_set_node:
  "lead_step (cs_nodes cs i) n \<Longrightarrow> leaders_step S cs (set_node i n cs)"
  by (simp add: leaders_step_def)

lemma lead_step_stepDown: "nd_term n < t \<Longrightarrow> lead_step n (stepDown t n)"
  by (auto simp: lead_step_def max_def)

lemma lead_step_on_leaderState [simp]: "lead_step n (on_leaderState f n)"
  by (simp add: lead_step_def)

lemma lead_step_tryAdvance [simp]: "lead_step n (tryAdvanceCommitIndex (on_leaderState f (on_leaderState g n)))"
  by (simp add: lead_step_def frame_simps)

lemma lead_step_handlers:
  "lead_step n (fst (requestVote req n))"
  "lead_step n (fst (sendRequestVote_response t resp n))"
  "lead_step n (fst (handleAppendEntriesResponse peer areq aresp n))"
  "lead_step n (sendHeartbeatToPeer_response peer t aresp n)"
  "lead_step n (fst (AppendLogEntry data ty n))"
  "lead_step n (fst (HandleInstallSnapshot ireq n))"
  "lead_step n (claimLeadership t n)"
  "lead_step n (fst (countVote t needed n))"
proof -
  show "lead_step n (fst (requestVote req n))"
    by (auto simp: lead_step_def requestVote_term frame_simps max_def)
  show "lead_step n (fst (sendRequestVote_response t resp n))"
    by (simp add: sendRequestVote_response_def lead_step_stepDown)
  show "lead_step n (fst (handleAppendEntriesResponse peer areq aresp n))"
    by (simp add: handleAppendEntriesResponse_def Let_def lead_step_stepDown split: option.splits)
  show "lead_step n (sendHeartbeatToPeer_response peer t aresp n)"
    by (simp add: sendHeartbeatToPeer_response_def Let_def lead_step_stepDown split: option.splits)
  show "lead_step n (fst (AppendLogEntry data ty n))"
    by (simp add: lead_step_def) (simp add: AppendLogEntry_def case_prod_unfold Let_def AppendEntry_def)
  show "lead_step n (fst (HandleInstallSnapshot ireq n))"
    by (simp add: HandleInstallSnapshot_def Let_def lead_step_stepDown)
  show "lead_step n (claimLeadership t n)"
    by (simp add: claimLeadership_def lead_step_def)
  show "lead_step n (fst (countVote t needed n))"
    by (simp add: countVote_fields lead_step_def)
qed

lemma lead_step_begin: "nd_term n \<noteq> - 1 \<Longrightarrow> lead_step n (becomeCandidate now n)"
  using u64_less_add_one [of "nd_term n"] by (auto simp: lead_step_def)

lemma lead_step_applying: "lead_step n (applyCommittedEntries f n)"
  using applyCommitted_loop_frame [of f "unat (nd_commitIndex n - nd_lastApplied n)" "nd_lastApplied n + 1" n]
  by (simp add: applyCommittedEntries_def Let_def lead_step_def)

lemma lead_step_heardFrom: "nd_term n \<le> ae_Term req \<Longrightarrow> lead_step n (heardFrom req n)"
  by (auto simp: lead_step_def heardFrom_fields max_def)

text \<open>A request without entries needs no bound on its previous index.\<close>

definition deliverable :: "AppendEntriesRequest \<Rightarrow> bool" where
  "deliverable req \<longleftrightarrow> request_ok req \<or> ae_Entries req = []"

lemma deliverable_cases:
  assumes "deliverable req" "wf_log (nd_log n)"
  obtains "request_ok req" | "\<not> accepts req n"
proof (cases "request_ok req")
  case False
  then have "2 ^ 63 \<le> unat (ae_PrevLogIndex req)"
    using assms(1) by (auto simp: deliverable_def request_ok_def entries_at_def)
  moreover have "length (nd_log n) < 2 ^ 63" using assms(2) by (simp add: wf_log_def slice_ok_def)
  ultimately have "\<not> prev_matches req (nd_log n)" by (auto simp: prev_matches_def)
  then show ?thesis using that(2) by (simp add: accepts_def)
qed (use that in blast)

lemma deliver_log:
  assumes "node_ok n" "deliverable req"
  shows "nd_log (fst (processAppendEntries req n)) = (if accepts req n then merged_log req (nd_log n) else nd_log n)"
    and "lead_step n (fst (processAppendEntries req n))"
    and "vote_neutral n (fst (processAppendEntries req n))"
    and "nd_term (fst (processAppendEntries req n)) = max (nd_term n) (ae_Term req)"
proof -
  have wf: "wf_log (nd_log n)" using assms(1) by (simp add: node_ok_def)
  note rej = processAppendEntries_rejects [OF wf]
  show "nd_log (fst (processAppendEntries req n)) = (if accepts req n then merged_log req (nd_log n) else nd_log n)"
    by (rule deliverable_cases [OF assms(2) wf])
      (simp_all add: processAppendEntries_log [OF wf] rej heardFrom_fields)
  show "nd_term (fst (processAppendEntries req n)) = max (nd_term n) (ae_Term req)"
    by (rule deliverable_cases [OF assms(2) wf])
      (auto simp: processAppendEntries_term [OF wf] rej heardFrom_fields max_def)
  show "lead_step n (fst (processAppendEntries req n))"
  proof (rule deliverable_cases [OF assms(2) wf])
    assume ok: "request_ok req"
    show ?thesis
    proof (cases "accepts req n")
      case True
      then have "nd_term n \<le> ae_Term req" by (simp add: accepts_def)
      from lead_step_heardFrom [OF this] show ?thesis
        by (simp add: processAppendEntries_accepts [OF wf True ok] lead_step_def)
    qed (simp add: rej lead_step_heardFrom)
  qed (simp add: rej lead_step_heardFrom)
  show "vote_neutral n (fst (processAppendEntries req n))"
  proof (rule deliverable_cases [OF assms(2) wf])
    assume "\<not> accepts req n"
    then show ?thesis
      using heardFrom_ok [OF assms(1), of req]
      by (auto simp: rej vote_neutral_def heardFrom_fields max_def order_le_less)
  qed (rule vote_neutral_append [OF assms(1)])
qed

lemma cluster_step_leaders: "cluster_step S cs cs' \<Longrightarrow> election_inv S cs \<Longrightarrow> leaders_step S cs cs'"
proof (induction rule: cluster_step.induct)
  case (timeout i cs now n e)
  then have "n = becomeCandidate now (cs_nodes cs i)" by (simp add: startElection_begin_eq)
  with timeout show ?case by (auto simp: leaders_step_def lead_step_begin)
next
  case (vote v req cs n resp)
  then have "n = fst (requestVote req (cs_nodes cs v))" by simp
  then show ?case by (simp add: leaders_step_def lead_step_handlers)
next
  case (response v req resp cs i n granted)
  then have "n = fst (sendRequestVote_response (rv_Term req) resp (cs_nodes cs i))" by simp
  then show ?case by (simp add: leaders_step_def lead_step_handlers)
next
  case (count i cs e votes n won)
  then have "n = fst (countVote (el_term e) (votesNeeded (el_peers e)) (cs_nodes cs i))" by simp
  then show ?case by (simp add: leaders_step_def lead_step_handlers)
next
  case (append i req cs)
  then have "lead_step (cs_nodes cs i) (fst (processAppendEntries req (cs_nodes cs i)))"
    by (intro deliver_log inv_node_ok) (simp_all add: deliverable_def)
  then show ?case by (rule leaders_step_set_node)
qed (simp_all add: leaders_step_def lead_step_handlers lead_step_applying appendNoOpEntry_eq)

section \<open>Logs that match\<close>

text \<open>What two logs have to agree on; the type of an entry may change in transit.\<close>

definition entry_view :: "LogEntry \<Rightarrow> u64 \<times> u64 \<times> bytes" where
  "entry_view e = (le_Term e, le_Index e, le_Data e)"

definition logs_match :: "LogEntry list \<Rightarrow> LogEntry list \<Rightarrow> bool" where
  "logs_match l m \<longleftrightarrow>
     (\<forall>k. k < length l \<longrightarrow> k < length m \<longrightarrow> le_Term (l ! k) = le_Term (m ! k) \<longrightarrow>
        take (Suc k) (map entry_view l) = take (Suc k) (map entry_view m))"

definition view_prefix :: "LogEntry list \<Rightarrow> LogEntry list \<Rightarrow> bool" where
  "view_prefix l m \<longleftrightarrow> map entry_view l = take (length l) (map entry_view m)"

lemma view_prefix_refl [simp]: "view_prefix l l"
  by (simp add: view_prefix_def)

lemma view_prefix_nth:
  assumes "view_prefix l m" "k < length l"
  shows "k < length m \<and> le_Term (m ! k) = le_Term (l ! k)"
proof -
  have "length l = min (length l) (length m)"
    using assms(1) unfolding view_prefix_def by (metis length_map length_take min.commute)
  then have m: "k < length m" using assms(2) by linarith
  have "map entry_view l ! k = take (length l) (map entry_view m) ! k"
    using assms(1) by (simp add: view_prefix_def)
  with assms(2) m show ?thesis by (simp add: entry_view_def)
qed

lemma view_prefix_take:
  assumes "view_prefix l m" "k \<le> length l"
  shows "take k (map entry_view l) = take k (map entry_view m)"
proof -
  have "take k (map entry_view l) = take k (take (length l) (map entry_view m))"
    using assms(1) by (simp add: view_prefix_def)
  with assms(2) show ?thesis by (simp add: min_def)
qed

lemma logs_match_sym: "logs_match l m \<Longrightarrow> logs_match m l"
  by (auto simp: logs_match_def)

lemma logs_match_prefix:
  assumes "logs_match l m" "view_prefix l' l" "view_prefix m' m"
  shows "logs_match l' m'"
  unfolding logs_match_def
proof (intro allI impI)
  fix k assume k: "k < length l'" "k < length m'" "le_Term (l' ! k) = le_Term (m' ! k)"
  have "take (Suc k) (map entry_view l) = take (Suc k) (map entry_view m)"
    using assms(1) view_prefix_nth [OF assms(2) k(1)] view_prefix_nth [OF assms(3) k(2)] k(3)
    by (simp add: logs_match_def)
  then show "take (Suc k) (map entry_view l') = take (Suc k) (map entry_view m')"
    using view_prefix_take [OF assms(2), of "Suc k"] view_prefix_take [OF assms(3), of "Suc k"] k by simp
qed

text \<open>A merge keeps the old log, or cuts it where the terms part.\<close>

lemma merge_suffix_cases:
  "merge_suffix old new = old \<or>
   (\<exists>d \<le> length new. d \<le> length old \<and> (\<forall>k < d. le_Term (old ! k) = le_Term (new ! k)) \<and>
      merge_suffix old new = take d old @ drop d new)"
proof (induction old new rule: merge_suffix.induct)
  case (3 e old e' new)
  show ?case
  proof (cases "le_Term e = le_Term e'")
    case True
    from "3.IH" [OF this] show ?thesis
    proof (elim disjE exE conjE)
      fix d assume d: "d \<le> length new" "d \<le> length old" "\<forall>k < d. le_Term (old ! k) = le_Term (new ! k)"
        "merge_suffix old new = take d old @ drop d new"
      then have "\<forall>k < Suc d. le_Term ((e # old) ! k) = le_Term ((e' # new) ! k)"
        using True by (simp add: nth_Cons split: nat.split)
      with d True show ?thesis by (intro disjI2 exI [of _ "Suc d"]) simp
    qed (use True in simp)
  qed (intro disjI2 exI [of _ 0], simp)
qed auto

text \<open>\<open>built_from req l\<close>: the entries of the request are a part of \<open>l\<close>, behind the previous entry.\<close>

definition built_from :: "AppendEntriesRequest \<Rightarrow> LogEntry list \<Rightarrow> bool" where
  "built_from req l \<longleftrightarrow>
     (let p = unat (ae_PrevLogIndex req); m = length (ae_Entries req) in
      ae_Entries req = [] \<or>
      p + m \<le> length l \<and>
      map entry_view (ConvertFromProto (ae_Entries req)) = take m (drop p (map entry_view l)) \<and>
      (p \<noteq> 0 \<longrightarrow> ae_PrevLogTerm req = le_Term (l ! (p - 1))))"

lemma merged_log_empty: "ae_Entries req = [] \<Longrightarrow> merged_log req log = log"
  by (simp add: merged_log_def ConvertFromProto_def)

lemma merged_log_view:
  assumes "logs_match log l" "prev_matches req log" "built_from req l"
  shows "view_prefix (merged_log req log) log \<or> view_prefix (merged_log req log) l"
proof (cases "ae_Entries req = []")
  case False
  let ?p = "unat (ae_PrevLogIndex req)" and ?m = "length (ae_Entries req)"
  let ?new = "ConvertFromProto (ae_Entries req)"
  have b: "?p + ?m \<le> length l" "map entry_view ?new = take ?m (drop ?p (map entry_view l))"
    "?p \<noteq> 0 \<longrightarrow> ae_PrevLogTerm req = le_Term (l ! (?p - 1))"
    using assms(3) False by (simp_all add: built_from_def Let_def)
  have p: "?p \<le> length log" using assms(2) by (auto simp: prev_matches_def)
  have len: "length ?new = ?m" by (simp add: ConvertFromProto_def)
  have new: "le_Term (?new ! k) = le_Term (l ! (?p + k))" if "k < ?m" for k
  proof -
    have "map entry_view ?new ! k = take ?m (drop ?p (map entry_view l)) ! k" using b(2) by simp
    with that b(1) len show ?thesis by (simp add: entry_view_def)
  qed
  from merge_suffix_cases [of "drop ?p log" ?new] show ?thesis
  proof (elim disjE exE conjE)
    assume "merge_suffix (drop ?p log) ?new = drop ?p log"
    then show ?thesis by (simp add: merged_log_def)
  next
    fix d assume d: "d \<le> length ?new" "d \<le> length (drop ?p log)"
      "\<forall>k < d. le_Term (drop ?p log ! k) = le_Term (?new ! k)"
      "merge_suffix (drop ?p log) ?new = take d (drop ?p log) @ drop d ?new"
    have log: "merged_log req log = take (?p + d) log @ drop d ?new"
      using d(4) by (simp add: merged_log_def take_add)
    have same: "take (?p + d) (map entry_view log) = take (?p + d) (map entry_view l)"
    proof (cases "?p + d")
      case (Suc k)
      have "le_Term (log ! k) = le_Term (l ! k)"
      proof (cases d)
        case 0
        with Suc show ?thesis using b(3) assms(2) by (auto simp: prev_matches_def)
      next
        case (Suc j)
        then have "k = ?p + j" using \<open>?p + d = Suc k\<close> by simp
        then show ?thesis using d(1-3) new [of j] len Suc p by (auto simp: nth_drop)
      qed
      moreover have "k < length log" "k < length l" using Suc p d(1,2) b(1) len by auto
      ultimately show ?thesis using assms(1) Suc by (simp add: logs_match_def)
    qed simp
    have "map entry_view (drop d ?new) = drop d (take ?m (drop ?p (map entry_view l)))"
      using arg_cong [OF b(2), of "drop d"] by (simp only: drop_map)
    also have "\<dots> = take (?m - d) (drop (?p + d) (map entry_view l))"
      by (simp add: drop_take add.commute)
    finally have "map entry_view (merged_log req log) =
        take (?p + d) (map entry_view l) @ take (?m - d) (drop (?p + d) (map entry_view l))"
      using same by (simp add: log take_map)
    also have "\<dots> = take (?p + ?m) (map entry_view l)"
      using d(1) len take_add [of "?p + d" "?m - d" "map entry_view l"] by simp
    finally have v: "map entry_view (merged_log req log) = take (?p + ?m) (map entry_view l)" .
    then have "length (merged_log req log) = ?p + ?m"
      using b(1) by (metis length_map length_take min.absorb2)
    with v show ?thesis by (simp add: view_prefix_def)
  qed
qed (simp add: merged_log_empty)

section \<open>The invariant\<close>

text \<open>
  \<open>author cs j t\<close>: the node has been elected in the term, and has not been anything but
  its leader in it since.
\<close>

definition author :: "'sm cluster_state \<Rightarrow> string \<Rightarrow> u64 \<Rightarrow> bool" where
  "author cs j t \<longleftrightarrow>
     backed cs j t \<and>
     (t < nd_term (cs_nodes cs j) \<or> t = nd_term (cs_nodes cs j) \<and> nd_state (cs_nodes cs j) = Leader)"

definition log_inv :: "string set \<Rightarrow> 'sm cluster_state \<Rightarrow> LogEntry list set \<Rightarrow> bool" where
  "log_inv S cs A \<longleftrightarrow>
     election_inv S cs \<and> (\<forall>i \<in> S. nd_log (cs_nodes cs i) \<in> A) \<and>
     (\<forall>l \<in> A. \<forall>m \<in> A. logs_match l m) \<and>
     (\<forall>l \<in> A. \<forall>k < length l. \<exists>j \<in> S. author cs j (le_Term (l ! k))) \<and>
     (\<forall>i \<in> S. nd_state (cs_nodes cs i) = Leader \<longrightarrow>
        (\<forall>l \<in> A. \<forall>k < length l. le_Term (l ! k) = nd_term (cs_nodes cs i) \<longrightarrow> k < length (nd_log (cs_nodes cs i))))"

lemma backed_twice:
  assumes "election_inv S cs" "finite S" "backed cs i t" "backed cs j t" "i \<noteq> j"
  shows "4 \<le> card S"
proof -
  obtain v where v: "v \<noteq> i" "(v, t, i) \<in> cs_votes cs" "(i, t, i) \<in> cs_votes cs"
    using assms(3) by (auto simp: backed_def)
  obtain w where w: "w \<noteq> j" "(w, t, j) \<in> cs_votes cs" "(j, t, j) \<in> cs_votes cs"
    using assms(4) by (auto simp: backed_def)
  have uniq: "c = c'" if "(x, t, c) \<in> cs_votes cs" "(x, t, c') \<in> cs_votes cs" for x c c'
    using that assms(1) by (auto simp: election_inv_def unique_inv_def)
  have "v \<noteq> j" "w \<noteq> i" "v \<noteq> w" using uniq v w assms(5) by blast+
  then have "card {i, v, j, w} = 4" using v(1) w(1) assms(5) by simp
  moreover have "{i, v, j, w} \<subseteq> S" using assms(1) v w by (auto simp: election_inv_def votes_inv_def)
  ultimately show ?thesis using card_mono [OF assms(2)] by metis
qed

lemma leader_backed:
  assumes "election_inv S cs" "i \<in> S" "nd_state (cs_nodes cs i) = Leader"
  shows "backed cs i (nd_term (cs_nodes cs i)) \<and> card S \<le> 4"
  using assms by (auto simp: election_inv_def leaders_inv_def)

lemma backed_leader:
  assumes "election_inv S cs" "finite S" "card S \<noteq> 4" "i \<in> S" "nd_state (cs_nodes cs i) = Leader"
    and "backed cs j (nd_term (cs_nodes cs i))"
  shows "j = i"
  using backed_twice [OF assms(1,2) _ assms(6), of i] leader_backed [OF assms(1,4,5)] assms(3) by force

lemma author_step: "leaders_step S cs cs' \<Longrightarrow> j \<in> S \<Longrightarrow> author cs j t \<Longrightarrow> author cs' j t"
proof -
  assume step: "leaders_step S cs cs'" "j \<in> S" "author cs j t"
  let ?n = "cs_nodes cs j" and ?n' = "cs_nodes cs' j"
  have l: "nd_term ?n \<le> nd_term ?n'" "nd_state ?n = Leader \<longrightarrow> nd_term ?n' = nd_term ?n \<longrightarrow> nd_state ?n' = Leader"
    using step(1,2) by (auto simp: leaders_step_def lead_step_def)
  have "backed cs' j t" using step backed_votes [of cs cs' j t] by (auto simp: leaders_step_def author_def)
  moreover have "t < nd_term ?n' \<or> t = nd_term ?n' \<and> nd_state ?n' = Leader"
  proof (cases "t < nd_term ?n")
    case False
    then have "t = nd_term ?n" "nd_state ?n = Leader" using step(3) by (auto simp: author_def)
    with l show ?thesis by (auto simp: order_le_less)
  qed (use l(1) in auto)
  ultimately show ?thesis by (simp add: author_def)
qed

text \<open>
  A step that makes no entries: every log after it is the beginning of one before, and leaders
  keep theirs.
\<close>

lemma log_inv_step:
  assumes "log_inv S cs A" "finite S" "card S \<noteq> 4" "election_inv S cs'" "leaders_step S cs cs'"
    and "\<And>l. l \<in> A' \<Longrightarrow> \<exists>m \<in> A. view_prefix l m" "\<And>i. i \<in> S \<Longrightarrow> nd_log (cs_nodes cs' i) \<in> A'"
    and "\<And>i. i \<in> S \<Longrightarrow> nd_state (cs_nodes cs' i) = Leader \<Longrightarrow> nd_log (cs_nodes cs' i) = nd_log (cs_nodes cs i)"
  shows "log_inv S cs' A'"
proof -
  have "logs_match l m" if "l \<in> A'" "m \<in> A'" for l m
    using assms(1) assms(6) [OF that(1)] assms(6) [OF that(2)] logs_match_prefix
    unfolding log_inv_def by metis
  moreover have author: "\<exists>j \<in> S. author cs j (le_Term (l ! k))" if "l \<in> A'" "k < length l" for l k
    using assms(1) assms(6) [OF that(1)] view_prefix_nth that(2) unfolding log_inv_def by metis
  moreover have "k < length (nd_log (cs_nodes cs' i))"
    if i: "i \<in> S" "nd_state (cs_nodes cs' i) = Leader" and l: "l \<in> A'" "k < length l"
      "le_Term (l ! k) = nd_term (cs_nodes cs' i)" for i l k
  proof -
    have t: "nd_term (cs_nodes cs' i) = nd_term (cs_nodes cs i)"
      using assms(5) i by (auto simp: leaders_step_def lead_step_def)
    obtain j where j: "j \<in> S" "author cs j (le_Term (l ! k))" using author [OF l(1,2)] by blast
    then have "backed cs' j (nd_term (cs_nodes cs' i))"
      using author_step [OF assms(5)] l(3) by (auto simp: author_def)
    then have "j = i" using backed_leader [OF assms(4,2,3) i] by blast
    then have "nd_state (cs_nodes cs i) = Leader" using j(2) l(3) t by (auto simp: author_def)
    moreover obtain m where "m \<in> A" "k < length m" "le_Term (m ! k) = nd_term (cs_nodes cs i)"
      using assms(6) [OF l(1)] view_prefix_nth l(2,3) t by metis
    ultimately show ?thesis using assms(1,8) i unfolding log_inv_def by metis
  qed
  moreover have "\<exists>j \<in> S. author cs' j (le_Term (l ! k))" if "l \<in> A'" "k < length l" for l k
    using author [OF that] author_step [OF assms(5)] by blast
  ultimately show ?thesis using assms(4,7) unfolding log_inv_def by simp
qed

text \<open>A leader makes an entry.\<close>

lemma AppendLogEntry_leads:
  assumes "nd_state n = Leader"
  shows "\<exists>e. nd_log (fst (AppendLogEntry data ty n)) = nd_log n @ [e] \<and> le_Term e = nd_term n"
    and "nd_term (fst (AppendLogEntry data ty n)) = nd_term n" "nd_state (fst (AppendLogEntry data ty n)) = Leader"
  using assms by (simp_all add: AppendLogEntry_def case_prod_unfold Let_def AppendEntry_def)

lemma AppendLogEntry_refuses: "nd_state n \<noteq> Leader \<Longrightarrow> fst (AppendLogEntry data ty n) = n"
  by (simp add: AppendLogEntry_def)

lemma log_inv_command:
  assumes "log_inv S cs A" "finite S" "card S \<noteq> 4" "i \<in> S" "Suc (length (nd_log (cs_nodes cs i))) < 2 ^ 63"
    and "n = fst (AppendLogEntry data ty (cs_nodes cs i))"
  shows "log_inv S (set_node i n cs) (insert (nd_log n) A)"
proof (cases "nd_state (cs_nodes cs i) = Leader")
  case False
  then have "set_node i n cs = cs" "nd_log n \<in> A"
    using assms(1,4,6) AppendLogEntry_refuses [of "cs_nodes cs i"] by (auto simp: log_inv_def)
  with assms(1) show ?thesis by (simp add: insert_absorb)
next
  case True
  let ?old = "nd_log (cs_nodes cs i)" and ?t = "nd_term (cs_nodes cs i)"
  obtain e where e: "nd_log n = ?old @ [e]" "le_Term e = ?t" and n: "nd_term n = ?t" "nd_state n = Leader"
    using AppendLogEntry_leads [OF True] assms(6) by metis
  have inv: "election_inv S cs" "?old \<in> A" using assms(1,4) by (auto simp: log_inv_def)
  have inv': "election_inv S (set_node i n cs)"
    unfolding assms(6) by (intro inv_set_node vote_neutral_client inv assms)
  have step: "leaders_step S cs (set_node i n cs)"
    unfolding assms(6) by (intro leaders_step_set_node lead_step_handlers)
  have short: "k < length ?old" if "l \<in> A" "k < length l" "le_Term (l ! k) = ?t" for l k
    using assms(1,4) True that by (auto simp: log_inv_def)
  have old: "logs_match ?old l" if "l \<in> A" for l using assms(1) inv(2) that by (auto simp: log_inv_def)
  have new: "logs_match (nd_log n) l" if "l \<in> A" for l
    unfolding logs_match_def
  proof (intro allI impI)
    fix k assume k: "k < length (nd_log n)" "k < length l" "le_Term (nd_log n ! k) = le_Term (l ! k)"
    have "k < length ?old"
    proof (rule ccontr)
      assume "\<not> k < length ?old"
      then have "k = length ?old" using k(1) e(1) by simp
      then show False using short [OF that k(2)] k(3) e by simp
    qed
    then show "take (Suc k) (map entry_view (nd_log n)) = take (Suc k) (map entry_view l)"
      using old [OF that] k e(1) by (simp add: logs_match_def nth_append)
  qed
  have "logs_match (nd_log n) (nd_log n)" by (simp add: logs_match_def)
  then have match: "\<forall>l \<in> insert (nd_log n) A. \<forall>m \<in> insert (nd_log n) A. logs_match l m"
    using assms(1) new logs_match_sym by (auto simp: log_inv_def)
  have "author (set_node i n cs) i ?t"
    using leader_backed [OF inv(1) assms(4) True] n by (simp add: author_def backed_def)
  then have authors: "\<exists>j \<in> S. author (set_node i n cs) j (le_Term (l ! k))"
    if "l \<in> insert (nd_log n) A" "k < length l" for l k
  proof (cases "l = nd_log n \<and> k = length ?old")
    case True
    then show ?thesis using \<open>author (set_node i n cs) i ?t\<close> assms(4) e by auto
  next
    case False
    then have "\<exists>m \<in> A. k < length m \<and> m ! k = l ! k"
    proof (cases "l = nd_log n")
      case True
      then have "k < length ?old" "l ! k = ?old ! k" using False that(2) e(1) by (auto simp: nth_append)
      with inv(2) show ?thesis by force
    qed (use that in auto)
    then show ?thesis using assms(1) author_step [OF step] by (auto simp: log_inv_def) metis
  qed
  have "k < length (nd_log (cs_nodes (set_node i n cs) j))"
    if j: "j \<in> S" "nd_state (cs_nodes (set_node i n cs) j) = Leader"
      and l: "l \<in> insert (nd_log n) A" "k < length l" "le_Term (l ! k) = nd_term (cs_nodes (set_node i n cs) j)" for j l k
  proof (cases "j = i")
    case True
    then show ?thesis using l short e n by (auto simp: less_Suc_eq)
  next
    case False
    then have "le_Term (l ! k) \<noteq> ?t"
      using j l backed_leader [OF inv(1) assms(2,3) assms(4) True] leader_backed [OF inv(1) j(1)] by auto
    then have "l \<in> A \<or> k < length ?old \<and> l ! k = ?old ! k"
      using l e by (auto simp: nth_append less_Suc_eq)
    then show ?thesis using False j l assms(1) inv(2) by (auto simp: log_inv_def)
  qed
  then show ?thesis
    using inv' match authors assms(1) by (auto simp: log_inv_def)
qed

lemma log_inv_subset:
  "log_inv S cs A \<Longrightarrow> A' \<subseteq> A \<Longrightarrow> (\<And>i. i \<in> S \<Longrightarrow> nd_log (cs_nodes cs i) \<in> A') \<Longrightarrow> log_inv S cs A'"
  unfolding log_inv_def by blast

section \<open>Requests\<close>

lemma entry_view_transport [simp]: "entry_view (entry_from_proto (entry_to_proto e)) = entry_view e"
  by (simp add: entry_view_def entry_from_proto_def entry_to_proto_def)

lemma built_request:
  assumes "node_ok n" "buildAppendEntriesRequest peerID n = Inr req"
  shows "ae_Term req = nd_term n \<and> ae_LeaderId req = nd_id n \<and> deliverable req \<and> built_from req (nd_log n)"
proof (cases "nextIndex_of peerID n = 0")
  case True
  have "0 < cf_MaxEntriesPerAppend (nd_config n)" using assms(1) Validate_max_entries by (auto simp: node_ok_def)
  then have "ae_Entries req = []" "ae_Term req = nd_term n" "ae_LeaderId req = nd_id n"
    using assms(2) True
    by (auto simp: buildAppendEntriesRequest_def Let_def case_prod_unfold GetEntriesFrom_def ConvertToProto_def split: if_splits)
  then show ?thesis by (simp add: deliverable_def built_from_def Let_def)
next
  case False
  let ?i = "nextIndex_of peerID n" and ?log = "nd_log n"
  have wf: "wf_log ?log" using assms(1) by (simp add: node_ok_def)
  have req: "req = request_for ?i n" using buildAppendEntriesRequest_eq [OF assms(1) False] assms(2) by simp
  have p: "unat (?i - 1) = unat ?i - 1" using False by (simp add: unat_pred_u64)
  have "deliverable req \<and> built_from req ?log"
  proof (cases "batch_for ?i n = []")
    case True
    then show ?thesis by (simp add: req request_for_def ConvertToProto_def deliverable_def built_from_def Let_def)
  next
    case more: False
    then have i: "unat ?i - 1 < length ?log" by (auto simp: batch_for_def)
    let ?p = "unat (ae_PrevLogIndex req)" and ?m = "length (ae_Entries req)"
    have f: "?p = unat ?i - 1" "?m = length (batch_for ?i n)"
      by (simp_all add: req request_for_def p ConvertToProto_def)
    have "deliverable req"
      unfolding deliverable_def req using request_for_ok [OF wf False] i by simp
    moreover have "?p + ?m \<le> length ?log" using i f by (auto simp: batch_for_def min_def)
    moreover have "map entry_view (ConvertFromProto (ae_Entries req)) = take ?m (drop ?p (map entry_view ?log))"
    proof -
      have "batch_for ?i n = take ?m (drop ?p ?log)" unfolding f by (simp add: batch_for_def min_def)
      moreover have "map entry_view (ConvertFromProto (ae_Entries req)) = map entry_view (batch_for ?i n)"
        by (simp add: req request_for_def ConvertToProto_def ConvertFromProto_def comp_def)
      ultimately show ?thesis by (simp add: take_map drop_map)
    qed
    moreover have "ae_PrevLogTerm req = le_Term (?log ! (?p - 1))" if "?p \<noteq> 0"
    proof -
      have nz: "?i - 1 \<noteq> 0" using that by (auto simp: req request_for_def)
      then have "GetTermAtIndex (nd_serverState n) (?i - 1) = le_Term (?log ! (?p - 1))"
        using server_log.term_at_inside [OF wf_log_slice_ok [OF wf] nz] i f(1) by (simp add: p)
      then show ?thesis using nz by (simp add: req request_for_def word_gt_0)
    qed
    ultimately show ?thesis by (simp add: built_from_def Let_def)
  qed
  then show ?thesis by (simp add: req request_for_def)
qed

definition all_logs :: "string set \<Rightarrow> 'sm log_state \<Rightarrow> LogEntry list set" where
  "all_logs S ls = (\<lambda>i. nd_log (lg_node ls i)) ` S \<union> (\<lambda>(k, req, l). l) ` lg_requests ls"

definition matching_inv :: "string set \<Rightarrow> 'sm log_state \<Rightarrow> bool" where
  "matching_inv S ls \<longleftrightarrow>
     log_inv S (lg_cluster ls) (all_logs S ls) \<and>
     (\<forall>(k, req, l) \<in> lg_requests ls.
        deliverable req \<and> built_from req l \<and> backed (lg_cluster ls) (ae_LeaderId req) (ae_Term req))"

lemma matching_inv_cluster:
  assumes "matching_inv S ls" "log_inv S cs (all_logs S (ls\<lparr>lg_cluster := cs\<rparr>))" "leaders_step S (lg_cluster ls) cs"
  shows "matching_inv S (ls\<lparr>lg_cluster := cs\<rparr>)"
  using assms backed_votes [of "lg_cluster ls" cs]
  by (fastforce simp: matching_inv_def leaders_step_def)

lemma matching_inv_deliver:
  assumes "matching_inv S ls" "finite S" "card S \<noteq> 4" "k \<in> S" "(k, req, l) \<in> lg_requests ls" "k \<noteq> ae_LeaderId req"
    and "n = fst (processAppendEntries req (lg_node ls k))"
  shows "matching_inv S (ls\<lparr>lg_cluster := set_node k n (lg_cluster ls)\<rparr>)"
proof -
  let ?cs = "lg_cluster ls" and ?n = "lg_node ls k" and ?A = "all_logs S ls"
  let ?ls = "ls\<lparr>lg_cluster := set_node k n (lg_cluster ls)\<rparr>"
  have inv: "log_inv S ?cs ?A" "election_inv S ?cs" and r: "deliverable req" "built_from req l" "backed ?cs (ae_LeaderId req) (ae_Term req)"
    using assms(1,5) by (auto simp: matching_inv_def log_inv_def)
  have ok: "node_ok ?n" using inv_node_ok [OF inv(2) assms(4)] .
  note d = deliver_log [OF ok r(1), folded assms(7)]
  have A: "nd_log ?n \<in> ?A" "l \<in> ?A" using assms(4,5) by (force simp: all_logs_def)+
  have log: "view_prefix (nd_log n) (nd_log ?n) \<or> view_prefix (nd_log n) l"
  proof (cases "accepts req ?n")
    case True
    then have "prev_matches req (nd_log ?n)" by (simp add: accepts_def)
    with merged_log_view [OF _ this r(2)] inv(1) A True show ?thesis by (simp add: d(1) log_inv_def)
  qed (simp add: d(1))
  have inv': "election_inv S (set_node k n ?cs)" using inv_set_node [OF inv(2) assms(4) d(3)] .
  have step: "leaders_step S ?cs (set_node k n ?cs)" using leaders_step_set_node [OF d(2)] .
  have "nd_log n = nd_log ?n" if "nd_state n = Leader"
  proof (cases "accepts req ?n \<and> ae_Entries req \<noteq> []")
    case True
    have wf: "wf_log (nd_log ?n)" using ok by (simp add: node_ok_def)
    have "request_ok req" using r(1) True by (simp add: deliverable_def)
    then have "nd_term n = max (nd_term ?n) (ae_Term req)"
      unfolding assms(7) by (rule processAppendEntries_term [OF wf])
    moreover have "nd_term n = nd_term ?n" using d(2) that by (simp add: lead_step_def)
    ultimately have t: "ae_Term req = nd_term n" using True by (auto simp: accepts_def max_def split: if_splits)
    have "nd_state (cs_nodes (set_node k n ?cs) k) = Leader" using that by simp
    from backed_leader [OF inv' assms(2,3,4) this, of "ae_LeaderId req"]
    have "ae_LeaderId req = k" using r(3) t by (simp add: backed_def)
    with assms(6) show ?thesis by simp
  qed (auto simp: d(1) merged_log_empty)
  moreover have "\<exists>m \<in> ?A. view_prefix x m" if "x \<in> all_logs S ?ls" for x
  proof -
    from that have "x = nd_log n \<or> x \<in> ?A" by (auto simp: all_logs_def split: if_splits)
    with log A show ?thesis using view_prefix_refl by blast
  qed
  ultimately have "log_inv S (set_node k n ?cs) (all_logs S ?ls)"
    by (intro log_inv_step [OF inv(1) assms(2,3) inv' step]) (auto simp: all_logs_def)
  from matching_inv_cluster [OF assms(1) this step] show ?thesis .
qed

lemma log_step_matching:
  "log_step True S ls ls' \<Longrightarrow> finite S \<Longrightarrow> card S \<noteq> 4 \<Longrightarrow> matching_inv S ls \<Longrightarrow> matching_inv S ls'"
proof (induction rule: log_step.induct)
  case (quiet ls cs)
  have inv: "log_inv S (lg_cluster ls) (all_logs S ls)" "election_inv S (lg_cluster ls)"
    using quiet.prems(3) by (auto simp: matching_inv_def log_inv_def)
  have step: "leaders_step S (lg_cluster ls) cs" using cluster_step_leaders [OF quiet.hyps(1) inv(2)] .
  have "all_logs S (ls\<lparr>lg_cluster := cs\<rparr>) = all_logs S ls" using quiet.hyps(2) by (simp add: all_logs_def)
  moreover have "log_inv S cs (all_logs S ls)"
    using inv(1) quiet.hyps(2)
    by (intro log_inv_step [OF inv(1) quiet.prems(1,2) cluster_step_inv [OF quiet.hyps(1) inv(2)] step])
      (auto simp: log_inv_def intro: view_prefix_refl)
  ultimately show ?case using matching_inv_cluster [OF quiet.prems(3) _ step] by simp
next
  case (command i ls data ty)
  have inv: "log_inv S (lg_cluster ls) (all_logs S ls)" using command.prems(3) by (simp add: matching_inv_def)
  let ?n = "fst (AppendLogEntry data ty (lg_node ls i))"
  have step: "leaders_step S (lg_cluster ls) (set_node i ?n (lg_cluster ls))"
    by (intro leaders_step_set_node lead_step_handlers)
  have "log_inv S (set_node i ?n (lg_cluster ls)) (all_logs S (ls\<lparr>lg_cluster := set_node i ?n (lg_cluster ls)\<rparr>))"
    by (rule log_inv_subset [OF log_inv_command [OF inv command.prems(1,2) command.hyps(1,2) refl]])
      (force simp: all_logs_def split: if_splits)+
  then show ?case by (rule matching_inv_cluster [OF command.prems(3) _ step])
next
  case (check i peer ls)
  then show ?case by (simp add: matching_inv_def all_logs_def)
next
  case (build i peer ls req)
  have inv: "log_inv S (lg_cluster ls) (all_logs S ls)" "election_inv S (lg_cluster ls)"
    using build.prems(3) by (auto simp: matching_inv_def log_inv_def)
  have b: "ae_Term req = nd_term (lg_node ls i)" "ae_LeaderId req = i" "deliverable req"
    "built_from req (nd_log (lg_node ls i))"
    using built_request [OF inv_node_ok [OF inv(2) build.hyps(1)] build.hyps(4)] inv(2) build.hyps(1)
    by (auto simp: election_inv_def nodes_inv_def node_inv_def)
  have "backed (lg_cluster ls) i (nd_term (lg_node ls i))"
    using leader_backed [OF inv(2) build.hyps(1)] build.hyps(3) by simp
  moreover have "all_logs S (ls\<lparr>lg_requests := insert (pr_ID peer, req, nd_log (lg_node ls i)) (lg_requests ls)\<rparr>) = all_logs S ls"
    using build.hyps(1) by (auto simp: all_logs_def)
  ultimately show ?case using build.prems(3) b by (auto simp: matching_inv_def)
next
  case (deliver k req l ls)
  then show ?case by (intro matching_inv_deliver) simp_all
qed

lemma log_reachable_matching:
  assumes "log_reachable True S ls" "card S \<noteq> 4"
  shows "matching_inv S ls"
proof -
  obtain ls0 where ls0: "initial_cluster S (lg_cluster ls0)" "\<forall>i \<in> S. nd_log (lg_node ls0 i) = []"
    "lg_requests ls0 = {}" "(log_step True S)\<^sup>*\<^sup>* ls0 ls"
    using assms(1) by (auto simp: log_reachable_def)
  have start: "matching_inv S ls0"
    using ls0(2,3) initial_inv [OF ls0(1)] by (auto simp: matching_inv_def log_inv_def all_logs_def logs_match_def)
  have "finite S" using ls0(1) by (simp add: initial_cluster_def)
  with ls0(4) start assms(2) show ?thesis
    by (induction rule: rtranclp_induct) (auto intro: log_step_matching)
qed

section \<open>Runs\<close>

definition quiet_step :: "string set \<Rightarrow> 'sm cluster_state \<Rightarrow> 'sm cluster_state \<Rightarrow> bool" where
  "quiet_step S cs cs' \<longleftrightarrow> cluster_step S cs cs' \<and> (\<forall>i \<in> S. nd_log (cs_nodes cs' i) = nd_log (cs_nodes cs i))"

lemma quiet_steps:
  "(quiet_step S)\<^sup>*\<^sup>* cs cs' \<Longrightarrow> lg_cluster ls = cs \<Longrightarrow> (log_step held S)\<^sup>*\<^sup>* ls (ls\<lparr>lg_cluster := cs'\<rparr>)"
proof (induction rule: rtranclp_induct)
  case (step cs1 cs2)
  have "log_step held S (ls\<lparr>lg_cluster := cs1\<rparr>) (ls\<lparr>lg_cluster := cs1\<rparr>\<lparr>lg_cluster := cs2\<rparr>)"
    using step.hyps(2) by (intro log_step.quiet) (simp_all add: quiet_step_def)
  with step show ?case by simp
next
  case base
  then have "ls\<lparr>lg_cluster := cs\<rparr> = ls" by simp
  then show ?case by simp
qed

text \<open>A node that wins an election with one vote besides its own, and what it asks for.\<close>

definition vote_request :: "'sm Node \<Rightarrow> RequestVoteRequest" where
  "vote_request n =
     \<lparr>rv_Term = nd_term n + 1, rv_CandidateId = nd_id n,
      rv_LastLogIndex = fst (LastLogIndexAndTerm (nd_serverState n)),
      rv_LastLogTerm = snd (LastLogIndexAndTerm (nd_serverState n))\<rparr>"

definition elected :: "'sm Node \<Rightarrow> 'sm Node" where
  "elected n =
     claimLeadership (nd_term n + 1)
       (fst (countVote (nd_term n + 1) (votesNeeded (nd_peers n)) (becomeCandidate 0 n)))"

lemma countVote_keeps:
  "nd_log (fst (countVote t needed n)) = nd_log n" "nd_cluster (fst (countVote t needed n)) = nd_cluster n"
  "nd_id (fst (countVote t needed n)) = nd_id n"
  by (simp_all add: countVote_def Let_def)

lemma elected_fields:
  "nd_state (elected n) = Leader" "nd_term (elected n) = nd_term n + 1" "nd_log (elected n) = nd_log n"
  "nd_peers (elected n) = nd_peers n" "nd_id (elected n) = nd_id n"
  "nd_leaderState (elected n) = Some (NewLeaderState (map pr_ID (nd_peers n)) (fst (LastLogIndexAndTerm (nd_serverState n))))"
proof -
  let ?c = "fst (countVote (nd_term n + 1) (votesNeeded (nd_peers n)) (becomeCandidate 0 n))"
  have s: "nd_state ?c = Candidate" "nd_term ?c = nd_term n + 1" "nd_log ?c = nd_log n" "nd_peers ?c = nd_peers n"
    "nd_id ?c = nd_id n"
    by (simp_all add: countVote_fields countVote_keeps)
  then have e: "elected n = becomeLeader ?c" by (simp add: elected_def claimLeadership_def)
  show "nd_state (elected n) = Leader" "nd_term (elected n) = nd_term n + 1" "nd_log (elected n) = nd_log n"
    "nd_peers (elected n) = nd_peers n" "nd_id (elected n) = nd_id n"
    by (simp_all add: e s)
  have "LastLogIndexAndTerm (nd_serverState ?c) = LastLogIndexAndTerm (nd_serverState n)"
    by (rule LastLogIndexAndTerm_log) (rule s(3))
  then show "nd_leaderState (elected n) =
      Some (NewLeaderState (map pr_ID (nd_peers n)) (fst (LastLogIndexAndTerm (nd_serverState n))))"
    by (simp add: e s setState_leaderState)
qed

lemma candidate_wins:
  assumes "nd_id n \<noteq> ''''" "length (nd_peers n) \<le> 3"
  shows "snd (countVote (nd_term n + 1) (votesNeeded (nd_peers n)) (becomeCandidate now n))"
  using assms votesNeeded_two [of "nd_peers n"]
  by (simp add: countVote_def Let_def becomeCandidate_electionState AddVote_def ElectionState_Reset_def)

lemma quiet_election:
  fixes cs :: "'sm cluster_state"
  assumes "election_inv S cs" "i \<in> S" "v \<in> S" "i \<noteq> v" "card S \<le> 4"
    and "cs_task cs i = None" "cs_claim cs i = None" "nd_term (cs_nodes cs i) \<noteq> - 1"
    and "grants (vote_request (cs_nodes cs i)) (cs_nodes cs v)"
  shows "\<exists>cs'. (quiet_step S)\<^sup>*\<^sup>* cs cs' \<and>
     cs_nodes cs' = (cs_nodes cs)(v := fst (requestVote (vote_request (cs_nodes cs i)) (cs_nodes cs v)),
                                  i := elected (cs_nodes cs i)) \<and>
     cs_task cs' = cs_task cs \<and> cs_claim cs' = cs_claim cs \<and> vote_request (cs_nodes cs i) \<in> cs_requests cs'"
proof -
  let ?n = "cs_nodes cs i" and ?v = "cs_nodes cs v"
  let ?t = "nd_term ?n + 1" and ?req = "vote_request ?n" and ?c = "becomeCandidate 0 ?n"
  let ?e = "\<lparr>el_term = ?t, el_lastLogIndex = fst (LastLogIndexAndTerm (nd_serverState ?n)),
    el_lastLogTerm = snd (LastLogIndexAndTerm (nd_serverState ?n)), el_peers = nd_peers ?n\<rparr>"
  let ?resp = "\<lparr>vr_Term = ?t, vr_VoteGranted = True\<rparr>" and ?v' = "fst (requestVote ?req ?v)"
  let ?w = "fst (countVote ?t (votesNeeded (nd_peers ?n)) ?c)"
  have n: "nd_id ?n = i" "length (nd_peers ?n) \<le> 3" "nd_id ?n \<noteq> ''''"
    using assms(1,2,5) inv_id_nonempty [OF assms(1,2)] by (auto simp: election_inv_def nodes_inv_def node_inv_def)
  have start: "startElection_begin 0 ?n = (?c, ?e)"
    by (simp add: startElection_begin_eq case_prod_unfold)
  define cs1 where "cs1 = set_node i ?c cs
    \<lparr>cs_task := (cs_task cs)(i \<mapsto> (?e, [])), cs_votes := insert (i, el_term ?e, i) (cs_votes cs)\<rparr>"
  have s1: "quiet_step S cs cs1"
    unfolding quiet_step_def cs1_def
    by (intro conjI cluster_step.timeout [OF assms(2,6-8) start]) simp
  define cs2 where "cs2 = cs1\<lparr>cs_requests := insert (sendRequestVote_request (cs_nodes cs1 i) ?e) (cs_requests cs1)\<rparr>"
  have s2: "quiet_step S cs1 cs2"
    unfolding quiet_step_def cs2_def
    by (intro conjI cluster_step.send [of i S cs1 ?e "[]"]) (simp_all add: assms cs1_def)
  have req: "sendRequestVote_request (cs_nodes cs1 i) ?e = ?req"
    by (simp add: cs1_def sendRequestVote_request_def vote_request_def)
  define cs3 where "cs3 = set_node v ?v' cs2
    \<lparr>cs_responses := insert (v, ?req, ?resp) (cs_responses cs2),
     cs_votes := (if vr_VoteGranted ?resp then {(v, rv_Term ?req, rv_CandidateId ?req)} else {}) \<union> cs_votes cs2\<rparr>"
  have s3: "quiet_step S cs2 cs3"
    unfolding quiet_step_def cs3_def
  proof (intro conjI cluster_step.vote)
    show "requestVote ?req (cs_nodes cs2 v) = (?v', ?resp)"
      using assms(4,9) by (simp add: cs2_def cs1_def requestVote_eq Let_def vote_request_def)
  qed (use assms req n in \<open>auto simp: cs2_def cs1_def vote_request_def frame_simps\<close>)
  define cs4 where "cs4 = set_node i ?c cs3
    \<lparr>cs_task := (cs_task cs3)(i := map_option (\<lambda>task. receive_vote task (rv_Term ?req) True) (cs_task cs3 i))\<rparr>"
  have s4: "quiet_step S cs3 cs4"
    unfolding quiet_step_def cs4_def
    by (intro conjI cluster_step.response [of v ?req ?resp])
      (use assms n in \<open>auto simp: cs3_def cs2_def cs1_def vote_request_def sendRequestVote_response_def\<close>)
  have t4: "cs_task cs4 i = Some (?e, True # [])" "cs_nodes cs4 i = ?c"
    by (simp_all add: cs4_def cs3_def cs2_def cs1_def receive_vote_def vote_request_def)
  define cs5 where "cs5 = set_node i ?w cs4
    \<lparr>cs_task := (cs_task cs4)(i := if True then None else Some (?e, [])),
     cs_claim := (cs_claim cs4)(i := if True then Some (el_term ?e) else cs_claim cs4 i)\<rparr>"
  have s5: "quiet_step S cs4 cs5"
    unfolding quiet_step_def cs5_def
    by (intro conjI cluster_step.count [OF assms(2) t4(1)])
      (use candidate_wins [OF n(3,2)] t4(2) in \<open>auto simp: prod_eq_iff countVote_keeps\<close>)
  define cs6 where "cs6 = set_node i (claimLeadership ?t (cs_nodes cs5 i)) cs5
    \<lparr>cs_claim := (cs_claim cs5)(i := None)\<rparr>"
  have s6: "quiet_step S cs5 cs6"
    unfolding quiet_step_def cs6_def
    by (intro conjI cluster_step.claim [OF assms(2)]) (auto simp: cs5_def claimLeadership_def)
  have "(quiet_step S)\<^sup>*\<^sup>* cs cs6"
    using s1 s2 s3 s4 s5 s6 by (meson converse_rtranclp_into_rtranclp rtranclp.rtrancl_refl)
  moreover have "cs_nodes cs6 = (cs_nodes cs)(v := ?v', i := elected ?n)"
    using assms(4)
    by (auto simp: fun_eq_iff cs6_def cs5_def cs4_def cs3_def cs2_def cs1_def elected_def)
  moreover have "cs_task cs6 = cs_task cs" "cs_claim cs6 = cs_claim cs" "?req \<in> cs_requests cs6"
    using assms(6,7) req by (auto simp: fun_eq_iff cs6_def cs5_def cs4_def cs3_def cs2_def cs1_def)
  ultimately show ?thesis by blast
qed

section \<open>Properties\<close>

text \<open>C2: Log matching. As long as the lock is held from the check that a node leads to the
  construction of the request, two nodes of a cluster of any size but four whose logs hold an
  entry of the same term at an index agree on all entries up to it, in term, index and data,
  whatever happens to elections, messages and commands.\<close>

theorem log_matching:
  assumes "log_reachable True S ls" "card S \<noteq> 4" "i \<in> S" "j \<in> S"
    and "k < length (nd_log (lg_node ls i))" "k < length (nd_log (lg_node ls j))"
    and "le_Term (nd_log (lg_node ls i) ! k) = le_Term (nd_log (lg_node ls j) ! k)"
  shows "take (Suc k) (map entry_view (nd_log (lg_node ls i))) = take (Suc k) (map entry_view (nd_log (lg_node ls j)))"
proof -
  have "logs_match (nd_log (lg_node ls i)) (nd_log (lg_node ls j))"
    using log_reachable_matching [OF assms(1,2)] assms(3,4) by (simp add: matching_inv_def log_inv_def all_logs_def)
  with assms(5-7) show ?thesis by (simp add: logs_match_def)
qed


end
