(* ===== verification/StaleLeader.thy ===== *)
theory StaleLeader
  imports LogMatching
begin

text \<open>
  Runs of the replication: one in which a follower gets the log of its leader, and one in which
  a leader loses its leadership between the check and the construction of a request, as the code
  allows.
\<close>

lemma request_from_start:
  assumes "node_ok n" "nextIndex_of peerID n = 1" "length (nd_log n) \<le> nat (cf_MaxEntriesPerAppend (nd_config n))"
  shows "buildAppendEntriesRequest peerID n = Inr (request_for 1 n)" "ae_PrevLogIndex (request_for 1 n) = 0"
    "ae_Entries (request_for 1 n) = ConvertToProto (nd_log n)" "ae_Term (request_for 1 n) = nd_term n"
    "ae_LeaderId (request_for 1 n) = nd_id n"
  using buildAppendEntriesRequest_eq [OF assms(1), of peerID] assms(2,3)
  by (simp_all add: request_for_def batch_for_def)

lemma deliver_from_start:
  assumes "node_ok n" "nextIndex_of peerID n = 1" "length (nd_log n) \<le> nat (cf_MaxEntriesPerAppend (nd_config n))"
    and "node_ok m" "nd_term m \<le> nd_term n" "\<forall>e \<in> set (nd_log n). transportable e"
  shows "nd_log (fst (processAppendEntries (request_for 1 n) m)) = merge_suffix (nd_log m) (nd_log n)"
proof -
  note r = request_from_start [OF assms(1-3)]
  have "deliverable (request_for 1 n)" using built_request [OF assms(1) r(1)] by simp
  then show ?thesis
    using deliver_log(1) [OF assms(4)] r(2-4) assms(5,6)
    by (simp add: accepts_def prev_matches_def merged_log_def transport_roundtrip_list)
qed

definition command_entry :: "u64 \<Rightarrow> nat \<Rightarrow> bytes \<Rightarrow> LogEntry" where
  "command_entry t i data = \<lparr>le_Term = t, le_Index = of_nat i, le_Data = data, le_Type = EntryNormal\<rparr>"

lemma command_fields:
  assumes "node_ok n" "nd_state n = Leader"
  shows "nd_log (fst (AppendLogEntry data EntryNormal n)) =
      nd_log n @ [command_entry (nd_term n) (Suc (length (nd_log n))) data]"
    "nd_leaderState (fst (AppendLogEntry data EntryNormal n)) = nd_leaderState n"
    "nd_config (fst (AppendLogEntry data EntryNormal n)) = nd_config n"
    "nd_id (fst (AppendLogEntry data EntryNormal n)) = nd_id n"
    "nd_peers (fst (AppendLogEntry data EntryNormal n)) = nd_peers n"
proof -
  have "fst (LastLogIndexAndTerm (nd_serverState n)) = go_len (nd_log n)"
    using assms(1) server_log.last_index_is_length [of "nd_serverState n"] by (simp add: node_ok_def)
  then show "nd_log (fst (AppendLogEntry data EntryNormal n)) =
      nd_log n @ [command_entry (nd_term n) (Suc (length (nd_log n))) data]"
    using assms(2)
    by (simp add: AppendLogEntry_def case_prod_unfold Let_def AppendEntry_def command_entry_def go_len_def add.commute)
qed (use assms(2) in \<open>simp_all add: AppendLogEntry_def case_prod_unfold Let_def AppendEntry_def\<close>)

lemma command_entry_term [simp]: "le_Term (command_entry t i data) = t"
  by (simp add: command_entry_def)

lemma transportable_command [simp]: "transportable (command_entry t i data)"
  by (simp add: transportable_def command_entry_def)

section \<open>The start\<close>

abbreviation abc :: "string list" where
  "abc \<equiv> [''a'', ''b'', ''c'']"

definition start_logs :: "unit log_state" where
  "start_logs = \<lparr>lg_cluster = example_cluster abc, lg_senders = {}, lg_requests = {}\<rparr>"

abbreviation node_a :: "unit Node" where "node_a \<equiv> example_node ''a'' [''b'', ''c'']"
abbreviation node_b :: "unit Node" where "node_b \<equiv> example_node ''b'' [''a'', ''c'']"
abbreviation node_c :: "unit Node" where "node_c \<equiv> example_node ''c'' [''a'', ''b'']"

lemma start_nodes:
  "cs_nodes (example_cluster abc) ''a'' = node_a" "cs_nodes (example_cluster abc) ''b'' = node_b"
  "cs_nodes (example_cluster abc) ''c'' = node_c"
  by (simp_all add: example_cluster_def)

lemma start_inv: "election_inv (set abc) (example_cluster abc)"
  by (intro initial_inv example_cluster_initial) simp_all

abbreviation peer_named :: "string \<Rightarrow> Peer" where
  "peer_named p \<equiv> \<lparr>pr_ID = p, pr_Address = p\<rparr>"

lemma empty_log_last: "nd_log n = [] \<Longrightarrow> LastLogIndexAndTerm (nd_serverState n) = (0, 0)"
  by (simp add: LastLogIndexAndTerm_def)

text \<open>\<open>a\<close> is elected in term 1 by \<open>b\<close>, takes a command and passes the check for \<open>b\<close>.\<close>

lemma first_leader:
  obtains cs :: "unit cluster_state" where
    "(log_step held (set abc))\<^sup>*\<^sup>* start_logs
       \<lparr>lg_cluster = cs, lg_senders = {(''a'', peer_named ''b'')}, lg_requests = {}\<rparr>"
    "election_inv (set abc) cs" "cs_task cs = Map.empty" "cs_claim cs = Map.empty"
    "nd_state (cs_nodes cs ''a'') = Leader" "nd_term (cs_nodes cs ''a'') = 1"
    "nd_log (cs_nodes cs ''a'') = [command_entry 1 1 [1]]" "nextIndex_of ''b'' (cs_nodes cs ''a'') = 1"
    "nd_config (cs_nodes cs ''a'') = DefaultConfig"
    "nd_term (cs_nodes cs ''b'') = 1" "nd_log (cs_nodes cs ''b'') = []" "cs_nodes cs ''c'' = node_c"
    "nd_config (cs_nodes cs ''b'') = DefaultConfig"
    "nd_peers (cs_nodes cs ''b'') = [peer_named ''a'', peer_named ''c'']"
proof -
  let ?S = "set abc" and ?cs = "example_cluster abc"
  let ?v = "vote_request node_a" and ?a = "elected node_a"
  have v: "?v = \<lparr>rv_Term = 1, rv_CandidateId = ''a'', rv_LastLogIndex = 0, rv_LastLogTerm = 0\<rparr>"
    by (simp add: vote_request_def example_node_fields NewServerState_def LastLogIndexAndTerm_def)
  have b: "grants ?v node_b"
    by (simp add: v grants_def vote_free_def up_to_date_def example_node_fields NewServerState_def LastLogIndexAndTerm_def)
  have "\<exists>cs1. (quiet_step ?S)\<^sup>*\<^sup>* ?cs cs1 \<and>
     cs_nodes cs1 = (cs_nodes ?cs)(''b'' := fst (requestVote (vote_request (cs_nodes ?cs ''a'')) (cs_nodes ?cs ''b'')),
                                  ''a'' := elected (cs_nodes ?cs ''a'')) \<and>
     cs_task cs1 = cs_task ?cs \<and> cs_claim cs1 = cs_claim ?cs \<and> vote_request (cs_nodes ?cs ''a'') \<in> cs_requests cs1"
    by (rule quiet_election [OF start_inv])
      (use b in \<open>simp_all add: start_nodes example_node_fields NewServerState_def\<close>,
        simp_all add: example_cluster_def)
  then obtain cs1 where cs1: "(quiet_step ?S)\<^sup>*\<^sup>* ?cs cs1"
    "cs_nodes cs1 = (cs_nodes ?cs)(''b'' := fst (requestVote ?v node_b), ''a'' := ?a)"
    "cs_task cs1 = Map.empty" "cs_claim cs1 = Map.empty"
    unfolding start_nodes by (auto simp: example_cluster_def)
  have inv1: "election_inv ?S cs1"
    using cs1(1) start_inv
    by (induction rule: rtranclp_induct) (auto simp: quiet_step_def intro: cluster_step_inv)
  let ?ls1 = "start_logs\<lparr>lg_cluster := cs1\<rparr>"
  have run1: "(log_step held ?S)\<^sup>*\<^sup>* start_logs ?ls1"
    by (rule quiet_steps [OF cs1(1)]) (simp add: start_logs_def)
  note f = elected_fields [of node_a]
  have a: "nd_state ?a = Leader" "nd_term ?a = 1" "nd_log ?a = []" "nd_id ?a = ''a''"
    "nd_peers ?a = [peer_named ''b'', peer_named ''c'']"
    "nd_leaderState ?a = Some (NewLeaderState [''b'', ''c''] 0)"
    using f by (simp_all add: example_node_fields NewServerState_def LastLogIndexAndTerm_def)
  have "nd_config ?a = DefaultConfig"
    by (simp add: elected_def claimLeadership_def countVote_def Let_def example_node_fields)
  have ok: "node_ok ?a" using inv_node_ok [OF inv1, of "''a''"] cs1(2) by simp
  let ?a2 = "fst (AppendLogEntry [1] EntryNormal ?a)"
  note c = command_fields [OF ok a(1), of "[1]"]
  define cs2 where "cs2 = set_node ''a'' ?a2 cs1"
  have inv2: "election_inv ?S cs2"
    unfolding cs2_def using inv_set_node [OF inv1, of "''a''" ?a2] vote_neutral_client [of ?a "[1]" EntryNormal] a(3) cs1(2)
    by simp
  let ?ls2 = "\<lparr>lg_cluster = cs2, lg_senders = {}, lg_requests = {}\<rparr>"
  have "log_step held ?S ?ls1 (?ls1\<lparr>lg_cluster := set_node ''a'' (fst (AppendLogEntry [1] EntryNormal (lg_node ?ls1 ''a''))) (lg_cluster ?ls1)\<rparr>)"
    by (rule log_step.command) (use a(3) cs1(2) in simp_all)
  then have step2: "log_step held ?S ?ls1 ?ls2"
    using cs1(2) by (simp add: cs2_def start_logs_def)
  have lead: "nd_state ?a2 = Leader" "nd_term ?a2 = 1" using AppendLogEntry_leads [OF a(1)] a(2) by simp_all
  have "log_step held ?S ?ls2 (?ls2\<lparr>lg_senders := insert (''a'', peer_named ''b'') (lg_senders ?ls2)\<rparr>)"
    by (rule log_step.check) (use lead(1) c(5) a(5) in \<open>simp_all add: cs2_def replicateToAll_peers_def\<close>)
  with run1 step2 have run: "(log_step held ?S)\<^sup>*\<^sup>* start_logs
      \<lparr>lg_cluster = cs2, lg_senders = {(''a'', peer_named ''b'')}, lg_requests = {}\<rparr>"
    by (simp add: rtranclp.rtrancl_into_rtrancl)
  show thesis
  proof (rule that [OF run inv2])
    show "nextIndex_of ''b'' (cs_nodes cs2 ''a'') = 1"
      using c(2) a(6) by (simp add: cs2_def nextIndex_of_def)
    show "nd_log (cs_nodes cs2 ''a'') = [command_entry 1 1 [1]]" using c(1) a(2,3) by (simp add: cs2_def)
    show "nd_config (cs_nodes cs2 ''a'') = DefaultConfig"
      using c(3) \<open>nd_config ?a = DefaultConfig\<close> by (simp add: cs2_def)
    show "nd_term (cs_nodes cs2 ''b'') = 1"
      using cs1(2) by (simp add: cs2_def requestVote_term v example_node_fields NewServerState_def)
  qed (use cs1 lead in \<open>simp_all add: cs2_def frame_simps example_node_fields NewServerState_def start_nodes\<close>)
qed

lemma start_reachable: "(log_step held (set abc))\<^sup>*\<^sup>* start_logs ls \<Longrightarrow> log_reachable held (set abc) ls"
  using example_cluster_initial [of abc]
  by (auto simp: log_reachable_def start_logs_def start_nodes example_node_fields NewServerState_def
      intro!: exI [of _ start_logs])

lemma default_batch: "1 \<le> nat (cf_MaxEntriesPerAppend DefaultConfig)" "2 \<le> nat (cf_MaxEntriesPerAppend DefaultConfig)"
  by (simp_all add: DefaultConfig_def)

theorem log_matching_witness:
  "\<exists>ls :: unit log_state. log_reachable True (set abc) ls \<and> nd_log (lg_node ls ''b'') \<noteq> [] \<and>
     take 1 (map entry_view (nd_log (lg_node ls ''a''))) = take 1 (map entry_view (nd_log (lg_node ls ''b'')))"
proof -
  let ?S = "set abc"
  obtain cs :: "unit cluster_state" where cs:
    "(log_step True ?S)\<^sup>*\<^sup>* start_logs \<lparr>lg_cluster = cs, lg_senders = {(''a'', peer_named ''b'')}, lg_requests = {}\<rparr>"
    "election_inv ?S cs" "nd_state (cs_nodes cs ''a'') = Leader" "nd_term (cs_nodes cs ''a'') = 1"
    "nd_log (cs_nodes cs ''a'') = [command_entry 1 1 [1]]" "nextIndex_of ''b'' (cs_nodes cs ''a'') = 1"
    "nd_config (cs_nodes cs ''a'') = DefaultConfig" "nd_term (cs_nodes cs ''b'') = 1" "nd_log (cs_nodes cs ''b'') = []"
    by (rule first_leader)
  let ?a = "cs_nodes cs ''a''" and ?b = "cs_nodes cs ''b''"
  let ?ls = "\<lparr>lg_cluster = cs, lg_senders = {(''a'', peer_named ''b'')}, lg_requests = {}\<rparr>"
  have ok: "node_ok ?a" "node_ok ?b" "nd_id ?a = ''a''"
    using inv_node_ok [OF cs(2)] cs(2) by (auto simp: election_inv_def nodes_inv_def node_inv_def)
  have size: "length (nd_log ?a) \<le> nat (cf_MaxEntriesPerAppend (nd_config ?a))" using cs(5,7) default_batch by simp
  note r = request_from_start [OF ok(1) cs(6) size]
  let ?ls1 = "?ls\<lparr>lg_requests := {(''b'', request_for 1 ?a, nd_log ?a)}\<rparr>"
  have "log_step True ?S ?ls (?ls\<lparr>lg_requests := insert (pr_ID (peer_named ''b''), request_for 1 ?a, nd_log (lg_node ?ls ''a'')) (lg_requests ?ls)\<rparr>)"
    by (rule log_step.build) (use r(1) cs(3) in simp_all)
  moreover have "log_step True ?S ?ls1 (?ls1\<lparr>lg_cluster := set_node ''b'' (fst (processAppendEntries (request_for 1 ?a) (lg_node ?ls1 ''b''))) (lg_cluster ?ls1)\<rparr>)"
    by (rule log_step.deliver [of _ _ _ "nd_log ?a"]) (use r(5) ok(3) in simp_all)
  ultimately have "(log_step True ?S)\<^sup>*\<^sup>* start_logs
      (?ls1\<lparr>lg_cluster := set_node ''b'' (fst (processAppendEntries (request_for 1 ?a) ?b)) cs\<rparr>)"
    using cs(1) by (simp add: rtranclp.rtrancl_into_rtrancl)
  then obtain ls where ls: "log_reachable True ?S ls" "lg_node ls ''a'' = ?a"
    "lg_node ls ''b'' = fst (processAppendEntries (request_for 1 ?a) ?b)"
    using start_reachable by fastforce
  have b: "nd_log (lg_node ls ''b'') = [command_entry 1 1 [1]]"
    using deliver_from_start [OF ok(1) cs(6) size ok(2)] cs(4,5,8,9) by (simp add: ls(3))
  have "take (Suc 0) (map entry_view (nd_log (lg_node ls ''a''))) = take (Suc 0) (map entry_view (nd_log (lg_node ls ''b'')))"
    by (rule log_matching [OF ls(1)]) (simp_all add: b ls(2) cs(5))
  with ls(1) b show ?thesis by (intro exI [of _ ls]) simp
qed

section \<open>The lock is released\<close>

text \<open>\<open>b\<close> is elected in term 2 by \<open>c\<close>; \<open>a\<close> learns the term from the vote request.\<close>

lemma second_leader:
  obtains cs :: "unit cluster_state" where
    "(log_step held (set abc))\<^sup>*\<^sup>* start_logs
       \<lparr>lg_cluster = cs, lg_senders = {(''a'', peer_named ''b'')}, lg_requests = {}\<rparr>"
    "election_inv (set abc) cs"
    "nd_state (cs_nodes cs ''a'') = Follower" "nd_term (cs_nodes cs ''a'') = 2"
    "nd_log (cs_nodes cs ''a'') = [command_entry 1 1 [1]]" "nextIndex_of ''b'' (cs_nodes cs ''a'') = 1"
    "nd_config (cs_nodes cs ''a'') = DefaultConfig"
    "nd_state (cs_nodes cs ''b'') = Leader" "nd_term (cs_nodes cs ''b'') = 2" "nd_log (cs_nodes cs ''b'') = []"
    "nextIndex_of ''c'' (cs_nodes cs ''b'') = 1" "nd_config (cs_nodes cs ''b'') = DefaultConfig"
    "nd_peers (cs_nodes cs ''b'') = [peer_named ''a'', peer_named ''c'']"
    "nd_term (cs_nodes cs ''c'') = 2" "nd_log (cs_nodes cs ''c'') = []"
proof -
  let ?S = "set abc"
  obtain cs :: "unit cluster_state" where cs:
    "(log_step held ?S)\<^sup>*\<^sup>* start_logs \<lparr>lg_cluster = cs, lg_senders = {(''a'', peer_named ''b'')}, lg_requests = {}\<rparr>"
    "election_inv ?S cs" "cs_task cs = Map.empty" "cs_claim cs = Map.empty"
    "nd_state (cs_nodes cs ''a'') = Leader" "nd_term (cs_nodes cs ''a'') = 1"
    "nd_log (cs_nodes cs ''a'') = [command_entry 1 1 [1]]" "nd_config (cs_nodes cs ''a'') = DefaultConfig"
    "nd_term (cs_nodes cs ''b'') = 1" "nd_log (cs_nodes cs ''b'') = []" "cs_nodes cs ''c'' = node_c"
    "nd_config (cs_nodes cs ''b'') = DefaultConfig"
    "nd_peers (cs_nodes cs ''b'') = [peer_named ''a'', peer_named ''c'']"
    by (rule first_leader)
  let ?a = "cs_nodes cs ''a''" and ?b = "cs_nodes cs ''b''"
  have id: "nd_id ?b = ''b''" using cs(2) by (auto simp: election_inv_def nodes_inv_def node_inv_def)
  let ?v = "vote_request ?b"
  have v: "?v = \<lparr>rv_Term = 2, rv_CandidateId = ''b'', rv_LastLogIndex = 0, rv_LastLogTerm = 0\<rparr>"
    by (simp add: vote_request_def cs id empty_log_last)
  have c: "grants ?v node_c"
    by (simp add: v grants_def vote_free_def up_to_date_def example_node_fields NewServerState_def LastLogIndexAndTerm_def)
  have "\<exists>cs1. (quiet_step ?S)\<^sup>*\<^sup>* cs cs1 \<and>
     cs_nodes cs1 = (cs_nodes cs)(''c'' := fst (requestVote ?v (cs_nodes cs ''c'')), ''b'' := elected ?b) \<and>
     cs_task cs1 = cs_task cs \<and> cs_claim cs1 = cs_claim cs \<and> ?v \<in> cs_requests cs1"
    by (rule quiet_election [OF cs(2)]) (use c cs in simp_all)
  then obtain cs1 where cs1: "(quiet_step ?S)\<^sup>*\<^sup>* cs cs1"
    "cs_nodes cs1 = (cs_nodes cs)(''c'' := fst (requestVote ?v node_c), ''b'' := elected ?b)" "?v \<in> cs_requests cs1"
    by (auto simp: cs(11))
  have a1: "cs_nodes cs1 ''a'' = ?a" using cs1(2) by simp
  let ?a2 = "fst (requestVote ?v ?a)"
  have last: "LastLogIndexAndTerm (nd_serverState ?a) = (1, 1)"
    by (simp add: LastLogIndexAndTerm_def cs command_entry_def)
  have no: "requestVote ?v ?a = (stepDown 2 ?a, \<lparr>vr_Term = 2, vr_VoteGranted = False\<rparr>)"
    by (simp add: requestVote_eq Let_def v grants_def up_to_date_def last cs(6))
  define cs2 where "cs2 = set_node ''a'' (stepDown 2 ?a) cs1
    \<lparr>cs_responses := insert (''a'', ?v, \<lparr>vr_Term = 2, vr_VoteGranted = False\<rparr>) (cs_responses cs1),
     cs_votes := (if vr_VoteGranted \<lparr>vr_Term = 2, vr_VoteGranted = False\<rparr> then {(''a'', rv_Term ?v, rv_CandidateId ?v)} else {}) \<union> cs_votes cs1\<rparr>"
  have "quiet_step ?S cs1 cs2"
    unfolding quiet_step_def cs2_def
    by (intro conjI cluster_step.vote) (use cs1(3) a1 no v in \<open>auto simp: frame_simps\<close>)
  with cs1(1) have quiet: "(quiet_step ?S)\<^sup>*\<^sup>* cs cs2" by simp
  let ?ls = "\<lparr>lg_cluster = cs, lg_senders = {(''a'', peer_named ''b'')}, lg_requests = {}\<rparr>"
  have "(log_step held ?S)\<^sup>*\<^sup>* ?ls (?ls\<lparr>lg_cluster := cs2\<rparr>)" by (rule quiet_steps [OF quiet]) simp
  with cs(1) have run: "(log_step held ?S)\<^sup>*\<^sup>* start_logs
      \<lparr>lg_cluster = cs2, lg_senders = {(''a'', peer_named ''b'')}, lg_requests = {}\<rparr>" by simp
  have inv2: "election_inv ?S cs2"
    using quiet cs(2) by (induction rule: rtranclp_induct) (auto simp: quiet_step_def intro: cluster_step_inv)
  have ok: "node_ok (cs_nodes cs2 ''a'')" using inv_node_ok [OF inv2] by simp
  have nodes: "cs_nodes cs2 ''a'' = stepDown 2 ?a" "cs_nodes cs2 ''b'' = elected ?b"
    "cs_nodes cs2 ''c'' = fst (requestVote ?v node_c)"
    by (simp_all add: cs2_def cs1(2))
  note f = elected_fields [of ?b]
  show thesis
  proof (rule that [OF run inv2])
    show "nextIndex_of ''b'' (cs_nodes cs2 ''a'') = 1"
      using ok by (simp add: nextIndex_of_def nodes node_ok_def)
    show "nextIndex_of ''c'' (cs_nodes cs2 ''b'') = 1"
      using f by (simp add: nextIndex_of_def nodes cs empty_log_last)
    show "nd_config (cs_nodes cs2 ''b'') = DefaultConfig"
      by (simp add: nodes elected_def claimLeadership_def countVote_def Let_def cs)
    show "nd_term (cs_nodes cs2 ''c'') = 2" "nd_log (cs_nodes cs2 ''c'') = []"
      by (simp_all add: nodes requestVote_term v frame_simps example_node_fields NewServerState_def)
  qed (use f cs in \<open>simp_all add: nodes\<close>)
qed

text \<open>The steps of the run after that, over the nodes they change.\<close>

lemma command_run:
  assumes "(log_step held S)\<^sup>*\<^sup>* ls0 \<lparr>lg_cluster = cs, lg_senders = P, lg_requests = R\<rparr>"
    and "election_inv S cs" "i \<in> S" "nd_state (cs_nodes cs i) = Leader" "length (nd_log (cs_nodes cs i)) < 10"
  obtains n where
    "(log_step held S)\<^sup>*\<^sup>* ls0 \<lparr>lg_cluster = set_node i n cs, lg_senders = P, lg_requests = R\<rparr>"
    "election_inv S (set_node i n cs)" "nd_state n = Leader" "nd_term n = nd_term (cs_nodes cs i)"
    "nd_log n = nd_log (cs_nodes cs i) @
       [command_entry (nd_term (cs_nodes cs i)) (Suc (length (nd_log (cs_nodes cs i)))) data]"
    "nd_leaderState n = nd_leaderState (cs_nodes cs i)" "nd_config n = nd_config (cs_nodes cs i)"
    "nd_peers n = nd_peers (cs_nodes cs i)"
proof -
  let ?n = "cs_nodes cs i" and ?m = "fst (AppendLogEntry data EntryNormal (cs_nodes cs i))"
  let ?ls = "\<lparr>lg_cluster = cs, lg_senders = P, lg_requests = R\<rparr>"
  have ok: "node_ok ?n" using inv_node_ok [OF assms(2,3)] .
  have "log_step held S ?ls (?ls\<lparr>lg_cluster := set_node i (fst (AppendLogEntry data EntryNormal (lg_node ?ls i))) (lg_cluster ?ls)\<rparr>)"
    by (rule log_step.command) (use assms(3,5) in simp_all)
  with assms(1) have run: "(log_step held S)\<^sup>*\<^sup>* ls0 \<lparr>lg_cluster = set_node i ?m cs, lg_senders = P, lg_requests = R\<rparr>"
    by (simp add: rtranclp.rtrancl_into_rtrancl)
  have inv: "election_inv S (set_node i ?m cs)"
    using assms(5) by (intro inv_set_node [OF assms(2,3)] vote_neutral_client) simp
  note c = command_fields [OF ok assms(4), of data] AppendLogEntry_leads(2,3) [OF assms(4), of data EntryNormal]
  show thesis by (rule that [OF run inv]) (use c in simp_all)
qed

lemma deliver_run:
  assumes "(log_step False S)\<^sup>*\<^sup>* ls0 \<lparr>lg_cluster = cs, lg_senders = P, lg_requests = R\<rparr>"
    and "election_inv S cs" "i \<in> S" "j \<in> S" "i \<noteq> j" "(i, peer_named j) \<in> P" "nextIndex_of j (cs_nodes cs i) = 1"
    and "nd_config (cs_nodes cs i) = DefaultConfig" "length (nd_log (cs_nodes cs i)) \<le> 2"
    and "\<forall>e \<in> set (nd_log (cs_nodes cs i)). transportable e" "nd_term (cs_nodes cs j) = nd_term (cs_nodes cs i)"
  obtains n R' where
    "(log_step False S)\<^sup>*\<^sup>* ls0 \<lparr>lg_cluster = set_node j n cs, lg_senders = P, lg_requests = R'\<rparr>"
    "election_inv S (set_node j n cs)" "nd_log n = merge_suffix (nd_log (cs_nodes cs j)) (nd_log (cs_nodes cs i))"
    "nd_term n = nd_term (cs_nodes cs j)" "nd_state (cs_nodes cs j) = Leader \<longrightarrow> nd_state n = Leader"
proof -
  let ?n = "cs_nodes cs i" and ?m = "cs_nodes cs j"
  have ok: "node_ok ?n" "node_ok ?m" "nd_id ?n = i"
    using inv_node_ok [OF assms(2)] assms(2-4) by (auto simp: election_inv_def nodes_inv_def node_inv_def)
  have size: "length (nd_log ?n) \<le> nat (cf_MaxEntriesPerAppend (nd_config ?n))"
    using assms(8,9) default_batch(2) by simp
  note r = request_from_start [OF ok(1) assms(7) size]
  let ?req = "request_for 1 ?n" and ?m' = "fst (processAppendEntries (request_for 1 ?n) ?m)"
  let ?ls = "\<lparr>lg_cluster = cs, lg_senders = P, lg_requests = R\<rparr>"
  let ?R = "insert (j, ?req, nd_log ?n) R"
  let ?ls1 = "?ls\<lparr>lg_requests := ?R\<rparr>"
  have "log_step False S ?ls (?ls\<lparr>lg_requests := insert (pr_ID (peer_named j), ?req, nd_log (lg_node ?ls i)) (lg_requests ?ls)\<rparr>)"
    by (rule log_step.build) (use r(1) assms(3,6) in simp_all)
  moreover have "log_step False S ?ls1 (?ls1\<lparr>lg_cluster := set_node j (fst (processAppendEntries ?req (lg_node ?ls1 j))) (lg_cluster ?ls1)\<rparr>)"
    by (rule log_step.deliver [of _ _ _ "nd_log ?n"]) (use r(5) ok(3) assms(4,5) in simp_all)
  ultimately have run: "(log_step False S)\<^sup>*\<^sup>* ls0 \<lparr>lg_cluster = set_node j ?m' cs, lg_senders = P, lg_requests = ?R\<rparr>"
    using assms(1) by (simp add: rtranclp.rtrancl_into_rtrancl)
  have "deliverable ?req" using built_request [OF ok(1) r(1)] by simp
  note d = deliver_log [OF ok(2) this]
  have inv: "election_inv S (set_node j ?m' cs)" by (rule inv_set_node [OF assms(2,4) d(3)])
  have "ae_Term ?req = nd_term ?m" using r(4) assms(11) by simp
  then have t: "nd_term ?m' = nd_term ?m"
    by (simp add: d(4))
  show thesis
  proof (rule that [OF run inv])
    show "nd_log ?m' = merge_suffix (nd_log ?m) (nd_log ?n)"
      by (rule deliver_from_start [OF ok(1) assms(7) size ok(2)]) (use assms(10,11) in simp_all)
    show "nd_state ?m = Leader \<longrightarrow> nd_state ?m' = Leader" using d(2) t by (simp add: lead_step_def)
  qed (rule t)
qed

text \<open>C36: Log matching fails as the code is. A leader that has passed the check and steps down
  before it builds its request puts the term it has just learnt on its old entries; the new
  leader of that term accepts the request, cuts its own log and makes another entry at an index
  of its term. In a cluster of three nodes, two logs come to hold different commands at the same
  index in the same term.\<close>

theorem stale_leader_breaks_log_matching:
  "\<exists>S (ls :: unit log_state) i j k. card S = 3 \<and> log_reachable False S ls \<and> i \<in> S \<and> j \<in> S \<and>
     k < length (nd_log (lg_node ls i)) \<and> k < length (nd_log (lg_node ls j)) \<and>
     le_Term (nd_log (lg_node ls i) ! k) = le_Term (nd_log (lg_node ls j) ! k) \<and>
     le_Data (nd_log (lg_node ls i) ! k) \<noteq> le_Data (nd_log (lg_node ls j) ! k)"
proof -
  let ?S = "set abc" and ?P = "{(''a'', peer_named ''b'')}" and ?ab = "peer_named ''b''" and ?bc = "peer_named ''c''"
  obtain cs :: "unit cluster_state" where cs:
    "(log_step False ?S)\<^sup>*\<^sup>* start_logs \<lparr>lg_cluster = cs, lg_senders = ?P, lg_requests = {}\<rparr>" "election_inv ?S cs"
    "nd_term (cs_nodes cs ''a'') = 2" "nd_log (cs_nodes cs ''a'') = [command_entry 1 1 [1]]"
    "nextIndex_of ''b'' (cs_nodes cs ''a'') = 1" "nd_config (cs_nodes cs ''a'') = DefaultConfig"
    "nd_state (cs_nodes cs ''b'') = Leader" "nd_term (cs_nodes cs ''b'') = 2" "nd_log (cs_nodes cs ''b'') = []"
    "nextIndex_of ''c'' (cs_nodes cs ''b'') = 1" "nd_config (cs_nodes cs ''b'') = DefaultConfig"
    "nd_peers (cs_nodes cs ''b'') = [peer_named ''a'', ?bc]"
    "nd_term (cs_nodes cs ''c'') = 2" "nd_log (cs_nodes cs ''c'') = []"
    by (rule second_leader)
  obtain b1 where b1:
    "(log_step False ?S)\<^sup>*\<^sup>* start_logs \<lparr>lg_cluster = set_node ''b'' b1 cs, lg_senders = ?P, lg_requests = {}\<rparr>"
    "election_inv ?S (set_node ''b'' b1 cs)" "nd_state b1 = Leader" "nd_term b1 = 2"
    "nd_log b1 = [command_entry 2 1 [2]]" "nd_leaderState b1 = nd_leaderState (cs_nodes cs ''b'')"
    "nd_config b1 = DefaultConfig" "nd_peers b1 = [peer_named ''a'', ?bc]"
    by (rule command_run [OF cs(1,2), of "''b''" "[2]"]) (use cs in simp_all)
  obtain b2 where b2:
    "(log_step False ?S)\<^sup>*\<^sup>* start_logs \<lparr>lg_cluster = set_node ''b'' b2 cs, lg_senders = ?P, lg_requests = {}\<rparr>"
    "election_inv ?S (set_node ''b'' b2 cs)" "nd_state b2 = Leader" "nd_term b2 = 2"
    "nd_log b2 = [command_entry 2 1 [2], command_entry 2 2 [3]]" "nd_leaderState b2 = nd_leaderState (cs_nodes cs ''b'')"
    "nd_config b2 = DefaultConfig" "nd_peers b2 = [peer_named ''a'', ?bc]"
    by (rule command_run [OF b1(1,2), of "''b''" "[3]"]) (use b1 in \<open>simp_all add: numeral_2_eq_2\<close>)
  let ?cs2 = "set_node ''b'' b2 cs" and ?Q = "insert (''b'', ?bc) ?P"
  let ?ls2 = "\<lparr>lg_cluster = ?cs2, lg_senders = ?P, lg_requests = {}\<rparr>"
  have "log_step False ?S ?ls2 (?ls2\<lparr>lg_senders := insert (''b'', ?bc) (lg_senders ?ls2)\<rparr>)"
    by (rule log_step.check) (use b2 in \<open>simp_all add: replicateToAll_peers_def\<close>)
  with b2(1) have run3: "(log_step False ?S)\<^sup>*\<^sup>* start_logs \<lparr>lg_cluster = ?cs2, lg_senders = ?Q, lg_requests = {}\<rparr>"
    by (simp add: rtranclp.rtrancl_into_rtrancl)
  obtain c3 R3 where c3:
    "(log_step False ?S)\<^sup>*\<^sup>* start_logs \<lparr>lg_cluster = set_node ''c'' c3 ?cs2, lg_senders = ?Q, lg_requests = R3\<rparr>"
    "election_inv ?S (set_node ''c'' c3 ?cs2)" "nd_log c3 = [command_entry 2 1 [2], command_entry 2 2 [3]]"
    by (rule deliver_run [OF run3 b2(2), of "''b''" "''c''"]) (use cs b2 in \<open>simp_all add: nextIndex_of_def\<close>)
  let ?cs3 = "set_node ''c'' c3 ?cs2"
  obtain b4 R4 where b4:
    "(log_step False ?S)\<^sup>*\<^sup>* start_logs \<lparr>lg_cluster = set_node ''b'' b4 ?cs3, lg_senders = ?Q, lg_requests = R4\<rparr>"
    "election_inv ?S (set_node ''b'' b4 ?cs3)" "nd_log b4 = [command_entry 1 1 [1]]" "nd_term b4 = 2" "nd_state b4 = Leader"
    by (rule deliver_run [OF c3(1,2), of "''a''" "''b''"]) (use cs b2 in simp_all)
  let ?cs4 = "set_node ''b'' b4 ?cs3"
  obtain b5 where b5:
    "(log_step False ?S)\<^sup>*\<^sup>* start_logs \<lparr>lg_cluster = set_node ''b'' b5 ?cs4, lg_senders = ?Q, lg_requests = R4\<rparr>"
    "nd_log b5 = [command_entry 1 1 [1], command_entry 2 2 [4]]"
    by (rule command_run [OF b4(1,2), of "''b''" "[4]"]) (use b4 in \<open>simp_all add: numeral_2_eq_2\<close>)
  let ?ls = "\<lparr>lg_cluster = set_node ''b'' b5 ?cs4, lg_senders = ?Q, lg_requests = R4\<rparr>"
  have "log_reachable False ?S ?ls" using b5(1) by (rule start_reachable)
  moreover have "card ?S = 3" by simp
  ultimately show ?thesis
    using b5(2) c3(3)
    by (intro exI [of _ ?S] exI [of _ ?ls] exI [of _ "''b''"] exI [of _ "''c''"] exI [of _ 1])
      (simp add: command_entry_def)
qed

end
