(* ===== verification/NodeLoops.thy ===== *)
theory NodeLoops
  imports RaftCluster
begin

text \<open>
  The goroutines of a node that loop until it stops: the main loop \<open>run\<close> of
  \<open>src/pkg/raft/node.go\<close>, the apply loop of \<open>commit.go\<close>, the heartbeat loop
  of \<open>heartbeat.go\<close> with the round of heartbeats it sends, and the replication loop of
  \<open>replication.go\<close>. A loop is given the list of the cases its \<open>select\<close> takes,
  each with what the rest of the node (handlers, other goroutines) did to the node while the
  loop waited; the result says whether the loop has returned. A case that is not ready (the
  stop channel is open, the channel of a timer is empty) is not taken. A round that starts
  one goroutine per peer is given the order in which the goroutines take their steps.
\<close>

section \<open>The main loop and the apply loop\<close>

datatype run_case =
    RunStopped
  | RunElectionTimer time "RequestVoteResponse option list"

fun run_loop :: "(('sm Node \<Rightarrow> 'sm Node) \<times> run_case) list \<Rightarrow> 'sm Node \<Rightarrow> 'sm Node \<times> bool" where
  "run_loop [] n = (n, False)"
| "run_loop ((meanwhile, RunStopped) # cs) n =
     (let n = meanwhile n in if nd_stopCh_closed n then (n, True) else run_loop cs n)"
| "run_loop ((meanwhile, RunElectionTimer now outcomes) # cs) n =
     (let n = meanwhile n in
      case ElectionTimer_recv (nd_electionTimer n) of
        None \<Rightarrow> run_loop cs n
      | Some t \<Rightarrow> run_loop cs (handleElectionTimeout now outcomes (n\<lparr>nd_electionTimer := t\<rparr>)))"

datatype ticker_case = TickerStopped | Ticked

fun startApplyLoop ::
  "(bytes \<Rightarrow> 'sm \<Rightarrow> 'sm) \<Rightarrow> (('sm Node \<Rightarrow> 'sm Node) \<times> ticker_case) list \<Rightarrow> 'sm Node \<Rightarrow> 'sm Node \<times> bool" where
  "startApplyLoop apply [] n = (n, False)"
| "startApplyLoop apply ((meanwhile, TickerStopped) # cs) n =
     (let n = meanwhile n in if nd_stopCh_closed n then (n, True) else startApplyLoop apply cs n)"
| "startApplyLoop apply ((meanwhile, Ticked) # cs) n =
     (let n = meanwhile n in startApplyLoop apply cs (applyCommittedEntries apply n))"


section \<open>A round of heartbeats\<close>

text \<open>
  \<open>sendHeartbeats\<close> starts \<open>sendHeartbeatToPeer\<close> for every peer and waits for
  all of them. A goroutine builds its request under the lock, calls the peer without it, and
  handles the response under the lock; \<open>hr_todo\<close> holds the peers whose request is not
  built yet and \<open>hr_calls\<close> the calls in progress. No client for a peer is a call
  that ends without response.
\<close>

record heartbeat_round =
  hr_term :: u64
  hr_commit :: u64
  hr_todo :: "Peer list"
  hr_calls :: "(Peer \<times> AppendEntriesRequest) list"

datatype 'sm heartbeat_event =
    BuildsRequest Peer
  | CallEnds Peer AppendEntriesRequest "AppendEntriesResponse option"
  | OthersRun "'sm Node \<Rightarrow> 'sm Node"

definition sendHeartbeatToPeer ::
  "'sm heartbeat_event \<Rightarrow> heartbeat_round \<times> 'sm Node \<Rightarrow> heartbeat_round \<times> 'sm Node" where
  "sendHeartbeatToPeer ev s =
     (let (r, n) = s in
      case ev of
        BuildsRequest peer \<Rightarrow>
          if peer \<in> set (hr_todo r) then
            let req = sendHeartbeatToPeer_request peer (hr_term r) (hr_commit r) n
            in (r\<lparr>hr_todo := remove1 peer (hr_todo r), hr_calls := (peer, req) # hr_calls r\<rparr>, n)
          else (r, n)
      | CallEnds peer req outcome \<Rightarrow>
          if (peer, req) \<in> set (hr_calls r) then
            let r = r\<lparr>hr_calls := remove1 (peer, req) (hr_calls r)\<rparr>
            in case outcome of
                 None \<Rightarrow> (r, n)
               | Some resp \<Rightarrow> (r, sendHeartbeatToPeer_response peer (hr_term r) resp n)
          else (r, n)
      | OthersRun f \<Rightarrow> (r, f n))"

definition sendHeartbeats :: "'sm heartbeat_event list \<Rightarrow> 'sm Node \<Rightarrow> heartbeat_round \<times> 'sm Node" where
  "sendHeartbeats evs n =
     (case sendHeartbeats_begin n of
        None \<Rightarrow> (\<lparr>hr_term = 0, hr_commit = 0, hr_todo = [], hr_calls = []\<rparr>, n)
      | Some (currentTerm, commitIndex, peers) \<Rightarrow>
          fold sendHeartbeatToPeer evs
            (\<lparr>hr_term = currentTerm, hr_commit = commitIndex, hr_todo = peers, hr_calls = []\<rparr>, n))"

text \<open>\<open>wg.Wait()\<close> returns.\<close>

definition round_over :: "heartbeat_round \<Rightarrow> bool" where
  "round_over r \<longleftrightarrow> hr_todo r = [] \<and> hr_calls r = []"

datatype 'sm heartbeat_case =
    HeartbeatStopped
  | HeartbeatTimerTick "'sm heartbeat_event list"

definition heartbeat_tick :: "'sm Node \<Rightarrow> 'sm Node option" where
  "heartbeat_tick n =
     (case nd_heartbeatTimer n of
        None \<Rightarrow> None
      | Some ht \<Rightarrow> if ht_c ht then Some (n\<lparr>nd_heartbeatTimer := Some (ht\<lparr>ht_c := False\<rparr>)\<rparr>) else None)"

fun handleHeartbeatTicks ::
  "(('sm Node \<Rightarrow> 'sm Node) \<times> 'sm heartbeat_case) list \<Rightarrow> 'sm Node \<Rightarrow> 'sm Node \<times> bool" where
  "handleHeartbeatTicks [] n = (n, False)"
| "handleHeartbeatTicks ((meanwhile, HeartbeatStopped) # cs) n =
     (let n = meanwhile n in if nd_stopCh_closed n then (n, True) else handleHeartbeatTicks cs n)"
| "handleHeartbeatTicks ((meanwhile, HeartbeatTimerTick evs) # cs) n =
     (let n = meanwhile n in
      case heartbeat_tick n of
        None \<Rightarrow> handleHeartbeatTicks cs n
      | Some n \<Rightarrow>
          (if nd_state n \<noteq> Leader then (n, True)
           else let (r, n) = sendHeartbeats evs n
                in if round_over r then handleHeartbeatTicks cs n else (n, False)))"


section \<open>A round of replication\<close>

text \<open>
  \<open>replicateToPeer\<close> holds the lock in pieces: it checks that the node leads and reads
  the indices, builds the request, calls the peer, handles the response, and looks whether
  there is more to send. The stages carry the attempts left and the last log index read.
\<close>

datatype repl_stage =
    AttemptStarts nat
  | Checked nat u64 bool
  | Calling nat u64 bool AppendEntriesRequest
  | SentEntries nat u64
  | ReplDone

definition replicateToPeer_step ::
  "Peer \<Rightarrow> AppendEntriesResponse option \<Rightarrow> repl_stage \<times> 'sm Node \<Rightarrow> go_panic + (repl_stage \<times> 'sm Node)" where
  "replicateToPeer_step peer outcome s =
     (let (stage, n) = s in
      case stage of
        AttemptStarts 0 \<Rightarrow> Inr (ReplDone, n)
      | AttemptStarts (Suc attempts) \<Rightarrow>
          if nd_state n \<noteq> Leader then Inr (ReplDone, n)
          else
            let nextIndex = nextIndex_of (pr_ID peer) n;
                (lastLogIndex, _) = LastLogIndexAndTerm (nd_serverState n)
            in Inr (Checked attempts lastLogIndex (nextIndex \<le> lastLogIndex), n)
      | Checked attempts lastLogIndex hasEntriesToSend \<Rightarrow>
          (case buildAppendEntriesRequest (pr_ID peer) n of
             Inl p \<Rightarrow> Inl p
           | Inr req \<Rightarrow> Inr (Calling attempts lastLogIndex hasEntriesToSend req, n))
      | Calling attempts lastLogIndex hasEntriesToSend req \<Rightarrow>
          (case outcome of
             None \<Rightarrow> Inr (AttemptStarts attempts, n)
           | Some resp \<Rightarrow>
               let (n, success) = handleAppendEntriesResponse peer req resp n
               in Inr (if success
                       then if hasEntriesToSend then SentEntries attempts lastLogIndex else ReplDone
                       else AttemptStarts attempts, n))
      | SentEntries attempts lastLogIndex \<Rightarrow>
          Inr (if nextIndex_of (pr_ID peer) n \<le> lastLogIndex then AttemptStarts attempts else ReplDone, n)
      | ReplDone \<Rightarrow> Inr (ReplDone, n))"

datatype 'sm repl_event =
    GoroutineSteps nat "AppendEntriesResponse option"
  | NodeChanges "'sm Node \<Rightarrow> 'sm Node"

definition replicateToAll_start :: "'sm Node \<Rightarrow> (Peer \<times> repl_stage) list" where
  "replicateToAll_start n =
     map (\<lambda>p. (p, AttemptStarts (nat (cf_MaxAppendEntriesRetries (nd_config n))))) (replicateToAll_peers n)"

fun replicateToAll_run ::
  "'sm repl_event list \<Rightarrow> (Peer \<times> repl_stage) list \<times> 'sm Node \<Rightarrow> go_panic + ((Peer \<times> repl_stage) list \<times> 'sm Node)" where
  "replicateToAll_run [] s = Inr s"
| "replicateToAll_run (NodeChanges f # evs) (gs, n) = replicateToAll_run evs (gs, f n)"
| "replicateToAll_run (GoroutineSteps i outcome # evs) (gs, n) =
     (if i < length gs then
        case replicateToPeer_step (fst (gs ! i)) outcome (snd (gs ! i), n) of
          Inl p \<Rightarrow> Inl p
        | Inr (stage, n) \<Rightarrow> replicateToAll_run evs (gs[i := (fst (gs ! i), stage)], n)
      else replicateToAll_run evs (gs, n))"

definition replicateToAll ::
  "'sm repl_event list \<Rightarrow> 'sm Node \<Rightarrow> go_panic + ((Peer \<times> repl_stage) list \<times> 'sm Node)" where
  "replicateToAll evs n = replicateToAll_run evs (replicateToAll_start n, n)"

definition replication_over :: "(Peer \<times> repl_stage) list \<Rightarrow> bool" where
  "replication_over gs \<longleftrightarrow> (\<forall>g \<in> set gs. snd g = ReplDone)"

datatype 'sm replication_case =
    ReplicationStopped
  | ReplicationTick "'sm repl_event list"

text \<open>The loop of \<open>startReplication\<close>, then the function itself.\<close>

fun replication_loop ::
  "(('sm Node \<Rightarrow> 'sm Node) \<times> 'sm replication_case) list \<Rightarrow> 'sm Node \<Rightarrow> go_panic + ('sm Node \<times> bool)" where
  "replication_loop [] n = Inr (n, False)"
| "replication_loop ((meanwhile, ReplicationStopped) # cs) n =
     (let n = meanwhile n in if nd_stopCh_closed n then Inr (n, True) else replication_loop cs n)"
| "replication_loop ((meanwhile, ReplicationTick evs) # cs) n =
     (let n = meanwhile n in
      if nd_state n \<noteq> Leader then Inr (n, True)
      else case replicateToAll evs n of
             Inl p \<Rightarrow> Inl p
           | Inr (gs, n) \<Rightarrow> if replication_over gs then replication_loop cs n else Inr (n, False))"

definition startReplication ::
  "'sm repl_event list \<Rightarrow> (('sm Node \<Rightarrow> 'sm Node) \<times> 'sm replication_case) list \<Rightarrow> 'sm Node
     \<Rightarrow> go_panic + ('sm Node \<times> bool)" where
  "startReplication first cs n =
     (case replicateToAll first n of
        Inl p \<Rightarrow> Inl p
      | Inr (gs, n) \<Rightarrow> if replication_over gs then replication_loop cs n else Inr (n, False))"


section \<open>The steps of one goroutine, uninterrupted\<close>

text \<open>
  \<open>replicateToPeer_loop\<close> is the goroutine run on its own: the steps in sequence,
  each call answered by \<open>call\<close>. A bounded number of steps ends it.
\<close>

fun drive ::
  "('w \<Rightarrow> AppendEntriesRequest \<Rightarrow> AppendEntriesResponse option \<times> 'w) \<Rightarrow> Peer \<Rightarrow> nat
     \<Rightarrow> repl_stage \<times> 'sm Node \<Rightarrow> 'w \<Rightarrow> go_panic + (repl_stage \<times> 'sm Node \<times> 'w)" where
  "drive call peer 0 s w = Inr (fst s, snd s, w)"
| "drive call peer (Suc k) s w =
     (let (outcome, w) = (case fst s of Calling _ _ _ req \<Rightarrow> call w req | _ \<Rightarrow> (None, w))
      in case replicateToPeer_step peer outcome s of
           Inl p \<Rightarrow> Inl p
         | Inr s \<Rightarrow> drive call peer k s w)"

lemma drive_done: "drive call peer k (ReplDone, n) w = Inr (ReplDone, n, w)"
  by (induction k) (simp_all add: replicateToPeer_step_def)

lemma drive_steps:
  "drive call peer (Suc k) (AttemptStarts 0, n) w = drive call peer k (ReplDone, n) w"
  "drive call peer (Suc k) (AttemptStarts (Suc a), n) w =
     (if nd_state n \<noteq> Leader then drive call peer k (ReplDone, n) w
      else drive call peer k
        (Checked a (fst (LastLogIndexAndTerm (nd_serverState n)))
           (nextIndex_of (pr_ID peer) n \<le> fst (LastLogIndexAndTerm (nd_serverState n))), n) w)"
  "drive call peer (Suc k) (Checked a l h, n) w =
     (case buildAppendEntriesRequest (pr_ID peer) n of
        Inl p \<Rightarrow> Inl p | Inr req \<Rightarrow> drive call peer k (Calling a l h req, n) w)"
  "drive call peer (Suc k) (SentEntries a l, n) w =
     drive call peer k (if nextIndex_of (pr_ID peer) n \<le> l then AttemptStarts a else ReplDone, n) w"
  by (simp_all add: replicateToPeer_step_def case_prod_unfold Let_def split: sum.split)

lemma drive_call:
  "drive call peer (Suc k) (Calling a l h req, n) w =
     (case call w req of
        (None, w) \<Rightarrow> drive call peer k (AttemptStarts a, n) w
      | (Some resp, w) \<Rightarrow>
          let (n, success) = handleAppendEntriesResponse peer req resp n
          in drive call peer k
               (if success then if h then SentEntries a l else ReplDone else AttemptStarts a, n) w)"
  by (simp add: replicateToPeer_step_def case_prod_unfold Let_def split: option.split)

lemma drive_replicateToPeer:
  "4 * attempts + 1 \<le> k \<Longrightarrow>
   drive call peer k (AttemptStarts attempts, n) w =
     (case replicateToPeer_loop call peer attempts n w of
        Inl p \<Rightarrow> Inl p | Inr (n, w) \<Rightarrow> Inr (ReplDone, n, w))"
proof (induction attempts arbitrary: k n w)
  case 0
  then obtain k' where "k = Suc k'" by (cases k) auto
  then show ?case by (simp only: drive_steps drive_done) simp
next
  case (Suc attempts)
  define k' where "k' = k - 4"
  have k: "k = Suc (Suc (Suc (Suc k')))" and k': "4 * attempts + 1 \<le> k'"
    using Suc.prems by (simp_all add: k'_def)
  have k'': "4 * attempts + 1 \<le> Suc k'" using k' by simp
  note IH = Suc.IH [OF k'] Suc.IH [OF k'']
  note steps = drive_steps drive_call drive_done
  show ?case
  proof (cases "nd_state n = Leader")
    case False
    then show ?thesis unfolding k by (simp only: steps if_True) simp
  next
    case leader: True
    show ?thesis
    proof (cases "buildAppendEntriesRequest (pr_ID peer) n")
      case (Inl p)
      with leader show ?thesis unfolding k
        by (simp only: steps) (simp add: sendAppendEntries_def case_prod_unfold)
    next
      case (Inr req)
      obtain outcome w1 where call: "call w req = (outcome, w1)" by (cases "call w req")
      show ?thesis
      proof (cases outcome)
        case None
        with leader Inr call show ?thesis unfolding k
          by (simp only: steps) (simp add: sendAppendEntries_def case_prod_unfold IH del: drive.simps)
      next
        case (Some resp)
        obtain n1 success where resp: "handleAppendEntriesResponse peer req resp n = (n1, success)"
          by (cases "handleAppendEntriesResponse peer req resp n")
        with leader Inr call Some show ?thesis unfolding k
          by (simp only: steps)
            (simp add: sendAppendEntries_def case_prod_unfold steps IH del: drive.simps)
      qed
    qed
  qed
qed

theorem replicateToPeer_is_its_steps:
  assumes "4 * nat (cf_MaxAppendEntriesRetries (nd_config n)) + 1 \<le> k"
  shows "drive call peer k (AttemptStarts (nat (cf_MaxAppendEntriesRetries (nd_config n))), n) w =
     (case replicateToPeer call peer n w of
        Inl p \<Rightarrow> Inl p | Inr (n', w') \<Rightarrow> Inr (ReplDone, n', w'))"
  using drive_replicateToPeer [OF assms] by (simp add: replicateToPeer_def Let_def)


section \<open>What the leader's loops do to the node\<close>

lemma vote_neutral_trans: "vote_neutral n n' \<Longrightarrow> vote_neutral n' n'' \<Longrightarrow> vote_neutral n n''"
  by (auto simp: vote_neutral_def)

lemma sendHeartbeatToPeer_neutral:
  assumes "\<And>f. ev = OthersRun f \<Longrightarrow> vote_neutral (snd s) (f (snd s))"
  shows "vote_neutral (snd s) (snd (sendHeartbeatToPeer ev s))"
  using assms
  by (auto simp: sendHeartbeatToPeer_def case_prod_unfold Let_def vote_neutral_heartbeat_response
      split: heartbeat_event.splits option.splits)

lemma heartbeats_neutral:
  assumes "\<And>f n. OthersRun f \<in> set evs \<Longrightarrow> vote_neutral n (f n)"
  shows "vote_neutral (snd s) (snd (fold sendHeartbeatToPeer evs s))"
  using assms
proof (induction evs arbitrary: s)
  case Nil
  then show ?case by simp
next
  case (Cons ev evs)
  have "vote_neutral (snd s) (snd (sendHeartbeatToPeer ev s))"
    using Cons.prems by (intro sendHeartbeatToPeer_neutral) auto
  moreover have "vote_neutral (snd (sendHeartbeatToPeer ev s)) (snd (fold sendHeartbeatToPeer evs (sendHeartbeatToPeer ev s)))"
    using Cons by (intro Cons.IH) auto
  ultimately show ?case by (simp add: vote_neutral_trans)
qed

text \<open>Every request of a round is empty, and carries the term and commit index the round began with.\<close>

definition round_requests_ok :: "heartbeat_round \<Rightarrow> bool" where
  "round_requests_ok r \<longleftrightarrow>
     (\<forall>(peer, req) \<in> set (hr_calls r).
        ae_Term req = hr_term r \<and> ae_LeaderCommit req = hr_commit r \<and> ae_Entries req = [])"

lemma heartbeat_requests:
  "round_requests_ok (fst s) \<Longrightarrow>
   round_requests_ok (fst (sendHeartbeatToPeer ev s)) \<and>
   hr_term (fst (sendHeartbeatToPeer ev s)) = hr_term (fst s) \<and>
   hr_commit (fst (sendHeartbeatToPeer ev s)) = hr_commit (fst s)"
  by (auto simp: sendHeartbeatToPeer_def case_prod_unfold Let_def round_requests_ok_def
      sendHeartbeatToPeer_request_def dest: subsetD [OF set_remove1_subset]
      split: heartbeat_event.splits option.splits)

lemma replicateToPeer_step_neutral:
  "replicateToPeer_step peer outcome (stage, n) = Inr (stage', n') \<Longrightarrow> vote_neutral n n'"
  by (auto simp: replicateToPeer_step_def case_prod_unfold Let_def vote_neutral_append_response
      split: repl_stage.splits nat.splits if_splits sum.splits option.splits)

lemma replicateToAll_run_neutral:
  "replicateToAll_run evs s = Inr s' \<Longrightarrow> (\<And>f n. NodeChanges f \<in> set evs \<Longrightarrow> vote_neutral n (f n)) \<Longrightarrow>
   vote_neutral (snd s) (snd s')"
proof (induction evs s rule: replicateToAll_run.induct)
  case (1 s)
  then show ?case by simp
next
  case (2 f evs gs n)
  then show ?case by (auto intro: vote_neutral_trans)
next
  case (3 i outcome evs gs n)
  show ?case
  proof (cases "i < length gs")
    case True
    then obtain stage n1 where step: "replicateToPeer_step (fst (gs ! i)) outcome (snd (gs ! i), n) = Inr (stage, n1)"
      using "3.prems"(1) by (auto split: sum.splits)
    have "vote_neutral n1 (snd s')"
      using "3.IH"(1) [OF True step refl] "3.prems" True step by auto
    with replicateToPeer_step_neutral [OF step] show ?thesis by (auto intro: vote_neutral_trans)
  next
    case False
    with 3 show ?thesis by auto
  qed
qed


section \<open>When the loops end\<close>

text \<open>The stop channel ends every loop; nothing closes the loop of a running node but that.\<close>

lemma loops_stop:
  "nd_stopCh_closed (f n) \<Longrightarrow> run_loop ((f, RunStopped) # cs) n = (f n, True)"
  "nd_stopCh_closed (f n) \<Longrightarrow> startApplyLoop apply ((f, TickerStopped) # ts) n = (f n, True)"
  "nd_stopCh_closed (f n) \<Longrightarrow> handleHeartbeatTicks ((f, HeartbeatStopped) # hs) n = (f n, True)"
  "nd_stopCh_closed (f n) \<Longrightarrow> replication_loop ((f, ReplicationStopped) # rs) n = Inr (f n, True)"
  by simp_all

lemma leader_loops_end_with_leadership:
  "nd_state (f n) \<noteq> Leader \<Longrightarrow> heartbeat_tick (f n) = Some m \<Longrightarrow>
   handleHeartbeatTicks ((f, HeartbeatTimerTick evs) # hs) n = (m, True)"
  "nd_state (f n) \<noteq> Leader \<Longrightarrow> replication_loop ((f, ReplicationTick es) # rs) n = Inr (f n, True)"
  by (auto simp: heartbeat_tick_def split: option.splits if_splits)

text \<open>
  The apply loop never forgets what it applied: as long as the rest of the node keeps the
  state machine the replay of the applied prefix, so does the loop, and after a tick every
  committed entry the log holds at that moment has been applied.
\<close>

lemma startApplyLoop_replayed:
  "replayed apply sm0 n \<Longrightarrow> (\<And>f c m. (f, c) \<in> set cs \<Longrightarrow> replayed apply sm0 m \<Longrightarrow> replayed apply sm0 (f m)) \<Longrightarrow>
   replayed apply sm0 (fst (startApplyLoop apply cs n))"
proof (induction "apply" cs n rule: startApplyLoop.induct)
  case (1 g n)
  then show ?case by simp
next
  case (2 g f cs n)
  then have "replayed g sm0 (f n)" by auto
  with 2 show ?case by (auto simp: Let_def)
next
  case (3 g f cs n)
  then have "replayed g sm0 (applyCommittedEntries g (f n))"
    by (intro replayed_applyCommitted) auto
  with 3 show ?case by (auto simp: Let_def)
qed

lemma startApplyLoop_catches_up:
  assumes "slice_ok (nd_log (f n))"
  shows "startApplyLoop apply ((f, Ticked) # cs) n = startApplyLoop apply cs (applyCommittedEntries apply (f n))"
    and "min (unat (nd_commitIndex (f n))) (length (nd_log (f n)))
           \<le> unat (nd_lastApplied (applyCommittedEntries apply (f n)))"
  using applyCommittedEntries_eq [OF assms, of "apply"] by simp_all

text \<open>
  The main loop reacts to ticks of the election timer only. A candidate whose election
  brought no vote has a timer that has fired and is not armed again, so unless a handler
  changes the node it never starts another election.
\<close>

lemma run_loop_without_tick:
  "\<not> et_c (nd_electionTimer n) \<Longrightarrow> \<not> nd_stopCh_closed n \<Longrightarrow> \<forall>(f, c) \<in> set cs. f = (\<lambda>n. n) \<Longrightarrow>
   run_loop cs n = (n, False)"
proof (induction cs)
  case Nil
  then show ?case by simp
next
  case (Cons fc cs)
  obtain f c where fc: "fc = (f, c)" by (cases fc)
  with Cons show ?case by (cases c) (auto simp: ElectionTimer_recv_def)
qed

lemma becomeCandidate_again:
  "nd_state n = Candidate \<Longrightarrow> nd_electionTimer (becomeCandidate now n) = nd_electionTimer n"
  "nd_stopCh_closed (becomeCandidate now n) = nd_stopCh_closed n"
  by (simp_all add: becomeCandidate_def setState_def Let_def case_prod_unfold)

lemma countVotes_without_vote: "True \<notin> set votes \<Longrightarrow> countVotes t needed votes n = n"
  by (induction votes) auto

lemma failed_election:
  assumes "nd_state n = Candidate"
    and "\<forall>resp. Some resp \<in> set outcomes \<longrightarrow> vr_Term resp \<le> nd_term n + 1"
    and "\<forall>r \<in> set outcomes. \<not> vote_of (nd_term n + 1) r"
  shows "startElection now outcomes n = becomeCandidate now n"
proof -
  have "collectVotes (nd_term n + 1) outcomes (becomeCandidate now n)
      = (becomeCandidate now n, map (vote_of (nd_term n + 1)) outcomes)"
    using collectVotes_no_higher_term [of outcomes "becomeCandidate now n"] assms(2) by simp
  moreover have "True \<notin> set (map (vote_of (nd_term n + 1)) outcomes)" using assms(3) by auto
  ultimately show ?thesis
    by (simp add: startElection_def startElection_begin_eq countVotes_without_vote)
qed



end
