(* ===== verification/ApiSession.thy ===== *)
theory ApiSession
  imports RaftNode
begin

text \<open>
  Requests, responses and errors of the client API, and the sessions that recognise a
  repeated request: \<open>src/pkg/api/types.go\<close>, \<open>src/pkg/api/errors.go\<close> and
  \<open>src/pkg/api/session.go\<close>. The session map and the sessions in it are values, so each
  method of the manager is one step; in the code \<open>CacheResponse\<close> looks the session up
  and updates it under two locks. What the server relies on is the locale
  \<open>response_cache\<close>, of which the sessions are an interpretation.
\<close>

section \<open>Requests and responses\<close>

datatype OperationType = OperationPut | OperationGet | OperationDelete | OtherOperation int

definition OperationType_String :: "OperationType \<Rightarrow> string" where
  "OperationType_String t =
     (case t of OperationPut \<Rightarrow> ''PUT'' | OperationGet \<Rightarrow> ''GET'' | OperationDelete \<Rightarrow> ''DELETE''
      | OtherOperation _ \<Rightarrow> ''UNKNOWN'')"

record Request =
  rq_ID :: string
  rq_ClientID :: string
  rq_Sequence :: u64
  rq_Type :: OperationType
  rq_Key :: string
  rq_Value :: "bytes option"
  rq_Timeout :: duration

record Response =
  rs_Success :: bool
  rs_Value :: "bytes option"
  rs_Error :: string
  rs_LeaderID :: string
  rs_LeaderAddress :: string

abbreviation ErrCodeNotLeader :: string where "ErrCodeNotLeader \<equiv> ''not_leader''"
abbreviation ErrCodeKeyNotFound :: string where "ErrCodeKeyNotFound \<equiv> ''key_not_found''"
abbreviation ErrCodeTimeout :: string where "ErrCodeTimeout \<equiv> ''timeout''"

definition error_response :: "string \<Rightarrow> Response" where
  "error_response e =
     \<lparr>rs_Success = False, rs_Value = None, rs_Error = e, rs_LeaderID = '''', rs_LeaderAddress = ''''\<rparr>"

definition success_response :: "bytes option \<Rightarrow> Response" where
  "success_response v =
     \<lparr>rs_Success = True, rs_Value = v, rs_Error = '''', rs_LeaderID = '''', rs_LeaderAddress = ''''\<rparr>"


section \<open>Errors\<close>

datatype ErrorType =
    ErrorTypeNotLeader | ErrorTypeKeyNotFound | ErrorTypeTimeout | ErrorTypeInvalidRequest
  | ErrorTypeInternalError | ErrorTypeUnavailable

text \<open>The values of the details map are strings in every constructor of the package.\<close>

record Error =
  er_Type :: ErrorType
  er_Message :: string
  er_Details :: "string \<rightharpoonup> string"

definition NewError :: "ErrorType \<Rightarrow> string \<Rightarrow> Error" where
  "NewError errType message = \<lparr>er_Type = errType, er_Message = message, er_Details = Map.empty\<rparr>"

definition WithDetail :: "string \<Rightarrow> string \<Rightarrow> Error \<Rightarrow> Error" where
  "WithDetail key v e = e\<lparr>er_Details := (er_Details e)(key \<mapsto> v)\<rparr>"

definition IsRetryable :: "Error \<Rightarrow> bool" where
  "IsRetryable e \<longleftrightarrow>
     (case er_Type e of
        ErrorTypeNotLeader \<Rightarrow> True | ErrorTypeTimeout \<Rightarrow> True | ErrorTypeUnavailable \<Rightarrow> True
      | _ \<Rightarrow> False)"

definition ErrNotLeaderError :: "string \<Rightarrow> Error" where
  "ErrNotLeaderError leaderID =
     (let err = NewError ErrorTypeNotLeader ''not the leader'' in
      if leaderID \<noteq> '''' then WithDetail ''leader_id'' leaderID err else err)"

definition ErrKeyNotFoundError :: "string \<Rightarrow> Error" where
  "ErrKeyNotFoundError key =
     WithDetail ''key'' key (NewError ErrorTypeKeyNotFound (''key not found: '' @ key))"

definition ErrTimeoutError :: "string \<Rightarrow> Error" where
  "ErrTimeoutError operation =
     WithDetail ''operation'' operation (NewError ErrorTypeTimeout (''operation timed out: '' @ operation))"

definition ErrInvalidRequestError :: "string \<Rightarrow> Error" where
  "ErrInvalidRequestError reason =
     WithDetail ''reason'' reason (NewError ErrorTypeInvalidRequest (''invalid request: '' @ reason))"

definition ErrInternalError :: "string \<Rightarrow> Error" where
  "ErrInternalError err =
     WithDetail ''underlying_error'' err (NewError ErrorTypeInternalError (''internal error: '' @ err))"

definition ErrUnavailable :: Error where
  "ErrUnavailable = NewError ErrorTypeUnavailable ''cluster unavailable''"


section \<open>Sessions\<close>

record ClientSession =
  cl_clientID :: string
  cl_lastSequence :: u64
  cl_lastResponse :: "Response option"
  cl_lastRequestTime :: time
  cl_createdAt :: time

record SessionManager =
  sm_sessions :: "string \<rightharpoonup> ClientSession"
  sm_maxSessionAge :: duration
  sm_cleanupTicker :: bool        \<comment> \<open>running\<close>
  sm_stopCleanup_closed :: bool

definition startCleanup :: "SessionManager \<Rightarrow> SessionManager" where
  "startCleanup sm = sm\<lparr>sm_cleanupTicker := True\<rparr>"

definition NewSessionManager :: "duration \<Rightarrow> SessionManager" where
  "NewSessionManager maxSessionAge =
     startCleanup \<lparr>sm_sessions = Map.empty, sm_maxSessionAge = maxSessionAge, sm_cleanupTicker = False,
                   sm_stopCleanup_closed = False\<rparr>"

text \<open>\<open>now1\<close> and \<open>now2\<close> are the two clock readings for a new session.\<close>

definition GetOrCreateSession ::
  "time \<Rightarrow> time \<Rightarrow> string \<Rightarrow> SessionManager \<Rightarrow> SessionManager \<times> ClientSession" where
  "GetOrCreateSession now1 now2 clientID sm =
     (case sm_sessions sm clientID of
        Some session \<Rightarrow> (sm, session)
      | None \<Rightarrow>
          let session = \<lparr>cl_clientID = clientID, cl_lastSequence = 0, cl_lastResponse = None,
                         cl_lastRequestTime = now2, cl_createdAt = now1\<rparr>
          in (sm\<lparr>sm_sessions := (sm_sessions sm)(clientID \<mapsto> session)\<rparr>, session))"

definition GetSession :: "string \<Rightarrow> SessionManager \<Rightarrow> ClientSession option" where
  "GetSession clientID sm = sm_sessions sm clientID"

definition CheckDuplicate :: "string \<Rightarrow> u64 \<Rightarrow> SessionManager \<Rightarrow> Response option \<times> bool" where
  "CheckDuplicate clientID sequence sm =
     (case GetSession clientID sm of
        None \<Rightarrow> (None, False)
      | Some session \<Rightarrow>
          if sequence \<le> cl_lastSequence session then (cl_lastResponse session, True)
          else (None, False))"

definition CacheResponse ::
  "time \<times> time \<times> time \<Rightarrow> string \<Rightarrow> u64 \<Rightarrow> Response option \<Rightarrow> SessionManager \<Rightarrow> SessionManager" where
  "CacheResponse clock clientID sequence resp sm =
     (let (now1, now2, now3) = clock;
          (sm, session) = GetOrCreateSession now1 now2 clientID sm
      in
        if sequence > cl_lastSequence session
        then sm\<lparr>sm_sessions := (sm_sessions sm)(clientID \<mapsto>
               session\<lparr>cl_lastSequence := sequence, cl_lastResponse := resp, cl_lastRequestTime := now3\<rparr>)\<rparr>
        else sm)"

definition cleanup :: "time \<Rightarrow> SessionManager \<Rightarrow> SessionManager" where
  "cleanup now sm =
     sm\<lparr>sm_sessions := (\<lambda>clientID.
       case sm_sessions sm clientID of
         None \<Rightarrow> None
       | Some session \<Rightarrow>
           if now - cl_lastRequestTime session > sm_maxSessionAge sm then None else Some session)\<rparr>"

text \<open>Closing a closed channel panics.\<close>

definition SessionManager_Stop :: "SessionManager \<Rightarrow> go_panic + SessionManager" where
  "SessionManager_Stop sm =
     (let sm = sm\<lparr>sm_cleanupTicker := False\<rparr> in
      if sm_stopCleanup_closed sm then Inl CloseOfClosedChannel
      else Inr (sm\<lparr>sm_stopCleanup_closed := True\<rparr>))"

definition SessionCount :: "SessionManager \<Rightarrow> nat" where
  "SessionCount sm = card (dom (sm_sessions sm))"

record SessionInfo =
  si_ClientID :: string
  si_LastSequence :: u64
  si_LastRequestTime :: time
  si_CreatedAt :: time
  si_Age :: duration

definition GetSessionInfo :: "time \<Rightarrow> string \<Rightarrow> SessionManager \<Rightarrow> SessionInfo option" where
  "GetSessionInfo now clientID sm =
     map_option (\<lambda>session.
       \<lparr>si_ClientID = cl_clientID session, si_LastSequence = cl_lastSequence session,
        si_LastRequestTime = cl_lastRequestTime session, si_CreatedAt = cl_createdAt session,
        si_Age = now - cl_createdAt session\<rparr>) (GetSession clientID sm)"


section \<open>The contract of a response cache\<close>

text \<open>
  A cache keeps for every client the highest sequence number it was given and the response
  that came with it: a number up to that one is a duplicate and is answered by that response.
\<close>

locale response_cache =
  fixes check :: "'k \<Rightarrow> 's :: linorder \<Rightarrow> 'c \<Rightarrow> 'r option \<times> bool"
    and cache :: "'t \<Rightarrow> 'k \<Rightarrow> 's \<Rightarrow> 'r option \<Rightarrow> 'c \<Rightarrow> 'c"
    and latest :: "'k \<Rightarrow> 'c \<Rightarrow> 's"
    and response :: "'k \<Rightarrow> 'c \<Rightarrow> 'r option"
    and least :: 's
  assumes check_latest: "least < s \<Longrightarrow> check k s c = (if s \<le> latest k c then (response k c, True) else (None, False))"
    and latest_cache: "latest k (cache t k' s r c) = (if k = k' then max (latest k c) s else latest k c)"
    and response_cache: "response k (cache t k' s r c) = (if k = k' \<and> latest k c < s then r else response k c)"
begin

text \<open>\<open>newer c c'\<close>: nothing was forgotten from \<open>c\<close> to \<open>c'\<close>.\<close>

definition newer :: "'c \<Rightarrow> 'c \<Rightarrow> bool" where
  "newer c c' \<longleftrightarrow>
     (\<forall>k. latest k c \<le> latest k c' \<and> (latest k c' = latest k c \<longrightarrow> response k c' = response k c))"

lemma newer_refl: "newer c c"
  by (simp add: newer_def)

lemma newer_trans: "newer a b \<Longrightarrow> newer b c \<Longrightarrow> newer a c"
  unfolding newer_def by (metis order_antisym order_trans)

lemma newer_cache: "newer c (cache t k s r c)"
  by (auto simp: newer_def latest_cache response_cache max_def)

lemma newer_latest: "newer c c' \<Longrightarrow> latest k c \<le> latest k c'"
  by (simp add: newer_def)

lemma cached_is_duplicate:
  "least < s \<Longrightarrow> newer (cache t k s r c) c' \<Longrightarrow> snd (check k s c')"
  using newer_latest [of "cache t k s r c" c' k] by (simp add: check_latest latest_cache)

lemma duplicate_stays: "least < s \<Longrightarrow> snd (check k s c) \<Longrightarrow> newer c c' \<Longrightarrow> snd (check k s c')"
  using newer_latest [of c c' k] by (auto simp: check_latest split: if_splits intro: order_trans)

lemma cached_response:
  assumes "least < s" "latest k c < s" "newer (cache t k s r c) c'" "latest k c' = s"
  shows "check k s c' = (r, True)"
proof -
  have "latest k (cache t k s r c) = s" using assms(2) by (simp add: latest_cache max_def less_imp_le)
  then have "response k c' = response k (cache t k s r c)" using assms(3,4) by (simp add: newer_def)
  also have "\<dots> = r" using assms(2) by (simp add: response_cache)
  finally show ?thesis using assms(1,4) by (simp add: check_latest)
qed

end

definition lastSequence :: "string \<Rightarrow> SessionManager \<Rightarrow> u64" where
  "lastSequence clientID sm =
     (case sm_sessions sm clientID of None \<Rightarrow> 0 | Some session \<Rightarrow> cl_lastSequence session)"

definition lastResponse :: "string \<Rightarrow> SessionManager \<Rightarrow> Response option" where
  "lastResponse clientID sm =
     (case sm_sessions sm clientID of None \<Rightarrow> None | Some session \<Rightarrow> cl_lastResponse session)"

interpretation sessions: response_cache CheckDuplicate CacheResponse lastSequence lastResponse 0
proof
  show "CheckDuplicate k s c = (if s \<le> lastSequence k c then (lastResponse k c, True) else (None, False))"
    if "0 < s" for k s c
    using that by (auto simp: CheckDuplicate_def GetSession_def lastSequence_def lastResponse_def split: option.splits)
  show "lastSequence k (CacheResponse t k' s r c) =
      (if k = k' then max (lastSequence k c) s else lastSequence k c)" for k t k' s r c
    by (cases t) (auto simp: CacheResponse_def GetOrCreateSession_def lastSequence_def max_def Let_def
        not_le word_gt_0 split: option.splits)
  show "lastResponse k (CacheResponse t k' s r c) =
      (if k = k' \<and> lastSequence k c < s then r else lastResponse k c)" for k t k' s r c
    by (cases t) (auto simp: CacheResponse_def GetOrCreateSession_def lastSequence_def lastResponse_def Let_def
        split: option.splits)
qed

text \<open>A session that has a sequence number has a response, so a duplicate is never answered by nil.\<close>

definition sessions_ok :: "SessionManager \<Rightarrow> bool" where
  "sessions_ok sm \<longleftrightarrow> (\<forall>k. 0 < lastSequence k sm \<longrightarrow> lastResponse k sm \<noteq> None)"

lemma NewSessionManager_ok [wf_intros]: "sessions_ok (NewSessionManager age)"
  by (simp add: sessions_ok_def NewSessionManager_def startCleanup_def lastSequence_def)

lemma CacheResponse_ok [wf_intros]:
  "sessions_ok sm \<Longrightarrow> sessions_ok (CacheResponse clock k s (Some resp) sm)"
  by (auto simp: sessions_ok_def sessions.latest_cache sessions.response_cache max_def split: if_splits)

lemma cleanup_ok [wf_intros]: "sessions_ok sm \<Longrightarrow> sessions_ok (cleanup now sm)"
  by (simp add: sessions_ok_def cleanup_def lastSequence_def lastResponse_def split: option.splits)

lemma CheckDuplicate_answer:
  "sessions_ok sm \<Longrightarrow> 0 < s \<Longrightarrow> CheckDuplicate k s sm = (r, True) \<Longrightarrow> r \<noteq> None"
  using sessions.check_latest [of s k sm] by (auto simp: sessions_ok_def split: if_splits)

end
