(* ===== verification/GoJson.thy ===== *)
theory GoJson
  imports Prelude
begin

text \<open>
  What the sources use of the Go packages \<open>encoding/json\<close> and
  \<open>encoding/base64\<close>: JSON values, and the rules by which the library decodes an object
  into a struct. Parsing and printing the text of a value and the base64 coding of byte
  slices are a record of functions, the codec; what the program relies on, for the values
  it encodes, is that parsing undoes printing (\<open>text_ok\<close>, which Go's library
  guarantees for strings of valid UTF-8) and that decoding undoes encoding
  (\<open>b64_ok\<close>).
\<close>

datatype json =
    JNull | JBool bool | JInt int | JFloat string | JString string | JArray "json list"
  | JObject "(string \<times> json) list"

record codec =
  json_print :: "json \<Rightarrow> bytes"
  json_parse :: "bytes \<Rightarrow> json option"
  b64_encode :: "bytes \<Rightarrow> string"
  b64_decode :: "string \<Rightarrow> bytes option"

definition text_ok :: "codec \<Rightarrow> json \<Rightarrow> bool" where
  "text_ok c j \<longleftrightarrow> json_parse c (json_print c j) = Some j"

definition b64_ok :: "codec \<Rightarrow> bytes \<Rightarrow> bool" where
  "b64_ok c v \<longleftrightarrow> b64_decode c (b64_encode c v) = Some v"

text \<open>
  A key of an object sets the field whose name it equals, or equals up to letter case; other
  keys are ignored. Fields are processed in order, so the last of several values counts. A
  \<open>null\<close> leaves a field as it is. A value of the wrong type makes the whole decoding
  fail.
\<close>

definition lower_char :: "char \<Rightarrow> char" where
  "lower_char c =
     (let n = of_char c :: nat in if 65 \<le> n \<and> n \<le> 90 then char_of (n + 32) else c)"

definition same_name :: "string \<Rightarrow> string \<Rightarrow> bool" where
  "same_name a b \<longleftrightarrow> map lower_char a = map lower_char b"

definition decode_int :: "json \<Rightarrow> int \<Rightarrow> int option" where
  "decode_int j old =
     (case j of
        JNull \<Rightarrow> Some old
      | JInt i \<Rightarrow> if - (2 ^ 63) \<le> i \<and> i < 2 ^ 63 then Some i else None
      | _ \<Rightarrow> None)"

definition decode_string :: "json \<Rightarrow> string \<Rightarrow> string option" where
  "decode_string j old = (case j of JNull \<Rightarrow> Some old | JString s \<Rightarrow> Some s | _ \<Rightarrow> None)"

fun decode_byte_array :: "json list \<Rightarrow> bytes option" where
  "decode_byte_array [] = Some []"
| "decode_byte_array (j # js) =
     (case j of
        JInt i \<Rightarrow> if 0 \<le> i \<and> i < 256 then map_option ((#) (word_of_int i)) (decode_byte_array js) else None
      | JNull \<Rightarrow> map_option ((#) 0) (decode_byte_array js)
      | _ \<Rightarrow> None)"

definition decode_bytes :: "codec \<Rightarrow> json \<Rightarrow> bytes option option" where
  "decode_bytes c j =
     (case j of
        JNull \<Rightarrow> Some None
      | JString s \<Rightarrow> map_option Some (b64_decode c s)
      | JArray js \<Rightarrow> map_option Some (decode_byte_array js)
      | _ \<Rightarrow> None)"

text \<open>A byte slice is printed in base64, a nil slice as \<open>null\<close>.\<close>

definition bytes_json :: "codec \<Rightarrow> bytes option \<Rightarrow> json" where
  "bytes_json c v = (case v of None \<Rightarrow> JNull | Some b \<Rightarrow> JString (b64_encode c b))"

lemma decode_bytes_json: "b64_ok c (go_slice v) \<Longrightarrow> decode_bytes c (bytes_json c v) = Some v"
  by (cases v) (simp_all add: decode_bytes_def bytes_json_def b64_ok_def)

end
