(* ===== verification/StateMachineKV.thy ===== *)
theory StateMachineKV
  imports RaftCommit GoJson
begin

text \<open>
  The replicated state machine: the interface of \<open>src/pkg/statemachine/interface.go\<close>
  as the locale \<open>state_machine\<close>, and the key-value store of
  \<open>src/pkg/statemachine/kv.go\<close> as its interpretation. \<open>unmarshal\<close> is
  \<open>json.Unmarshal\<close> of an entry into a \<open>Command\<close>, by the decoding rules of
  \<open>GoJson\<close>. \<open>gob_encode\<close> and \<open>gob_decode\<close>, the gob coding of the map,
  are parameters; what is relied on is that decoding undoes encoding. The store is a Go map;
  a nil and an empty value in it are not distinguished, since only length and contents are
  read.
\<close>

section \<open>Commands\<close>

datatype CommandType = CommandPut | CommandDelete | CommandGet | CommandOther int

record Command =
  cm_Type :: CommandType
  cm_Key :: string
  cm_Value :: "bytes option"

record CommandResponse =
  cr_Success :: bool
  cr_Value :: bytes
  cr_Error :: "string option"

datatype apply_error = DecodeCommandError | UnknownCommandType int

text \<open>A variable of type \<open>Command\<close> before anything is decoded into it.\<close>

definition zero_Command :: Command where
  "zero_Command = \<lparr>cm_Type = CommandPut, cm_Key = '''', cm_Value = None\<rparr>"

definition command_type :: "int \<Rightarrow> CommandType" where
  "command_type i =
     (if i = 0 then CommandPut else if i = 1 then CommandDelete else if i = 2 then CommandGet
      else CommandOther i)"

definition command_code :: "CommandType \<Rightarrow> int" where
  "command_code t =
     (case t of CommandPut \<Rightarrow> 0 | CommandDelete \<Rightarrow> 1 | CommandGet \<Rightarrow> 2 | CommandOther i \<Rightarrow> i)"

text \<open>\<open>json.Marshal\<close> and \<open>json.Unmarshal\<close> of a \<open>Command\<close>.\<close>

definition command_json :: "codec \<Rightarrow> Command \<Rightarrow> json" where
  "command_json c cmd =
     JObject [(''Type'', JInt (command_code (cm_Type cmd))), (''Key'', JString (cm_Key cmd)),
              (''Value'', bytes_json c (cm_Value cmd))]"

definition marshal :: "codec \<Rightarrow> Command \<Rightarrow> bytes" where
  "marshal c cmd = json_print c (command_json c cmd)"

fun decode_fields :: "codec \<Rightarrow> (string \<times> json) list \<Rightarrow> Command \<Rightarrow> Command option" where
  "decode_fields c [] cmd = Some cmd"
| "decode_fields c ((name, j) # rest) cmd =
     (if same_name name ''Type'' then
        (case decode_int j (command_code (cm_Type cmd)) of
           None \<Rightarrow> None
         | Some i \<Rightarrow> decode_fields c rest (cmd\<lparr>cm_Type := command_type i\<rparr>))
      else if same_name name ''Key'' then
        (case decode_string j (cm_Key cmd) of
           None \<Rightarrow> None
         | Some s \<Rightarrow> decode_fields c rest (cmd\<lparr>cm_Key := s\<rparr>))
      else if same_name name ''Value'' then
        (case decode_bytes c j of
           None \<Rightarrow> None
         | Some v \<Rightarrow> decode_fields c rest (cmd\<lparr>cm_Value := v\<rparr>))
      else decode_fields c rest cmd)"

definition unmarshal :: "codec \<Rightarrow> bytes \<Rightarrow> Command option" where
  "unmarshal c entry =
     (case json_parse c entry of
        Some (JObject kvs) \<Rightarrow> decode_fields c kvs zero_Command
      | Some JNull \<Rightarrow> Some zero_Command
      | _ \<Rightarrow> None)"

text \<open>The body of a batch entry: an object with the one field \<open>Commands\<close>.\<close>

definition batch_json :: "codec \<Rightarrow> Command list \<Rightarrow> json" where
  "batch_json c cmds = JObject [(''Commands'', JArray (map (command_json c) cmds))]"

definition marshal_batch :: "codec \<Rightarrow> Command list \<Rightarrow> bytes" where
  "marshal_batch c cmds = json_print c (batch_json c cmds)"

text \<open>A command the Go type can hold: one of the three kinds, or another \<open>int\<close>.\<close>

definition command_ok :: "Command \<Rightarrow> bool" where
  "command_ok cmd \<longleftrightarrow>
     (case cm_Type cmd of
        CommandOther i \<Rightarrow> - (2 ^ 63) \<le> i \<and> i < 2 ^ 63 \<and> i \<notin> {0, 1, 2}
      | _ \<Rightarrow> True)"

lemma same_names [simp]:
  "same_name ''Type'' ''Type''" "\<not> same_name ''Key'' ''Type''" "same_name ''Key'' ''Key''"
  "\<not> same_name ''Value'' ''Type''" "\<not> same_name ''Value'' ''Key''" "same_name ''Value'' ''Value''"
  "\<not> same_name ''Commands'' ''Type''" "\<not> same_name ''Commands'' ''Key''"
  "\<not> same_name ''Commands'' ''Value''"
  by (code_simp)+

lemma unmarshal_marshal:
  assumes "text_ok c (command_json c cmd)" and "b64_ok c (go_slice (cm_Value cmd))" and "command_ok cmd"
  shows "unmarshal c (marshal c cmd) = Some cmd"
proof -
  have "decode_int (JInt (command_code (cm_Type cmd))) 0 = Some (command_code (cm_Type cmd))"
    "command_type (command_code (cm_Type cmd)) = cm_Type cmd"
    using assms(3)
    by (auto simp: command_ok_def decode_int_def command_code_def command_type_def
        split: CommandType.splits)
  then show ?thesis
    using assms(1,2)
    by (simp add: unmarshal_def marshal_def command_json_def text_ok_def zero_Command_def
        decode_string_def decode_bytes_json command_code_def [of CommandPut])
qed

lemma unmarshal_batch:
  "text_ok c (batch_json c cmds) \<Longrightarrow> unmarshal c (marshal_batch c cmds) = Some zero_Command"
  by (simp add: unmarshal_def marshal_batch_def text_ok_def batch_json_def)


section \<open>The key-value store\<close>

record KVStateMachine =
  kv_store :: "string \<rightharpoonup> bytes"

definition NewKVStateMachine :: KVStateMachine where
  "NewKVStateMachine = \<lparr>kv_store = Map.empty\<rparr>"

definition KV_Apply ::
  "codec \<Rightarrow> bytes \<Rightarrow> KVStateMachine
     \<Rightarrow> KVStateMachine \<times> (apply_error + CommandResponse)" where
  "KV_Apply c entry kv =
     (case unmarshal c entry of
        None \<Rightarrow> (kv, Inl DecodeCommandError)
      | Some cmd \<Rightarrow>
          (case cm_Type cmd of
             CommandPut \<Rightarrow>
               (kv\<lparr>kv_store := (kv_store kv)(cm_Key cmd \<mapsto> go_slice (cm_Value cmd))\<rparr>,
                Inr \<lparr>cr_Success = True, cr_Value = go_slice (cm_Value cmd), cr_Error = None\<rparr>)
           | CommandDelete \<Rightarrow>
               (kv\<lparr>kv_store := (kv_store kv)(cm_Key cmd := None)\<rparr>,
                Inr \<lparr>cr_Success = True, cr_Value = [], cr_Error = None\<rparr>)
           | CommandGet \<Rightarrow>
               (case kv_store kv (cm_Key cmd) of
                  None \<Rightarrow> (kv, Inr \<lparr>cr_Success = False, cr_Value = [],
                                  cr_Error = Some (''key not found: '' @ cm_Key cmd)\<rparr>)
                | Some value \<Rightarrow> (kv, Inr \<lparr>cr_Success = True, cr_Value = value, cr_Error = None\<rparr>))
           | CommandOther t \<Rightarrow> (kv, Inl (UnknownCommandType t))))"

definition KV_Get :: "string \<Rightarrow> KVStateMachine \<Rightarrow> bytes \<times> bool" where
  "KV_Get key kv =
     (case kv_store kv key of
        None \<Rightarrow> ([], False)
      | Some value \<Rightarrow> (value, True))"

text \<open>\<open>enc.Encode\<close> into a buffer of a map of byte slices does not fail.\<close>

definition KV_Snapshot :: "((string \<rightharpoonup> bytes) \<Rightarrow> bytes) \<Rightarrow> KVStateMachine \<Rightarrow> bytes" where
  "KV_Snapshot gob_encode kv = gob_encode (kv_store kv)"

definition KV_Restore ::
  "(bytes \<Rightarrow> (string \<rightharpoonup> bytes) option) \<Rightarrow> bytes \<Rightarrow> KVStateMachine \<Rightarrow> KVStateMachine \<times> bool" where
  "KV_Restore gob_decode snapshot kv =
     (case gob_decode snapshot of
        None \<Rightarrow> (kv, False)
      | Some newStore \<Rightarrow> (kv\<lparr>kv_store := newStore\<rparr>, True))"

definition KV_Size :: "KVStateMachine \<Rightarrow> nat" where
  "KV_Size kv = card (dom (kv_store kv))"

text \<open>\<open>Keys\<close> lists the keys in the order of map iteration, which is not fixed.\<close>

definition KV_Keys :: "KVStateMachine \<Rightarrow> string set" where
  "KV_Keys kv = dom (kv_store kv)"

definition KV_Clear :: "KVStateMachine \<Rightarrow> KVStateMachine" where
  "KV_Clear kv = kv\<lparr>kv_store := Map.empty\<rparr>"

text \<open>The effect of an entry on the store: what a node's apply loop uses.\<close>

definition kv_step :: "codec \<Rightarrow> bytes \<Rightarrow> KVStateMachine \<Rightarrow> KVStateMachine" where
  "kv_step c entry kv = fst (KV_Apply c entry kv)"


section \<open>The interface of a state machine\<close>

text \<open>
  A state machine promises that restoring a snapshot gives back the state it was taken of.
  With it a log prefix can be replaced by a snapshot.
\<close>

locale state_machine =
  fixes step :: "bytes \<Rightarrow> 'sm \<Rightarrow> 'sm"
    and snapshot :: "'sm \<Rightarrow> 'snap"
    and restore :: "'snap \<Rightarrow> 'sm \<Rightarrow> 'sm"
  assumes restore_snapshot: "restore (snapshot s) s' = s"
begin

text \<open>Applying the data of the entries of a log that are not no-ops.\<close>

definition apply_log :: "LogEntry list \<Rightarrow> 'sm \<Rightarrow> 'sm" where
  "apply_log log s = fold step (map le_Data (filter (\<lambda>e. le_Type e \<noteq> EntryNoOp) log)) s"

lemma apply_log_append: "apply_log (xs @ ys) s = apply_log ys (apply_log xs s)"
  by (simp add: apply_log_def)

text \<open>Restoring a snapshot of a prefix and applying the rest is applying everything.\<close>

lemma compaction_correct:
  "apply_log (drop k log) (restore (snapshot (apply_log (take k log) s)) s') = apply_log log s"
  using apply_log_append [of "take k log" "drop k log" s] by (simp add: restore_snapshot)

text \<open>The state machine of a node that replays the applied prefix of its log.\<close>

lemma fold_apply_entry: "fold (apply_entry step) log (Some s) = Some (apply_log log s)"
  unfolding apply_log_def by (induction log arbitrary: s) (simp_all add: apply_entry_def)

lemma replayed_state:
  "replayed step (Some s) n \<Longrightarrow>
     nd_stateMachine n = Some (apply_log (take (unat (nd_lastApplied n)) (nd_log n)) s)"
  by (simp add: replayed_def fold_apply_entry)

text \<open>Two nodes that have applied the same prefix hold the same state.\<close>

lemma replayed_agree:
  assumes "replayed step (Some s) n" "replayed step (Some s) m"
    and "nd_lastApplied n = nd_lastApplied m"
    and "take (unat (nd_lastApplied n)) (nd_log n) = take (unat (nd_lastApplied n)) (nd_log m)"
  shows "nd_stateMachine n = nd_stateMachine m"
  using assms by (simp add: replayed_state)

end

text \<open>
  The store provides the interface for every decoder of commands; what a snapshot holds,
  before and after the gob codec, is the contents of the map.
\<close>

definition kv_replace :: "(string \<rightharpoonup> bytes) \<Rightarrow> KVStateMachine \<Rightarrow> KVStateMachine" where
  "kv_replace m kv = kv\<lparr>kv_store := m\<rparr>"

interpretation kv: state_machine "kv_step c" kv_store kv_replace
  for c :: codec
  by unfold_locales (simp add: kv_replace_def)


section \<open>What a sequence of commands leaves in the store\<close>

text \<open>
  The specification of the store: the value of a key is what the last command on the key
  wrote, if it was a put.
\<close>

definition writes :: "string \<Rightarrow> Command \<Rightarrow> bool" where
  "writes key cmd \<longleftrightarrow> cm_Key cmd = key \<and> (cm_Type cmd = CommandPut \<or> cm_Type cmd = CommandDelete)"

definition last_write :: "string \<Rightarrow> Command list \<Rightarrow> Command option" where
  "last_write key cmds =
     (let ws = filter (writes key) cmds in if ws = [] then None else Some (last ws))"

definition spec_get :: "string \<Rightarrow> Command list \<Rightarrow> bytes option \<Rightarrow> bytes option" where
  "spec_get key cmds old =
     (case last_write key cmds of
        None \<Rightarrow> old
      | Some cmd \<Rightarrow> if cm_Type cmd = CommandPut then Some (go_slice (cm_Value cmd)) else None)"

lemma kv_step_store:
  "kv_store (kv_step c entry kv) key =
     (case unmarshal c entry of
        None \<Rightarrow> kv_store kv key
      | Some cmd \<Rightarrow>
          if writes key cmd then if cm_Type cmd = CommandPut then Some (go_slice (cm_Value cmd)) else None
          else kv_store kv key)"
  by (auto simp: kv_step_def KV_Apply_def writes_def split: option.splits CommandType.splits)

lemma spec_get_Cons:
  "spec_get key (cmd # cmds) old =
     spec_get key cmds
       (if writes key cmd then if cm_Type cmd = CommandPut then Some (go_slice (cm_Value cmd)) else None else old)"
  by (simp add: spec_get_def last_write_def Let_def)

lemma kv_fold_spec:
  "kv_store (fold (kv_step c) entries kv) key =
     spec_get key (List.map_filter (unmarshal c) entries) (kv_store kv key)"
proof (induction entries arbitrary: kv)
  case Nil
  then show ?case by (simp add: spec_get_def last_write_def map_filter_simps)
next
  case (Cons e entries)
  then show ?case
    by (auto simp: map_filter_simps spec_get_Cons kv_step_store split: option.splits)
qed



section \<open>Properties\<close>

text \<open>C25: After any sequence of entries the value of a key is the one the last put on it
  wrote, unless a later delete removed it; entries that do not decode, reads and unknown
  commands change nothing.\<close>

theorem kv_holds_last_write:
  "KV_Get key (fold (kv_step c) entries NewKVStateMachine) =
     (case spec_get key (List.map_filter (unmarshal c) entries) None of
        None \<Rightarrow> ([], False) | Some value \<Rightarrow> (value, True))"
  by (simp add: KV_Get_def kv_fold_spec NewKVStateMachine_def)

text \<open>Two nodes that started from the same state machine and have applied their logs
  up to the same index, where the logs agree, hold the same key-value store.\<close>

theorem same_prefix_same_store:
  assumes "replayed (kv_step c) (Some kv) n" "replayed (kv_step c) (Some kv) m"
    and "nd_lastApplied n = nd_lastApplied m"
    and "take (unat (nd_lastApplied n)) (nd_log n) = take (unat (nd_lastApplied n)) (nd_log m)"
  shows "nd_stateMachine n = nd_stateMachine m"
  using assms by (rule kv.replayed_agree)

text \<open>
  A codec for the witnesses: it prints commands on the keys \<open>a\<close> and \<open>b\<close> as the
  command's number, the key's and the value.
\<close>

definition example_codec :: codec where
  "example_codec =
     \<lparr>json_print = (\<lambda>_. []),
      json_parse = (\<lambda>bs. case bs of
        t # k # v \<Rightarrow>
          Some (JObject [(''Type'', JInt (uint t)), (''Key'', JString (if k = 0 then ''a'' else ''b'')),
                         (''Value'', JArray (map (JInt \<circ> uint) v))])
      | _ \<Rightarrow> None),
      b64_encode = (\<lambda>_. []), b64_decode = (\<lambda>_. None)\<rparr>"

definition example_kv_node :: "KVStateMachine Node" where
  "example_kv_node =
     \<lparr>nd_config = DefaultConfig, nd_id = ''n1'',
      nd_cluster = \<lparr>cc_Peers = [], cc_Self = \<lparr>pr_ID = ''n1'', pr_Address = ''a''\<rparr>\<rparr>,
      nd_serverState = \<lparr>ss_CurrentTerm = 1, ss_VotedFor = '''',
        ss_Log = [\<lparr>le_Term = 1, le_Index = 1, le_Data = [0, 0, 7], le_Type = EntryNormal\<rparr>]\<rparr>,
      nd_volatileState = \<lparr>vs_CommitIndex = 1, vs_LastApplied = 0\<rparr>, nd_leaderState = None,
      nd_state = Follower, nd_electionTimer = nil_electionTimer, nd_heartbeatTimer = None,
      nd_electionState = NewElectionState 0, nd_stateMachine = Some NewKVStateMachine,
      nd_leaseManager = None, nd_stopCh_closed = False, nd_goroutines = []\<rparr>"

lemma example_kv_replayed:
  "replayed (kv_step example_codec) (Some NewKVStateMachine) example_kv_node"
  by (simp add: replayed_def example_kv_node_def slice_ok_def)

theorem same_prefix_same_store_witness:
  "nd_stateMachine (applyCommittedEntries (kv_step example_codec) example_kv_node) =
   nd_stateMachine (applyCommittedEntries (kv_step example_codec)
     (applyCommittedEntries (kv_step example_codec) example_kv_node))"
proof -
  let ?a = "applyCommittedEntries (kv_step example_codec)"
  have r1: "replayed (kv_step example_codec) (Some NewKVStateMachine) (?a example_kv_node)"
    by (rule replayed_applyCommitted [OF example_kv_replayed])
  have r2: "replayed (kv_step example_codec) (Some NewKVStateMachine) (?a (?a example_kv_node))"
    by (rule replayed_applyCommitted [OF r1])
  have ok: "slice_ok (nd_log example_kv_node)" by (simp add: example_kv_node_def slice_ok_def)
  then have log: "nd_log (?a example_kv_node) = nd_log example_kv_node"
    "nd_commitIndex (?a example_kv_node) = nd_commitIndex example_kv_node"
    by (simp_all add: applyCommittedEntries_eq)
  have "unat (nd_lastApplied (?a (?a example_kv_node))) = unat (nd_lastApplied (?a example_kv_node))"
    using ok by (simp add: applyCommittedEntries_eq log)
  then have "nd_lastApplied (?a example_kv_node) = nd_lastApplied (?a (?a example_kv_node))"
    by (simp add: word_unat_eq_iff)
  moreover have "nd_log (?a example_kv_node) = nd_log (?a (?a example_kv_node))"
    using ok applyCommittedEntries_eq(3) [of "?a example_kv_node" "kv_step example_codec"] log(1)
    by metis
  ultimately show ?thesis by (intro same_prefix_same_store [OF r1 r2]) simp_all
qed

text \<open>C26: Compaction is transparent. With a gob codec that decodes what it encodes,
  restoring the snapshot of the state after the first \<open>k\<close> entries of a log into any
  store succeeds, and applying the remaining entries then gives the store that applying the
  whole log gives.\<close>

theorem snapshot_replaces_prefix:
  assumes "gob_decode (gob_encode (kv_store kv1)) = Some (kv_store kv1)"
    and "fold (apply_entry (kv_step c)) (take k log) (Some kv) = Some kv1"
  shows "snd (KV_Restore gob_decode (KV_Snapshot gob_encode kv1) kv') \<and>
     fold (apply_entry (kv_step c)) (drop k log)
       (Some (fst (KV_Restore gob_decode (KV_Snapshot gob_encode kv1) kv')))
     = fold (apply_entry (kv_step c)) log (Some kv)"
proof -
  have kv1: "kv1 = kv.apply_log c (take k log) kv"
    using assms(2) by (simp add: kv.fold_apply_entry)
  have "KV_Restore gob_decode (KV_Snapshot gob_encode kv1) kv' = (kv_replace (kv_store kv1) kv', True)"
    using assms(1) by (simp add: KV_Restore_def KV_Snapshot_def kv_replace_def)
  then show ?thesis
    using kv.compaction_correct [of c k log kv kv'] by (simp add: kv.fold_apply_entry kv1)
qed

definition example_log_kv :: "LogEntry list" where
  "example_log_kv =
     [\<lparr>le_Term = 1, le_Index = 1, le_Data = [0, 0, 7], le_Type = EntryNormal\<rparr>,
      \<lparr>le_Term = 1, le_Index = 2, le_Data = [0, 1, 8], le_Type = EntryNormal\<rparr>]"

text \<open>A codec for stores that hold at most the key \<open>a\<close>.\<close>

definition example_encode :: "(string \<rightharpoonup> bytes) \<Rightarrow> bytes" where
  "example_encode m = (case m ''a'' of None \<Rightarrow> [] | Some v \<Rightarrow> 1 # v)"

definition example_decode :: "bytes \<Rightarrow> (string \<rightharpoonup> bytes) option" where
  "example_decode bs = (case bs of [] \<Rightarrow> Some Map.empty | b # v \<Rightarrow> Some [''a'' \<mapsto> v])"

theorem snapshot_replaces_prefix_witness:
  "fold (apply_entry (kv_step example_codec)) (drop 1 example_log_kv)
     (Some (fst (KV_Restore example_decode (KV_Snapshot example_encode \<lparr>kv_store = [''a'' \<mapsto> [7]]\<rparr>)
        NewKVStateMachine)))
   = fold (apply_entry (kv_step example_codec)) example_log_kv (Some NewKVStateMachine)"
  by (rule conjunct2 [OF snapshot_replaces_prefix])
    (simp_all add: example_decode_def example_encode_def example_log_kv_def apply_entry_def
      kv_step_def KV_Apply_def unmarshal_def example_codec_def decode_int_def
      decode_string_def decode_bytes_def command_type_def zero_Command_def NewKVStateMachine_def)

text \<open>A put or delete that goes through the log takes effect: after the encoded
  command has been applied, reading the key gives the value put, or nothing after a delete,
  and every other key is as before.\<close>

theorem applied_command_takes_effect:
  assumes "text_ok c (command_json c cmd)" and "b64_ok c (go_slice (cm_Value cmd))"
    and "cm_Type cmd = CommandPut \<or> cm_Type cmd = CommandDelete"
  shows "KV_Get key (kv_step c (marshal c cmd) kv) =
     (if key = cm_Key cmd
      then if cm_Type cmd = CommandPut then (go_slice (cm_Value cmd), True) else ([], False)
      else KV_Get key kv)"
proof -
  have "command_ok cmd" using assms(3) by (auto simp: command_ok_def)
  then show ?thesis
    using assms
    by (auto simp: KV_Get_def kv_step_store unmarshal_marshal writes_def split: option.splits)
qed

text \<open>A codec that prints the value of one put and of one batch.\<close>

definition example_put :: Command where
  "example_put = \<lparr>cm_Type = CommandPut, cm_Key = ''a'', cm_Value = Some [7]\<rparr>"

definition put_codec :: codec where
  "put_codec =
     \<lparr>json_print = (\<lambda>j. case j of JObject [f] \<Rightarrow> [1] | _ \<Rightarrow> [0]),
      json_parse = (\<lambda>bs.
        let put = JObject [(''Type'', JInt 0), (''Key'', JString ''a''), (''Value'', JString ''Bw=='')]
        in if bs = [0] then Some put
           else if bs = [1] then Some (JObject [(''Commands'', JArray [put])]) else None),
      b64_encode = (\<lambda>v. if v = [7] then ''Bw=='' else ''''),
      b64_decode = (\<lambda>s. if s = ''Bw=='' then Some [7] else None)\<rparr>"

lemma put_codec_ok:
  "text_ok put_codec (command_json put_codec example_put)" "b64_ok put_codec (go_slice (cm_Value example_put))"
  "text_ok put_codec (batch_json put_codec [example_put])"
  by (simp_all add: text_ok_def b64_ok_def put_codec_def command_json_def example_put_def
      command_code_def batch_json_def bytes_json_def)

theorem applied_command_takes_effect_witness:
  "KV_Get ''a'' (kv_step put_codec (marshal put_codec example_put) NewKVStateMachine) = ([7], True)"
  using applied_command_takes_effect [OF put_codec_ok(1,2), of "''a''" NewKVStateMachine]
  by (simp add: example_put_def)

text \<open>The batch path of the API writes nothing. A batch entry is an object with the one
  field \<open>Commands\<close>, which \<open>Command\<close> does not have: applying it puts an empty
  value under the empty key and leaves every other key as it was, whatever the batch
  holds.\<close>

theorem batch_entry_only_writes_empty_key:
  assumes "text_ok c (batch_json c cmds)"
  shows "kv_store (kv_step c (marshal_batch c cmds) kv) = (kv_store kv)('''' \<mapsto> [])"
  using assms by (simp add: kv_step_def KV_Apply_def unmarshal_batch) (simp add: zero_Command_def)

theorem batch_entry_only_writes_empty_key_witness:
  "kv_store (kv_step put_codec (marshal_batch put_codec [example_put]) NewKVStateMachine) ''a'' = None"
  using batch_entry_only_writes_empty_key [OF put_codec_ok(3), of NewKVStateMachine]
  by (simp add: NewKVStateMachine_def)

end
