(* ===== verification/ApiServer.thy ===== *)
theory ApiServer
  imports ApiSession RaftReplication StateMachineKV
begin

text \<open>
  The server of the client API: \<open>src/pkg/api/server.go\<close> and
  \<open>src/pkg/api/batch.go\<close>, with \<open>Get\<close> of \<open>src/pkg/raft/read.go\<close>. A
  handler calls the Raft node several times, each time under the node's lock, and sleeps or
  polls in between, while the node and other handlers go on. What happens meanwhile is a
  \<open>pause\<close>, a function from server to server, and a handler takes the pauses it meets
  as a parameter: theorems hold for every choice of them. Polling ends when the list of
  pauses for the ticks before the deadline is used up. \<open>json.Marshal\<close> of a
  command does not fail, so its error branches are left out.
\<close>

section \<open>The server\<close>

record Server =
  sv_raftNode :: "KVStateMachine Node"
  sv_sessionManager :: SessionManager
  sv_defaultTimeout :: duration

type_synonym pause = "Server \<Rightarrow> Server"

text \<open>Pauses of one read: before it starts, in \<open>confirmLeadership\<close>, and per tick.\<close>

record read_pauses =
  rp_start :: pause
  rp_confirm :: pause
  rp_ticks :: "(pause \<times> pause) list"

record pauses =
  pz_start :: pause                                         \<comment> \<open>before the operation\<close>
  pz_redirect :: pause                                      \<comment> \<open>before the leader is looked up\<close>
  pz_append :: pause                                        \<comment> \<open>before the entry is appended\<close>
  pz_poll :: "duration \<Rightarrow> (pause \<times> pause \<times> pause) list"  \<comment> \<open>per tick of \<open>waitForCommit\<close>\<close>
  pz_write :: pause                                         \<comment> \<open>before the writes of a batch\<close>
  pz_sleep :: pause                                         \<comment> \<open>the 100 ms of \<open>handleGet\<close>\<close>
  pz_read :: "nat \<Rightarrow> read_pauses"                           \<comment> \<open>per read\<close>
  pz_clock :: "time \<times> time \<times> time"                        \<comment> \<open>when the response is cached\<close>

definition NewServer :: "KVStateMachine Node \<Rightarrow> Server" where
  "NewServer raftNode =
     \<lparr>sv_raftNode = raftNode, sv_sessionManager = NewSessionManager (600 * Second),
      sv_defaultTimeout = 5 * Second\<rparr>"

definition Server_Stop :: "Server \<Rightarrow> go_panic + Server" where
  "Server_Stop sv =
     (case SessionManager_Stop (sv_sessionManager sv) of
        Inl e \<Rightarrow> Inl e
      | Inr sm \<Rightarrow> Inr (sv\<lparr>sv_sessionManager := sm\<rparr>))"

definition validateRequest :: "Request option \<Rightarrow> string option" where
  "validateRequest req =
     (case req of
        None \<Rightarrow> Some ''request is nil''
      | Some req \<Rightarrow>
          if rq_Key req = '''' then Some ''key cannot be empty''
          else if rq_Type req = OperationPut \<and> rq_Value req = None
          then Some ''value cannot be nil for Put operation''
          else None)"

definition redirectToLeader :: "Server \<Rightarrow> Response" where
  "redirectToLeader sv =
     (error_response ErrCodeNotLeader)\<lparr>rs_LeaderID := GetLeaderID (sv_raftNode sv)\<rparr>"

fun Server_waitForCommit :: "u64 \<Rightarrow> (pause \<times> pause \<times> pause) list \<Rightarrow> Server \<Rightarrow> Server \<times> bool" where
  "Server_waitForCommit index [] sv = (sv, False)"
| "Server_waitForCommit index ((p, q, r) # ticks) sv =
     (let sv = p sv;
          (sv, done) =
            (if nd_commitIndex (sv_raftNode sv) \<ge> index
             then let sv = q sv in (sv, nd_lastApplied (sv_raftNode sv) \<ge> index)
             else (sv, False))
      in
        if done then (sv, True)
        else
          let sv = r sv in
          if \<not> IsLeader (sv_raftNode sv) then (sv, False)
          else Server_waitForCommit index ticks sv)"

definition GetSessionCount :: "Server \<Rightarrow> nat" where
  "GetSessionCount sv = SessionCount (sv_sessionManager sv)"


section \<open>Reads\<close>

text \<open>
  The function \<open>Node.Get\<close> hands to \<open>PerformLinearizableRead\<close>, and the read
  itself on the server, with what happens while it waits.
\<close>

definition read_key :: "string \<Rightarrow> KVStateMachine Node \<Rightarrow> (bytes \<times> bool) option" where
  "read_key key n = map_option (KV_Get key) (nd_stateMachine n)"

fun sv_read_loop ::
  "string \<Rightarrow> u64 \<Rightarrow> (pause \<times> pause) list \<Rightarrow> Server \<Rightarrow> Server \<times> (bytes \<times> bool) option option" where
  "sv_read_loop key readIndex [] sv = (sv, None)"
| "sv_read_loop key readIndex ((p, q) # ticks) sv =
     (let sv = p sv in
      if nd_state (sv_raftNode sv) \<noteq> Leader then (sv, None)
      else if nd_lastApplied (sv_raftNode sv) \<ge> readIndex
      then let sv = q sv in (sv, Some (read_key key (sv_raftNode sv)))
      else sv_read_loop key readIndex ticks sv)"

definition Node_Get :: "string \<Rightarrow> read_pauses \<Rightarrow> Server \<Rightarrow> Server \<times> bytes option \<times> bool" where
  "Node_Get key rp sv =
     (let sv = rp_start rp sv in
      if nd_state (sv_raftNode sv) \<noteq> Leader then (sv, None, False)
      else
        let readIndex = nd_commitIndex (sv_raftNode sv);
            sv = rp_confirm rp sv
        in
          if \<not> confirmLeadership (sv_raftNode sv) then (sv, None, False)
          else
            case sv_read_loop key readIndex (rp_ticks rp) sv of
              (sv, Some (Some (value, True))) \<Rightarrow> (sv, Some value, True)
            | (sv, _) \<Rightarrow> (sv, None, False))"

definition getFromStateMachine :: "string \<Rightarrow> read_pauses \<Rightarrow> Server \<Rightarrow> Server \<times> bytes option \<times> bool" where
  "getFromStateMachine key rp sv = Node_Get key rp sv"


section \<open>Single requests\<close>

definition handleGet :: "pauses \<Rightarrow> Request \<Rightarrow> Server \<Rightarrow> Server \<times> Response" where
  "handleGet pz req sv =
     (if \<not> IsLeader (sv_raftNode sv) then let sv = pz_redirect pz sv in (sv, redirectToLeader sv)
      else
        let sv = pz_sleep pz sv in
        if \<not> IsLeader (sv_raftNode sv) then let sv = pz_redirect pz sv in (sv, redirectToLeader sv)
        else
          let (sv, value, exists) = getFromStateMachine (rq_Key req) (pz_read pz 0) sv in
          if \<not> exists then (sv, error_response ErrCodeKeyNotFound)
          else (sv, success_response value))"

definition handlePut :: "codec \<Rightarrow> pauses \<Rightarrow> Request \<Rightarrow> Server \<Rightarrow> Server \<times> Response" where
  "handlePut c pz req sv =
     (if \<not> IsLeader (sv_raftNode sv) then let sv = pz_redirect pz sv in (sv, redirectToLeader sv)
      else
        let cmd = \<lparr>cm_Type = CommandPut, cm_Key = rq_Key req, cm_Value = rq_Value req\<rparr>;
            data = marshal c cmd;
            sv = pz_append pz sv;
            (n, index, isLeader) = AppendLogEntry data EntryNormal (sv_raftNode sv);
            sv = sv\<lparr>sv_raftNode := n\<rparr>
        in
          if \<not> isLeader then let sv = pz_redirect pz sv in (sv, redirectToLeader sv)
          else
            let timeout = (if rq_Timeout req = 0 then sv_defaultTimeout sv else rq_Timeout req);
                (sv, committed) = Server_waitForCommit index (pz_poll pz timeout) sv
            in
              if \<not> committed then (sv, error_response ErrCodeTimeout)
              else (sv, success_response (rq_Value req)))"

definition handleDelete :: "codec \<Rightarrow> pauses \<Rightarrow> Request \<Rightarrow> Server \<Rightarrow> Server \<times> Response" where
  "handleDelete c pz req sv =
     (if \<not> IsLeader (sv_raftNode sv) then let sv = pz_redirect pz sv in (sv, redirectToLeader sv)
      else
        let cmd = \<lparr>cm_Type = CommandDelete, cm_Key = rq_Key req, cm_Value = None\<rparr>;
            data = marshal c cmd;
            sv = pz_append pz sv;
            (n, index, isLeader) = AppendLogEntry data EntryNormal (sv_raftNode sv);
            sv = sv\<lparr>sv_raftNode := n\<rparr>
        in
          if \<not> isLeader then let sv = pz_redirect pz sv in (sv, redirectToLeader sv)
          else
            let timeout = (if rq_Timeout req = 0 then sv_defaultTimeout sv else rq_Timeout req);
                (sv, committed) = Server_waitForCommit index (pz_poll pz timeout) sv
            in
              if \<not> committed then (sv, error_response ErrCodeTimeout)
              else (sv, success_response None))"

text \<open>
  The router. A cached response is answered as it is, nil included; a fresh one is cached for
  a client that numbers its requests.
\<close>

definition dispatch :: "codec \<Rightarrow> pauses \<Rightarrow> Request \<Rightarrow> Server \<Rightarrow> Server \<times> Response" where
  "dispatch c pz req sv =
     (case rq_Type req of
        OperationGet \<Rightarrow> handleGet pz req sv
      | OperationPut \<Rightarrow> handlePut c pz req sv
      | OperationDelete \<Rightarrow> handleDelete c pz req sv
      | OtherOperation _ \<Rightarrow>
          (sv, error_response (''unknown operation type: '' @ OperationType_String (rq_Type req))))"

definition numbered :: "string \<Rightarrow> u64 \<Rightarrow> bool" where
  "numbered clientID sequence \<longleftrightarrow> clientID \<noteq> '''' \<and> sequence > 0"

definition HandleRequest ::
  "codec \<Rightarrow> pauses \<Rightarrow> Request option \<Rightarrow> Server \<Rightarrow> Server \<times> Response option" where
  "HandleRequest c pz request sv =
     (case validateRequest request of
        Some err \<Rightarrow> (sv, Some (error_response err))
      | None \<Rightarrow>
          let req = the request;
              clientID = rq_ClientID req; sequence = rq_Sequence req;
              (cached, isDup) = CheckDuplicate clientID sequence (sv_sessionManager sv)
          in
            if numbered clientID sequence \<and> isDup then (sv, cached)
            else
              let (sv, resp) = dispatch c pz req (pz_start pz sv) in
              if numbered clientID sequence
              then (sv\<lparr>sv_sessionManager :=
                       CacheResponse (pz_clock pz) clientID sequence (Some resp) (sv_sessionManager sv)\<rparr>,
                    Some resp)
              else (sv, Some resp))"


section \<open>Batches\<close>

record Operation =
  op_Type :: OperationType
  op_Key :: string
  op_Value :: "bytes option"

record BatchRequest =
  bq_ID :: string
  bq_ClientID :: string
  bq_Sequence :: u64
  bq_Operations :: "Operation list"
  bq_Timeout :: duration

record OperationResult =
  or_Success :: bool
  or_Value :: "bytes option"
  or_Error :: string

record BatchResponse =
  bs_Success :: bool
  bs_Results :: "OperationResult list"
  bs_Error :: string
  bs_LeaderID :: string
  bs_LeaderAddress :: string

definition batch_error :: "string \<Rightarrow> BatchResponse" where
  "batch_error e = \<lparr>bs_Success = False, bs_Results = [], bs_Error = e, bs_LeaderID = '''', bs_LeaderAddress = ''''\<rparr>"

fun validateOperations :: "nat \<Rightarrow> Operation list \<Rightarrow> string option" where
  "validateOperations i [] = None"
| "validateOperations i (op # ops) =
     (if op_Key op = '''' then Some (''operation '' @ decimal i @ '': key cannot be empty'')
      else if op_Type op = OperationPut \<and> op_Value op = None
      then Some (''operation '' @ decimal i @ '': value cannot be nil for Put operation'')
      else validateOperations (Suc i) ops)"

definition validateBatchRequest :: "BatchRequest option \<Rightarrow> string option" where
  "validateBatchRequest req =
     (case req of
        None \<Rightarrow> Some ''batch request is nil''
      | Some req \<Rightarrow>
          if length (bq_Operations req) = 0 then Some ''batch must contain at least one operation''
          else if length (bq_Operations req) > 1000
          then Some ''batch size exceeds maximum of 1000 operations''
          else validateOperations 0 (bq_Operations req))"

definition redirectBatchToLeader :: "Server \<Rightarrow> BatchResponse" where
  "redirectBatchToLeader sv =
     (batch_error ErrCodeNotLeader)\<lparr>bs_LeaderID := GetLeaderID (sv_raftNode sv)\<rparr>"

text \<open>A nil response is dereferenced: a panic.\<close>

definition convertToBatchResponse :: "Response option \<Rightarrow> go_panic + BatchResponse" where
  "convertToBatchResponse resp =
     (case resp of
        None \<Rightarrow> Inl NilDereference
      | Some resp \<Rightarrow>
          Inr \<lparr>bs_Success = rs_Success resp, bs_Results = [], bs_Error = rs_Error resp,
               bs_LeaderID = rs_LeaderID resp, bs_LeaderAddress = rs_LeaderAddress resp\<rparr>)"

fun batchCommands :: "Operation list \<Rightarrow> string + Command list" where
  "batchCommands [] = Inr []"
| "batchCommands (op # ops) =
     (case op_Type op of
        OperationPut \<Rightarrow>
          map_sum id ((#) \<lparr>cm_Type = CommandPut, cm_Key = op_Key op, cm_Value = op_Value op\<rparr>) (batchCommands ops)
      | OperationDelete \<Rightarrow>
          map_sum id ((#) \<lparr>cm_Type = CommandDelete, cm_Key = op_Key op, cm_Value = op_Value op\<rparr>) (batchCommands ops)
      | t \<Rightarrow> Inl (''invalid operation type in batch: '' @ OperationType_String t))"

definition processBatchWrites ::
  "codec \<Rightarrow> pauses \<Rightarrow> Operation list \<Rightarrow> duration \<Rightarrow> Server \<Rightarrow> Server \<times> (string + OperationResult list)" where
  "processBatchWrites c pz ops timeout sv =
     (let sv = pz_write pz sv in
      if \<not> IsLeader (sv_raftNode sv) then (sv, Inl ErrCodeNotLeader)
      else
        case batchCommands ops of
          Inl err \<Rightarrow> (sv, Inl err)
        | Inr cmds \<Rightarrow>
            let data = marshal_batch c cmds;
                sv = pz_append pz sv;
                (n, index, isLeader) = AppendLogEntry data EntryBatch (sv_raftNode sv);
                sv = sv\<lparr>sv_raftNode := n\<rparr>
            in
              if \<not> isLeader then (sv, Inl ErrCodeNotLeader)
              else
                let timeout = (if timeout = 0 then sv_defaultTimeout sv else timeout);
                    (sv, committed) = Server_waitForCommit index (pz_poll pz timeout) sv
                in
                  if \<not> committed then (sv, Inl ErrCodeTimeout)
                  else (sv, Inr (replicate (length ops) \<lparr>or_Success = True, or_Value = None, or_Error = ''''\<rparr>)))"

fun processBatchReads ::
  "pauses \<Rightarrow> nat \<Rightarrow> Operation list \<Rightarrow> Server \<Rightarrow> Server \<times> OperationResult list" where
  "processBatchReads pz i [] sv = (sv, [])"
| "processBatchReads pz i (op # ops) sv =
     (let (sv, value, exists) = getFromStateMachine (op_Key op) (pz_read pz i) sv;
          result = (if \<not> exists then \<lparr>or_Success = False, or_Value = None, or_Error = ErrCodeKeyNotFound\<rparr>
                    else \<lparr>or_Success = True, or_Value = value, or_Error = ''''\<rparr>);
          (sv, results) = processBatchReads pz (Suc i) ops sv
      in (sv, result # results))"

definition is_read :: "Operation \<Rightarrow> bool" where
  "is_read op \<longleftrightarrow> op_Type op = OperationGet"

definition is_write :: "Operation \<Rightarrow> bool" where
  "is_write op \<longleftrightarrow> op_Type op = OperationPut \<or> op_Type op = OperationDelete"

definition HandleBatch ::
  "codec \<Rightarrow> pauses \<Rightarrow> BatchRequest option \<Rightarrow> Server \<Rightarrow> Server \<times> (go_panic + BatchResponse)" where
  "HandleBatch c pz request sv =
     (case validateBatchRequest request of
        Some err \<Rightarrow> (sv, Inr (batch_error err))
      | None \<Rightarrow>
          let req = the request;
              clientID = bq_ClientID req; sequence = bq_Sequence req;
              (cached, isDup) = CheckDuplicate clientID sequence (sv_sessionManager sv)
          in
            if numbered clientID sequence \<and> isDup then (sv, convertToBatchResponse cached)
            else
              let sv = pz_start pz sv;
                  hasWrites = list_ex is_write (bq_Operations req)
              in
                if hasWrites \<and> \<not> IsLeader (sv_raftNode sv)
                then let sv = pz_redirect pz sv in (sv, Inr (redirectBatchToLeader sv))
                else
                  let writeOps = filter (\<lambda>op. \<not> is_read op) (bq_Operations req);
                      readOps = filter is_read (bq_Operations req);
                      (sv, written) =
                        (if writeOps = [] then (sv, Inr [])
                         else processBatchWrites c pz writeOps (bq_Timeout req) sv)
                  in
                    case written of
                      Inl err \<Rightarrow> (sv, Inr (batch_error err))
                    | Inr writeResults \<Rightarrow>
                        let (sv, readResults) = processBatchReads pz 0 readOps sv;
                            resp = \<lparr>bs_Success = True, bs_Results = writeResults @ readResults,
                                    bs_Error = '''', bs_LeaderID = '''', bs_LeaderAddress = ''''\<rparr>;
                            cachedResp = success_response None
                        in
                          if numbered clientID sequence
                          then (sv\<lparr>sv_sessionManager := CacheResponse (pz_clock pz) clientID sequence
                                     (Some cachedResp) (sv_sessionManager sv)\<rparr>, Inr resp)
                          else (sv, Inr resp))"

end
