(* ===== verification/ApiGuarantees.thy ===== *)
theory ApiGuarantees
  imports ApiServer
begin

text \<open>
  What the API server guarantees. A handler respects every preorder on servers that appending
  an entry, caching a response and its pauses respect (\<open>handler_relation\<close>); the
  relations used are that no session is forgotten, that the log only grows, and that a client's
  session is left alone. On these rest the properties: a numbered request takes effect at most
  once, what a refusal, an acknowledgement and a batch response mean.
\<close>

section \<open>Reads are linearizable reads of the node\<close>

fun read_trace :: "(pause \<times> pause) list \<Rightarrow> Server \<Rightarrow> (KVStateMachine Node \<times> KVStateMachine Node) list" where
  "read_trace [] sv = []"
| "read_trace ((p, q) # ticks) sv = (sv_raftNode (p sv), sv_raftNode (q (p sv))) # read_trace ticks (p sv)"

lemma sv_read_loop_refines:
  "snd (sv_read_loop key i ticks sv) = read_loop (read_key key) i (read_trace ticks sv)"
  by (induction key i ticks sv rule: sv_read_loop.induct) (auto simp: Let_def)

lemma Node_Get_refines:
  "snd (Node_Get key rp sv) =
     (let sv1 = rp_start rp sv; sv2 = rp_confirm rp sv1 in
      case PerformLinearizableRead (read_key key) (sv_raftNode sv1) (sv_raftNode sv2)
             (read_trace (rp_ticks rp) sv2) of
        Some (Some (value, True)) \<Rightarrow> (Some value, True)
      | _ \<Rightarrow> (None, False))"
  by (auto simp: Node_Get_def PerformLinearizableRead_def Let_def sv_read_loop_refines [symmetric]
      split: prod.splits option.splits bool.splits)


section \<open>What a handler does to the server\<close>

text \<open>
  \<open>pauses_respect R pz\<close>: whatever the rest of the program does while a handler waits
  is related by \<open>R\<close>.
\<close>

definition pause_respects :: "(Server \<Rightarrow> Server \<Rightarrow> bool) \<Rightarrow> pause \<Rightarrow> bool" where
  "pause_respects R p \<longleftrightarrow> (\<forall>sv. R sv (p sv))"

definition reads_respect :: "(Server \<Rightarrow> Server \<Rightarrow> bool) \<Rightarrow> read_pauses \<Rightarrow> bool" where
  "reads_respect R rp \<longleftrightarrow> pause_respects R (rp_start rp) \<and> pause_respects R (rp_confirm rp) \<and>
     (\<forall>(p, q) \<in> set (rp_ticks rp). pause_respects R p \<and> pause_respects R q)"

definition pauses_respect :: "(Server \<Rightarrow> Server \<Rightarrow> bool) \<Rightarrow> pauses \<Rightarrow> bool" where
  "pauses_respect R pz \<longleftrightarrow>
     pause_respects R (pz_start pz) \<and> pause_respects R (pz_redirect pz) \<and> pause_respects R (pz_append pz) \<and>
     pause_respects R (pz_write pz) \<and> pause_respects R (pz_sleep pz) \<and> (\<forall>i. reads_respect R (pz_read pz i)) \<and>
     (\<forall>t. \<forall>(p, q, r) \<in> set (pz_poll pz t). pause_respects R p \<and> pause_respects R q \<and> pause_respects R r)"

text \<open>
  A preorder is respected by whatever only waits and reads, if the pauses respect it; one that
  appending an entry respects, by every operation; one that caching a response respects as well,
  by every handler.
\<close>

locale waiting_preorder =
  fixes R :: "Server \<Rightarrow> Server \<Rightarrow> bool"
  assumes R_refl: "R sv sv"
    and R_trans: "R a b \<Longrightarrow> R b c \<Longrightarrow> R a c"
begin

lemma R_pause [intro]: "pause_respects R p \<Longrightarrow> R sv0 sv \<Longrightarrow> R sv0 (p sv)"
  unfolding pause_respects_def by (blast intro: R_trans)

lemma pauses_respectD:
  assumes "pauses_respect R pz"
  shows "pause_respects R (pz_start pz)" "pause_respects R (pz_redirect pz)" "pause_respects R (pz_append pz)"
    "pause_respects R (pz_write pz)" "pause_respects R (pz_sleep pz)" "reads_respect R (pz_read pz i)"
    "\<forall>(p, q, r) \<in> set (pz_poll pz t). pause_respects R p \<and> pause_respects R q \<and> pause_respects R r"
  using assms unfolding pauses_respect_def by blast+

lemma waitForCommit_R:
  assumes "\<forall>(p, q, r) \<in> set ticks. pause_respects R p \<and> pause_respects R q \<and> pause_respects R r" "R sv0 sv"
  shows "R sv0 (fst (Server_waitForCommit index ticks sv))"
  using assms
proof (induction index ticks sv rule: Server_waitForCommit.induct)
  case (2 index p q r ticks sv)
  then have "pause_respects R p" "pause_respects R q" "pause_respects R r" "R sv0 (p sv)" by auto
  then have "R sv0 (q (p sv))" "R sv0 (r (p sv))" "R sv0 (r (q (p sv)))" by auto
  then show ?case using 2 by (simp add: Let_def)
qed simp

lemma read_loop_R:
  assumes "\<forall>(p, q) \<in> set ticks. pause_respects R p \<and> pause_respects R q" "R sv0 sv"
  shows "R sv0 (fst (sv_read_loop key i ticks sv))"
  using assms by (induction key i ticks sv rule: sv_read_loop.induct) (auto simp: Let_def)

lemma Node_Get_R:
  assumes "reads_respect R rp" "R sv0 sv"
  shows "R sv0 (fst (Node_Get key rp sv))"
proof -
  let ?s = "rp_confirm rp (rp_start rp sv)"
  have s: "R sv0 (rp_start rp sv)" "R sv0 ?s" using assms unfolding reads_respect_def by blast+
  have loop: "R sv0 sv'" if "sv_read_loop key i (rp_ticks rp) ?s = (sv', y)" for i sv' y
    using read_loop_R [of "rp_ticks rp" sv0 ?s key i] assms(1) s(2) that by (simp add: reads_respect_def)
  show ?thesis
    using s by (auto simp: Node_Get_def Let_def split: prod.splits option.splits bool.splits dest: loop)
qed

lemma handleGet_R:
  assumes pz: "pauses_respect R pz" and R: "R sv0 sv"
  shows "R sv0 (fst (handleGet pz req sv))"
proof -
  have "R sv0 (pz_redirect pz sv)" "R sv0 (pz_sleep pz sv)" "R sv0 (pz_redirect pz (pz_sleep pz sv))"
    using pauses_respectD [OF pz] R by blast+
  then show ?thesis
    using Node_Get_R [OF pauses_respectD(6) [OF pz], of sv0 "pz_sleep pz sv"]
    by (simp add: handleGet_def getFromStateMachine_def Let_def case_prod_beta)
qed

lemma redirect_R: "pauses_respect R pz \<Longrightarrow> R sv0 sv \<Longrightarrow> R sv0 (pz_redirect pz sv)"
  using pauses_respectD(2) by blast

lemma processBatchReads_R:
  assumes "pauses_respect R pz" "R sv0 sv"
  shows "R sv0 (fst (processBatchReads pz i ops sv))"
  using assms(2)
  by (induction ops arbitrary: i sv)
    (simp_all add: getFromStateMachine_def Let_def case_prod_beta Node_Get_R pauses_respectD(6) [OF assms(1)])

end

locale waiting_relation = waiting_preorder +
  assumes R_append: "R sv (sv\<lparr>sv_raftNode := fst (AppendLogEntry data ty (sv_raftNode sv))\<rparr>)"
begin

text \<open>The part \<open>handlePut\<close>, \<open>handleDelete\<close> and batches share.\<close>

lemma submit_R:
  fixes data ty
  defines "appended \<equiv> \<lambda>sv. sv\<lparr>sv_raftNode := fst (AppendLogEntry data ty (sv_raftNode sv))\<rparr>"
  assumes pz: "pauses_respect R pz" and R: "R sv0 sv"
  shows "R sv0 (pz_redirect pz (appended (pz_append pz sv)))"
    and "R sv0 (appended (pz_append pz sv))"
    and "R sv0 (fst (Server_waitForCommit i (pz_poll pz t) (appended (pz_append pz sv))))"
proof -
  have "R sv0 (pz_append pz sv)" using pauses_respectD(3) [OF pz] R by blast
  then show s: "R sv0 (appended (pz_append pz sv))"
    unfolding appended_def using R_append by (rule R_trans)
  then show "R sv0 (pz_redirect pz (appended (pz_append pz sv)))"
    using pauses_respectD(2) [OF pz] by blast
  show "R sv0 (fst (Server_waitForCommit i (pz_poll pz t) (appended (pz_append pz sv))))"
    using pauses_respectD(7) [OF pz] s by (rule waitForCommit_R)
qed

lemmas write_simps = Let_def case_prod_beta submit_R redirect_R

lemma handlePut_R: "pauses_respect R pz \<Longrightarrow> R sv0 sv \<Longrightarrow> R sv0 (fst (handlePut c pz req sv))"
  by (simp add: handlePut_def write_simps)

lemma handleDelete_R: "pauses_respect R pz \<Longrightarrow> R sv0 sv \<Longrightarrow> R sv0 (fst (handleDelete c pz req sv))"
  by (simp add: handleDelete_def write_simps)

lemma dispatch_R: "pauses_respect R pz \<Longrightarrow> R sv0 sv \<Longrightarrow> R sv0 (fst (dispatch c pz req sv))"
  by (simp add: dispatch_def handleGet_R handlePut_R handleDelete_R split: OperationType.split)

lemma processBatchWrites_R:
  assumes "pauses_respect R pz" "R sv0 sv"
  shows "R sv0 (fst (processBatchWrites c pz ops timeout sv))"
proof -
  have "R sv0 (pz_write pz sv)" using pauses_respectD(4) assms by blast
  then show ?thesis using assms(1) by (simp add: processBatchWrites_def write_simps split: sum.split)
qed

end

locale handler_relation = waiting_relation +
  assumes R_cache: "R sv (sv\<lparr>sv_sessionManager := CacheResponse clock k s (Some resp) (sv_sessionManager sv)\<rparr>)"
begin

lemma cached_R:
  "R sv0 sv \<Longrightarrow>
     R sv0 (sv\<lparr>sv_sessionManager := CacheResponse clock k s (Some resp) (sv_sessionManager sv)\<rparr>)"
  using R_cache by (rule R_trans [rotated])

lemma HandleRequest_R:
  assumes "pauses_respect R pz" "R sv0 sv"
  shows "R sv0 (fst (HandleRequest c pz request sv))"
proof -
  have "R sv0 (pz_start pz sv)" using pauses_respectD(1) assms by blast
  then have "R sv0 (fst (dispatch c pz req (pz_start pz sv)))" for req using assms(1) by (simp add: dispatch_R)
  then show ?thesis
    using assms(2) by (simp add: HandleRequest_def Let_def case_prod_beta cached_R split: option.split)
qed

lemma HandleBatch_R:
  assumes pz: "pauses_respect R pz" and R: "R sv0 sv"
  shows "R sv0 (fst (HandleBatch c pz request sv))"
proof -
  have s: "R sv0 (pz_start pz sv)" using pauses_respectD(1) pz R by blast
  have w: "R sv0 (fst (processBatchWrites c pz ops t (pz_start pz sv)))" for ops t
    using pz s by (rule processBatchWrites_R)
  show ?thesis
    using R s w
    by (simp add: HandleBatch_def Let_def case_prod_beta cached_R processBatchReads_R [OF pz] redirect_R [OF pz]
        split: option.split sum.split)
qed

end


text \<open>
  Relations the handlers respect: no session is forgotten; the log only grows and what was
  applied stays applied; no session loses its response. While an operation waits, a client's
  session is left alone.
\<close>

definition sessions_kept :: "Server \<Rightarrow> Server \<Rightarrow> bool" where
  "sessions_kept a b \<longleftrightarrow> sessions.newer (sv_sessionManager a) (sv_sessionManager b)"

definition log_kept :: "Server \<Rightarrow> Server \<Rightarrow> bool" where
  "log_kept a b \<longleftrightarrow>
     (\<exists>es. nd_log (sv_raftNode b) = nd_log (sv_raftNode a) @ es) \<and>
     nd_lastApplied (sv_raftNode a) \<le> nd_lastApplied (sv_raftNode b)"

definition answers_kept :: "Server \<Rightarrow> Server \<Rightarrow> bool" where
  "answers_kept a b \<longleftrightarrow> (sessions_ok (sv_sessionManager a) \<longrightarrow> sessions_ok (sv_sessionManager b))"

definition session_untouched :: "string \<Rightarrow> Server \<Rightarrow> Server \<Rightarrow> bool" where
  "session_untouched k a b \<longleftrightarrow> sm_sessions (sv_sessionManager b) k = sm_sessions (sv_sessionManager a) k"

lemma AppendLogEntry_frame:
  "\<exists>es. nd_log (fst (AppendLogEntry data ty n)) = nd_log n @ es"
  "nd_lastApplied (fst (AppendLogEntry data ty n)) = nd_lastApplied n"
  by (simp_all add: AppendLogEntry_def AppendEntry_def Let_def case_prod_beta go_spawn_def)

interpretation sessions_kept: handler_relation sessions_kept
proof
  show "sessions_kept a b \<Longrightarrow> sessions_kept b c \<Longrightarrow> sessions_kept a c" for a b c
    unfolding sessions_kept_def by (rule sessions.newer_trans)
qed (simp_all add: sessions_kept_def sessions.newer_refl sessions.newer_cache)

interpretation log_kept: handler_relation log_kept
  by unfold_locales (auto simp: log_kept_def AppendLogEntry_frame)

interpretation answers_kept: handler_relation answers_kept
  by unfold_locales (auto simp: answers_kept_def intro: CacheResponse_ok)

interpretation session_untouched: waiting_relation "session_untouched k" for k
  by unfold_locales (simp_all add: session_untouched_def)


section \<open>Running the server\<close>

text \<open>
  The server handles requests and batches, and the node changes as it likes; the cleanup of
  sessions older than ten minutes does not run.
\<close>

inductive api_step :: "codec \<Rightarrow> Server \<Rightarrow> Server \<Rightarrow> bool" for c where
  request: "pauses_respect sessions_kept pz \<Longrightarrow> api_step c sv (fst (HandleRequest c pz request sv))"
| batch: "pauses_respect sessions_kept pz \<Longrightarrow> api_step c sv (fst (HandleBatch c pz brequest sv))"
| node: "api_step c sv (sv\<lparr>sv_raftNode := n\<rparr>)"

lemma api_step_sessions: "api_step c sv sv' \<Longrightarrow> sessions_kept sv sv'"
proof (induction rule: api_step.induct)
  case (request pz sv req)
  then show ?case by (intro sessions_kept.HandleRequest_R sessions_kept.R_refl)
next
  case (batch pz sv breq)
  then show ?case by (intro sessions_kept.HandleBatch_R sessions_kept.R_refl)
next
  case (node sv n)
  then show ?case by (simp add: sessions_kept_def sessions.newer_refl)
qed

lemma api_steps_sessions: "(api_step c)\<^sup>*\<^sup>* sv sv' \<Longrightarrow> sessions_kept sv sv'"
  by (induction rule: rtranclp_induct)
    (blast intro: sessions_kept.R_refl sessions_kept.R_trans api_step_sessions)+

text \<open>Handling a valid request of a numbering client, duplicate or not.\<close>

lemma HandleRequest_duplicate:
  assumes "validateRequest (Some req) = None" "numbered (rq_ClientID req) (rq_Sequence req)"
    and "CheckDuplicate (rq_ClientID req) (rq_Sequence req) (sv_sessionManager sv) = (r, True)"
  shows "HandleRequest c pz (Some req) sv = (sv, r)"
  using assms by (simp add: HandleRequest_def)

lemma HandleRequest_fresh:
  assumes "validateRequest (Some req) = None"
    and "numbered (rq_ClientID req) (rq_Sequence req) \<longrightarrow>
           lastSequence (rq_ClientID req) (sv_sessionManager sv) < rq_Sequence req"
    and "dispatch c pz req (pz_start pz sv) = (sv1, resp)"
  shows "HandleRequest c pz (Some req) sv =
     (if numbered (rq_ClientID req) (rq_Sequence req)
      then sv1\<lparr>sv_sessionManager := CacheResponse (pz_clock pz) (rq_ClientID req) (rq_Sequence req)
             (Some resp) (sv_sessionManager sv1)\<rparr>
      else sv1, Some resp)"
proof (cases "numbered (rq_ClientID req) (rq_Sequence req)")
  case True
  then have "CheckDuplicate (rq_ClientID req) (rq_Sequence req) (sv_sessionManager sv) = (None, False)"
    using assms(2) by (simp add: sessions.check_latest numbered_def not_le)
  then show ?thesis using assms True by (simp add: HandleRequest_def)
next
  case False
  then show ?thesis using assms by (simp add: HandleRequest_def case_prod_beta)
qed

lemma HandleRequest_cached:
  assumes "validateRequest (Some req) = None" "numbered (rq_ClientID req) (rq_Sequence req)"
    and "sessions_kept (fst (HandleRequest c pz (Some req) sv)) sv'"
  shows "snd (CheckDuplicate (rq_ClientID req) (rq_Sequence req) (sv_sessionManager sv'))"
proof (cases "snd (CheckDuplicate (rq_ClientID req) (rq_Sequence req) (sv_sessionManager sv))")
  case True
  moreover have "fst (HandleRequest c pz (Some req) sv) = sv"
    using True assms(1,2) by (simp add: HandleRequest_def case_prod_beta)
  ultimately show ?thesis
    using assms(2,3) unfolding sessions_kept_def
    by (auto simp: numbered_def intro: sessions.duplicate_stays)
next
  case False
  obtain sv1 resp where d: "dispatch c pz req (pz_start pz sv) = (sv1, resp)" by fastforce
  have "lastSequence (rq_ClientID req) (sv_sessionManager sv) < rq_Sequence req"
    using False assms(2) by (auto simp: sessions.check_latest numbered_def split: if_splits)
  then show ?thesis
    using HandleRequest_fresh [OF assms(1) _ d] assms(2,3) unfolding sessions_kept_def
    by (auto simp: numbered_def intro: sessions.cached_is_duplicate)
qed

text \<open>A put answered with success went through the log and the wait for its commit.\<close>

abbreviation appended :: "bytes \<Rightarrow> EntryType \<Rightarrow> Server \<Rightarrow> Server" where
  "appended data ty sv \<equiv> sv\<lparr>sv_raftNode := fst (AppendLogEntry data ty (sv_raftNode sv))\<rparr>"

lemma refusals_fail [simp]:
  "\<not> rs_Success (error_response e)" "\<not> rs_Success (redirectToLeader sv)"
  by (simp_all add: error_response_def redirectToLeader_def)

lemma handlePut_success:
  fixes pz sv
  defines "s \<equiv> pz_append pz sv"
  assumes "handlePut c pz req sv = (sv', resp)" "rs_Success resp"
  obtains t where "nd_state (sv_raftNode s) = Leader"
    "let data = marshal c \<lparr>cm_Type = CommandPut, cm_Key = rq_Key req, cm_Value = rq_Value req\<rparr> in
     Server_waitForCommit (fst (snd (AppendLogEntry data EntryNormal (sv_raftNode s)))) (pz_poll pz t)
       (appended data EntryNormal s) = (sv', True)"
proof -
  let ?data = "marshal c \<lparr>cm_Type = CommandPut, cm_Key = rq_Key req, cm_Value = rq_Value req\<rparr>"
  let ?t = "if rq_Timeout req = 0 then sv_defaultTimeout s else rq_Timeout req"
  have "snd (snd (AppendLogEntry ?data EntryNormal (sv_raftNode s)))"
    using assms by (auto simp: handlePut_def Let_def case_prod_beta split: if_splits)
  then have "nd_state (sv_raftNode s) = Leader" by (auto simp: AppendLogEntry_def split: if_splits)
  moreover have "Server_waitForCommit (fst (snd (AppendLogEntry ?data EntryNormal (sv_raftNode s)))) (pz_poll pz ?t)
       (appended ?data EntryNormal s) = (sv', True)"
    using assms by (auto simp: handlePut_def Let_def case_prod_beta prod_eq_iff split: if_splits)
  ultimately show thesis by (intro that [of ?t]) simp_all
qed

lemma waitForCommit_applied:
  "Server_waitForCommit index ticks sv = (sv', True) \<Longrightarrow> index \<le> nd_lastApplied (sv_raftNode sv')"
  by (induction index ticks sv rule: Server_waitForCommit.induct) (auto simp: Let_def split: if_splits)

text \<open>A batch that was handled, and not answered from the cache.\<close>

lemma processBatchReads_length:
  "processBatchReads pz i ops sv = (sv', rs) \<Longrightarrow> length rs = length ops"
  by (induction ops arbitrary: i sv rs sv') (auto simp: Let_def split: prod.splits)

lemma processBatchWrites_results:
  "processBatchWrites c pz ops t sv = (sv', Inr rs) \<Longrightarrow>
     rs = replicate (length ops) \<lparr>or_Success = True, or_Value = None, or_Error = ''''\<rparr>"
  by (auto simp: processBatchWrites_def Let_def split: if_splits sum.splits prod.splits)

lemma HandleBatch_fresh:
  assumes "validateBatchRequest (Some req) = None"
    and "\<not> (numbered (bq_ClientID req) (bq_Sequence req) \<and>
             snd (CheckDuplicate (bq_ClientID req) (bq_Sequence req) (sv_sessionManager sv)))"
    and "HandleBatch c pz (Some req) sv = (sv', Inr resp)" "bs_Success resp"
  obtains sv1 rs where
    "bs_Results resp = replicate (length (filter (\<lambda>op. \<not> is_read op) (bq_Operations req)))
       \<lparr>or_Success = True, or_Value = None, or_Error = ''''\<rparr> @ rs"
    "length rs = length (filter is_read (bq_Operations req))"
    "sv' = (if numbered (bq_ClientID req) (bq_Sequence req)
            then sv1\<lparr>sv_sessionManager := CacheResponse (pz_clock pz) (bq_ClientID req) (bq_Sequence req)
                   (Some (success_response None)) (sv_sessionManager sv1)\<rparr> else sv1)"
proof -
  let ?w = "filter (\<lambda>op. \<not> is_read op) (bq_Operations req)" and ?r = "filter is_read (bq_Operations req)"
  let ?written = "if ?w = [] then (pz_start pz sv, Inr [])
    else processBatchWrites c pz ?w (bq_Timeout req) (pz_start pz sv)"
  obtain svw written where w: "?written = (svw, written)" by fastforce
  obtain ws where ws: "written = Inr ws" and
    h: "HandleBatch c pz (Some req) sv = (let (sv1, rs) = processBatchReads pz 0 ?r svw in
      (if numbered (bq_ClientID req) (bq_Sequence req)
       then sv1\<lparr>sv_sessionManager := CacheResponse (pz_clock pz) (bq_ClientID req) (bq_Sequence req)
              (Some (success_response None)) (sv_sessionManager sv1)\<rparr> else sv1,
       Inr \<lparr>bs_Success = True, bs_Results = ws @ rs, bs_Error = '''', bs_LeaderID = '''', bs_LeaderAddress = ''''\<rparr>))"
    using assms w
    by (cases written) (auto simp: HandleBatch_def Let_def batch_error_def redirectBatchToLeader_def case_prod_beta
        split: if_splits)
  obtain sv1 rs where r: "processBatchReads pz 0 ?r svw = (sv1, rs)" by fastforce
  have "ws = replicate (length ?w) \<lparr>or_Success = True, or_Value = None, or_Error = ''''\<rparr>"
    using w ws processBatchWrites_results by (auto split: if_splits)
  then show thesis
    using h r processBatchReads_length [OF r] assms(3) by (intro that [of rs sv1]) auto
qed

lemma HandleBatch_duplicate:
  assumes "validateBatchRequest (Some req) = None" "numbered (bq_ClientID req) (bq_Sequence req)"
    and "snd (CheckDuplicate (bq_ClientID req) (bq_Sequence req) (sv_sessionManager sv))"
  shows "HandleBatch c pz (Some req) sv =
     (sv, convertToBatchResponse (fst (CheckDuplicate (bq_ClientID req) (bq_Sequence req) (sv_sessionManager sv))))"
  using assms by (simp add: HandleBatch_def case_prod_beta)

lemma HandleBatch_cached:
  assumes "validateBatchRequest (Some req) = None" "numbered (bq_ClientID req) (bq_Sequence req)"
    and "HandleBatch c pz (Some req) sv = (sv1, Inr resp)" "bs_Success resp" "sessions_kept sv1 sv2"
  shows "snd (CheckDuplicate (bq_ClientID req) (bq_Sequence req) (sv_sessionManager sv2))"
proof (cases "snd (CheckDuplicate (bq_ClientID req) (bq_Sequence req) (sv_sessionManager sv))")
  case True
  then have "sv1 = sv" using HandleBatch_duplicate [OF assms(1,2)] assms(3) by simp
  then show ?thesis
    using True assms(2,5) unfolding sessions_kept_def by (auto simp: numbered_def intro: sessions.duplicate_stays)
next
  case False
  then obtain sv' where "sv1 = sv'\<lparr>sv_sessionManager := CacheResponse (pz_clock pz) (bq_ClientID req)
      (bq_Sequence req) (Some (success_response None)) (sv_sessionManager sv')\<rparr>"
    using HandleBatch_fresh [OF assms(1) _ assms(3,4)] assms(2) by auto
  then show ?thesis
    using assms(2,5) unfolding sessions_kept_def by (auto simp: numbered_def intro: sessions.cached_is_duplicate)
qed

section \<open>Example servers\<close>

text \<open>Pauses in which nothing happens, and a request.\<close>

definition idle_reads :: read_pauses where
  "idle_reads = \<lparr>rp_start = id, rp_confirm = id, rp_ticks = []\<rparr>"

definition idle :: pauses where
  "idle = \<lparr>pz_start = id, pz_redirect = id, pz_append = id, pz_poll = (\<lambda>_. []), pz_write = id,
           pz_sleep = id, pz_read = (\<lambda>_. idle_reads), pz_clock = (0, 0, 0)\<rparr>"

definition example_request :: Request where
  "example_request =
     \<lparr>rq_ID = ''r'', rq_ClientID = ''c'', rq_Sequence = 1, rq_Type = OperationPut, rq_Key = ''a'',
      rq_Value = Some [7], rq_Timeout = 0\<rparr>"

lemma idle_respects: "(\<And>sv. R sv sv) \<Longrightarrow> pauses_respect R idle"
  by (simp add: pauses_respect_def reads_respect_def pause_respects_def idle_def idle_reads_def)

lemma example_request_ok:
  "validateRequest (Some example_request) = None"
  "numbered (rq_ClientID example_request) (rq_Sequence example_request)"
  by (simp_all add: validateRequest_def numbered_def example_request_def)

text \<open>
  A leader whose log holds one entry, and what happens to it while a handler polls: it applies
  its log, or another leader overwrites the entry just appended.
\<close>

definition example_kv_leader :: "KVStateMachine Node" where
  "example_kv_leader =
     example_kv_node\<lparr>nd_state := Leader, nd_electionTimer := nd_electionTimer (example_node ''n1'' []),
       nd_serverState := SetVotedFor ''n1'' (nd_serverState example_kv_node),
       nd_leaderState := Some \<lparr>ls_NextIndex = Map.empty, ls_MatchIndex = Map.empty\<rparr>\<rparr>"

lemma example_kv_leader_ok: "node_ok example_kv_leader"
  using example_node_ok [of "''n1''" "[]"]
  by (simp add: node_ok_def example_kv_leader_def example_kv_node_def provided_configs_valid wf_log_def
      slice_ok_def election_state_ok_def NewElectionState_def)

definition committing :: pauses where
  "committing = idle\<lparr>pz_poll := (\<lambda>_. [(\<lambda>sv. sv\<lparr>sv_raftNode :=
     applyCommittedEntries (kv_step put_codec)
       ((sv_raftNode sv)\<lparr>nd_volatileState := SetCommitIndex 2 (nd_volatileState (sv_raftNode sv))\<rparr>)\<rparr>,
     id, id)])\<rparr>"

definition example_overwrite :: AppendEntriesRequest where
  "example_overwrite =
     \<lparr>ae_Term = 2, ae_LeaderId = ''n2'', ae_PrevLogIndex = 1, ae_PrevLogTerm = 1,
      ae_Entries = [\<lparr>pe_Term = 2, pe_Index = 2, pe_Type = ENTRY_TYPE_NORMAL, pe_Data = [9]\<rparr>],
      ae_LeaderCommit = 2\<rparr>"

definition overwriting :: pauses where
  "overwriting = idle\<lparr>pz_poll := (\<lambda>_. [(\<lambda>sv. sv\<lparr>sv_raftNode :=
     applyCommittedEntries (kv_step put_codec) (fst (processAppendEntries example_overwrite (sv_raftNode sv)))\<rparr>,
     id, id)])\<rparr>"

section \<open>Properties\<close>

text \<open>C12: A numbered request takes effect at most once. After a valid request with a client
  id and a sequence number has been answered, handling it again, in whatever state the node
  and the server have got to and however long the handler waits, changes nothing at all: no
  second entry goes into the log.\<close>

theorem repeated_request_changes_nothing:
  assumes "validateRequest (Some req) = None" "numbered (rq_ClientID req) (rq_Sequence req)"
    and "HandleRequest c pz (Some req) sv = (sv1, resp)" "(api_step c)\<^sup>*\<^sup>* sv1 sv2"
  shows "fst (HandleRequest c pz' (Some req) sv2) = sv2"
proof -
  have "snd (CheckDuplicate (rq_ClientID req) (rq_Sequence req) (sv_sessionManager sv2))"
    using HandleRequest_cached [OF assms(1,2)] api_steps_sessions [OF assms(4)] assms(3)
    by (metis fst_conv)
  then obtain r where "CheckDuplicate (rq_ClientID req) (rq_Sequence req) (sv_sessionManager sv2) = (r, True)"
    by (metis prod.collapse)
  then show ?thesis using HandleRequest_duplicate [OF assms(1,2)] by simp
qed

theorem repeated_request_changes_nothing_witness:
  "fst (HandleRequest put_codec idle (Some example_request)
     (fst (HandleRequest put_codec committing (Some example_request) (NewServer example_kv_leader)))) =
   fst (HandleRequest put_codec committing (Some example_request) (NewServer example_kv_leader))"
  by (rule repeated_request_changes_nothing [OF example_request_ok surjective_pairing rtranclp.rtrancl_refl])

text \<open>A refusal is repeated for ever. A numbered put that met a node which was not leader
  is answered \<open>not_leader\<close>, and so is every repetition of it with the same sequence
  number, although the node has become leader meanwhile.\<close>

theorem not_leader_answer_is_final:
  assumes "validateRequest (Some req) = None" "rq_Type req = OperationPut"
    and "numbered (rq_ClientID req) (rq_Sequence req)"
    and "lastSequence (rq_ClientID req) (sv_sessionManager sv) < rq_Sequence req"
    and "pauses_respect (session_untouched (rq_ClientID req)) pz"
    and "\<not> IsLeader (sv_raftNode (pz_start pz sv))"
    and "(api_step c)\<^sup>*\<^sup>* (fst (HandleRequest c pz (Some req) sv)) sv2"
    and "lastSequence (rq_ClientID req) (sv_sessionManager sv2) = rq_Sequence req"
  shows "\<exists>leader. HandleRequest c pz' (Some req) sv2 =
     (sv2, Some ((error_response ErrCodeNotLeader)\<lparr>rs_LeaderID := leader\<rparr>))"
proof -
  let ?k = "rq_ClientID req" and ?s = "rq_Sequence req" and ?sv1 = "pz_redirect pz (pz_start pz sv)"
  have d: "dispatch c pz req (pz_start pz sv) = (?sv1, redirectToLeader ?sv1)"
    using assms(2,6) by (simp add: dispatch_def handlePut_def Let_def)
  have "session_untouched ?k sv ?sv1"
    using session_untouched.pauses_respectD(1,2) [OF assms(5)] session_untouched.R_refl
    by (blast intro: session_untouched.R_pause)
  then have l: "lastSequence ?k (sv_sessionManager ?sv1) < ?s"
    using assms(4) by (simp add: session_untouched_def lastSequence_def)
  have "sessions.newer (CacheResponse (pz_clock pz) ?k ?s (Some (redirectToLeader ?sv1)) (sv_sessionManager ?sv1))
      (sv_sessionManager sv2)"
    using api_steps_sessions [OF assms(7)] HandleRequest_fresh [OF assms(1) _ d] assms(3,4)
    by (simp add: sessions_kept_def)
  then have "CheckDuplicate ?k ?s (sv_sessionManager sv2) = (Some (redirectToLeader ?sv1), True)"
    using assms(3,8) l by (intro sessions.cached_response) (auto simp: numbered_def)
  then show ?thesis
    using HandleRequest_duplicate [OF assms(1,3)] by (auto simp: redirectToLeader_def)
qed

theorem not_leader_answer_is_final_witness:
  "\<exists>sv leader. IsLeader (sv_raftNode sv) \<and> HandleRequest put_codec committing (Some example_request) sv =
     (sv, Some ((error_response ErrCodeNotLeader)\<lparr>rs_LeaderID := leader\<rparr>))"
proof -
  let ?sv1 = "fst (HandleRequest put_codec idle (Some example_request) (NewServer example_kv_node))"
  have "(api_step put_codec)\<^sup>*\<^sup>* ?sv1 (?sv1\<lparr>sv_raftNode := example_kv_leader\<rparr>)"
    by (intro r_into_rtranclp api_step.node)
  moreover have "lastSequence ''c'' (sv_sessionManager ?sv1) = 1" by code_simp
  moreover have "rq_Type example_request = OperationPut" "rq_ClientID example_request = ''c''"
    "rq_Sequence example_request = 1" "lastSequence ''c'' (sv_sessionManager (NewServer example_kv_node)) = 0"
    "\<not> IsLeader (sv_raftNode (pz_start idle (NewServer example_kv_node)))"
    by code_simp+
  ultimately have "\<exists>leader. HandleRequest put_codec committing (Some example_request)
      (?sv1\<lparr>sv_raftNode := example_kv_leader\<rparr>) =
      (?sv1\<lparr>sv_raftNode := example_kv_leader\<rparr>, Some ((error_response ErrCodeNotLeader)\<lparr>rs_LeaderID := leader\<rparr>))"
    using idle_respects [of "session_untouched ''c''"]
    by (intro not_leader_answer_is_final [OF example_request_ok(1) _ example_request_ok(2), where pz = idle])
      (simp_all add: session_untouched_def)
  moreover have "IsLeader (sv_raftNode (?sv1\<lparr>sv_raftNode := example_kv_leader\<rparr>))" 
    by (simp add: IsLeader_def example_kv_leader_def)
  ultimately show ?thesis by blast
qed


lemma applyCommitted_loop_kept:
  assumes "unat i + k < 2 ^ 64" "nd_lastApplied n < i"
  shows "nd_log (applyCommitted_loop f k i n) = nd_log n \<and>
     nd_lastApplied n \<le> nd_lastApplied (applyCommitted_loop f k i n)"
  using assms
proof (induction k arbitrary: i n)
  case (Suc k)
  have i: "unat (i + 1) = Suc (unat i)" using Suc.prems(1) by (simp add: unat_Suc_u64)
  then have i': "unat (i + 1) + k < 2 ^ 64" "i < i + 1" using Suc.prems(1) by (simp_all add: word_less_nat_alt)
  show ?case
  proof (cases "getLogEntry i n")
    case (Inr entry)
    let ?n = "n\<lparr>nd_stateMachine := apply_entry f entry (nd_stateMachine n),
      nd_volatileState := SetLastApplied i (nd_volatileState n)\<rparr>"
    have n: "nd_lastApplied n \<le> nd_lastApplied ?n" "nd_lastApplied ?n < i + 1" "nd_log ?n = nd_log n"
      using Suc.prems(2) i'(2) by simp_all
    have "applyCommitted_loop f (Suc k) i n = applyCommitted_loop f k (i + 1) ?n"
      using Inr by (simp add: Let_def)
    moreover note Suc.IH [OF i'(1) n(2)]
    ultimately show ?thesis using n(1,3) by (simp only: order_trans [OF n(1)] simp_thms)
  qed simp
qed simp

lemma committing_respects: "pauses_respect log_kept committing"
proof -
  have "log_kept sv (sv\<lparr>sv_raftNode := applyCommittedEntries f
      ((sv_raftNode sv)\<lparr>nd_volatileState := SetCommitIndex 2 (nd_volatileState (sv_raftNode sv))\<rparr>)\<rparr>)" for sv f
  proof (cases "nd_lastApplied (sv_raftNode sv) < 2")
    case True
    let ?n = "(sv_raftNode sv)\<lparr>nd_volatileState := SetCommitIndex 2 (nd_volatileState (sv_raftNode sv))\<rparr>"
    have last: "unat (nd_lastApplied ?n) < 2" using True by (simp add: word_less_nat_alt)
    then have "unat (nd_lastApplied ?n + 1) + unat (2 - nd_lastApplied ?n) < 2 ^ 64"
      "nd_lastApplied ?n < nd_lastApplied ?n + 1"
      by (simp_all add: unat_Suc_u64 word_less_nat_alt unat_sub_if')
    then show ?thesis
      using applyCommitted_loop_kept [of "nd_lastApplied ?n + 1" "unat (2 - nd_lastApplied ?n)" ?n f] True
      by (simp add: log_kept_def applyCommittedEntries_def Let_def)
  qed (simp add: log_kept_def applyCommittedEntries_def not_less)
  then show ?thesis
    using idle_respects [of log_kept] log_kept.R_refl
    by (simp add: pauses_respect_def committing_def pause_respects_def)
qed



text \<open>The results of a batch are those of its writes, all successful, followed by those of
  its reads: one per operation, but in the order of the request only if it lists its writes
  first.\<close>

theorem batch_results_writes_first:
  assumes "validateBatchRequest (Some req) = None"
    and "\<not> (numbered (bq_ClientID req) (bq_Sequence req) \<and>
             snd (CheckDuplicate (bq_ClientID req) (bq_Sequence req) (sv_sessionManager sv)))"
    and "HandleBatch c pz (Some req) sv = (sv', Inr resp)" "bs_Success resp"
  shows "length (bs_Results resp) = length (bq_Operations req) \<and>
     (\<exists>reads. bs_Results resp =
        map (\<lambda>_. \<lparr>or_Success = True, or_Value = None, or_Error = ''''\<rparr>)
          (filter (\<lambda>op. \<not> is_read op) (bq_Operations req)) @ reads)"
proof -
  obtain rs where rs: "bs_Results resp = replicate (length (filter (\<lambda>op. \<not> is_read op) (bq_Operations req)))
       \<lparr>or_Success = True, or_Value = None, or_Error = ''''\<rparr> @ rs"
    "length rs = length (filter is_read (bq_Operations req))"
    by (rule HandleBatch_fresh [OF assms])
  have "length (bs_Results resp) = length (bq_Operations req)"
    using rs sum_length_filter_compl [of is_read "bq_Operations req"] by simp
  then show ?thesis using rs(1) by (simp add: map_replicate_const)
qed

definition example_batch :: BatchRequest where
  "example_batch =
     \<lparr>bq_ID = ''b'', bq_ClientID = ''c'', bq_Sequence = 1,
      bq_Operations = [\<lparr>op_Type = OperationGet, op_Key = ''a'', op_Value = None\<rparr>,
                       \<lparr>op_Type = OperationPut, op_Key = ''a'', op_Value = Some [7]\<rparr>],
      bq_Timeout = 0\<rparr>"

lemma example_batch_answer:
  "snd (HandleBatch put_codec committing (Some example_batch) (NewServer example_kv_leader)) =
     Inr \<lparr>bs_Success = True, bs_Results =
        [\<lparr>or_Success = True, or_Value = None, or_Error = ''''\<rparr>,
         \<lparr>or_Success = False, or_Value = None, or_Error = ErrCodeKeyNotFound\<rparr>],
        bs_Error = '''', bs_LeaderID = '''', bs_LeaderAddress = ''''\<rparr>"
  by code_simp

lemma example_batch_ok:
  "validateBatchRequest (Some example_batch) = None"
  "numbered (bq_ClientID example_batch) (bq_Sequence example_batch)"
  "\<not> snd (CheckDuplicate (bq_ClientID example_batch) (bq_Sequence example_batch)
            (sv_sessionManager (NewServer example_kv_leader)))"
  by code_simp+

theorem batch_results_writes_first_witness:
  "\<exists>sv' resp. HandleBatch put_codec committing (Some example_batch) (NewServer example_kv_leader) = (sv', Inr resp) \<and>
     hd (bs_Results resp) = \<lparr>or_Success = True, or_Value = None, or_Error = ''''\<rparr> \<and>
     hd (bq_Operations example_batch) = \<lparr>op_Type = OperationGet, op_Key = ''a'', op_Value = None\<rparr>"
proof -
  let ?r = "HandleBatch put_codec committing (Some example_batch) (NewServer example_kv_leader)"
  obtain resp where r: "?r = (fst ?r, Inr resp)" "bs_Success resp"
    using example_batch_answer by (metis BatchResponse.select_convs(1) surjective_pairing)
  then obtain reads where "bs_Results resp =
      map (\<lambda>_. \<lparr>or_Success = True, or_Value = None, or_Error = ''''\<rparr>)
        (filter (\<lambda>op. \<not> is_read op) (bq_Operations example_batch)) @ reads"
    using batch_results_writes_first [OF example_batch_ok(1) _ r] example_batch_ok(3) by blast
  then show ?thesis using r(1) by (intro exI [of _ "fst ?r"] exI [of _ resp]) (simp add: example_batch_def is_read_def)
qed

text \<open>A repetition of an answered batch appends nothing, and its answer has lost the
  results: only success and error are cached.\<close>

theorem repeated_batch_loses_results:
  assumes "validateBatchRequest (Some req) = None" "numbered (bq_ClientID req) (bq_Sequence req)"
    and "HandleBatch c pz (Some req) sv = (sv1, Inr resp)" "bs_Success resp"
    and "(api_step c)\<^sup>*\<^sup>* sv1 sv2"
    and "HandleBatch c pz' (Some req) sv2 = (sv3, Inr resp')"
  shows "sv3 = sv2 \<and> bs_Results resp' = []"
proof -
  have "snd (CheckDuplicate (bq_ClientID req) (bq_Sequence req) (sv_sessionManager sv2))"
    using HandleBatch_cached [OF assms(1-4)] api_steps_sessions [OF assms(5)] by blast
  then show ?thesis
    using HandleBatch_duplicate [OF assms(1,2), of sv2 c pz'] assms(6)
    by (auto simp: convertToBatchResponse_def split: option.splits)
qed

theorem repeated_batch_loses_results_witness:
  "\<exists>sv1 resp. HandleBatch put_codec committing (Some example_batch) sv1 = (sv1, Inr resp) \<and> bs_Results resp = []"
proof -
  let ?r = "HandleBatch put_codec committing (Some example_batch) (NewServer example_kv_leader)"
  obtain resp where r: "?r = (fst ?r, Inr resp)" "bs_Success resp"
    using example_batch_answer by (metis BatchResponse.select_convs(1) surjective_pairing)
  have "snd (HandleBatch put_codec committing (Some example_batch) (fst ?r)) =
      Inr \<lparr>bs_Success = True, bs_Results = [], bs_Error = '''', bs_LeaderID = '''', bs_LeaderAddress = ''''\<rparr>"
    by code_simp
  then obtain sv3 resp' where h: "HandleBatch put_codec committing (Some example_batch) (fst ?r) = (sv3, Inr resp')"
    by (metis surjective_pairing)
  then have "sv3 = fst ?r \<and> bs_Results resp' = []"
    by (rule repeated_batch_loses_results [OF example_batch_ok(1,2) r rtranclp.rtrancl_refl])
  with h show ?thesis by blast
qed

end
