(* ===== verification/ApiClient.thy ===== *)
theory ApiClient
  imports ApiGuarantees
begin

text \<open>
  The client library, \<open>src/pkg/api/client.go\<close>: requests are numbered and sent to a
  server, again after a refusal, with growing delays. The servers of a client are a list, and a
  server is called in place. What the random source chooses, how the rest of the program changes
  each server while the client sleeps, and the pauses of the handlers are parameters, one record
  per attempt. One goroutine uses the client at a time.
\<close>

section \<open>Clients\<close>

record Client =
  cli_clientID :: string
  cli_sequence :: u64
  cli_leaderIndex :: int
  cli_maxRetries :: int
  cli_retryDelay :: duration
  cli_requestTimeout :: duration

record ClientConfig =
  cc_MaxRetries :: int
  cc_RetryDelay :: duration
  cc_RequestTimeout :: duration

definition DefaultClientConfig :: ClientConfig where
  "DefaultClientConfig = \<lparr>cc_MaxRetries = 3, cc_RetryDelay = 100 * Millisecond, cc_RequestTimeout = 5 * Second\<rparr>"

definition NewClient :: "string \<Rightarrow> ClientConfig option \<Rightarrow> Client" where
  "NewClient clientID config =
     (let config = (case config of None \<Rightarrow> DefaultClientConfig | Some c \<Rightarrow> c)
      in \<lparr>cli_clientID = clientID, cli_sequence = 0, cli_leaderIndex = - 1,
          cli_maxRetries = cc_MaxRetries config, cli_retryDelay = cc_RetryDelay config,
          cli_requestTimeout = cc_RequestTimeout config\<rparr>)"

definition SetRequestTimeout :: "duration \<Rightarrow> Client \<Rightarrow> Client" where
  "SetRequestTimeout timeout cl = cl\<lparr>cli_requestTimeout := timeout\<rparr>"

definition SetRetryConfig :: "int \<Rightarrow> duration \<Rightarrow> Client \<Rightarrow> Client" where
  "SetRetryConfig maxRetries retryDelay cl = cl\<lparr>cli_maxRetries := maxRetries, cli_retryDelay := retryDelay\<rparr>"

definition GetSequence :: "Client \<Rightarrow> u64" where
  "GetSequence cl = cli_sequence cl"

datatype client_error =
    NoServersAvailable
  | RetriesExhausted int bool               \<comment> \<open>whether there was an error to report\<close>
  | KeyNotFoundError string
  | RequestFailed string
  | ClientPanic go_panic

text \<open>The clock and the random number of a request identifier.\<close>

definition generateRequestID :: "nat \<times> nat \<Rightarrow> Client \<Rightarrow> string" where
  "generateRequestID nonce cl =
     cli_clientID cl @ ''-'' @ decimal (fst nonce) @ ''-'' @ decimal (snd nonce)"

definition newRequest ::
  "nat \<times> nat \<Rightarrow> OperationType \<Rightarrow> string \<Rightarrow> bytes option \<Rightarrow> Client \<Rightarrow> Client \<times> Request" where
  "newRequest nonce opType key value cl =
     (let cl = cl\<lparr>cli_sequence := cli_sequence cl + 1\<rparr>
      in (cl, \<lparr>rq_ID = generateRequestID nonce cl, rq_ClientID = cli_clientID cl, rq_Sequence = cli_sequence cl,
               rq_Type = opType, rq_Key = key, rq_Value = value, rq_Timeout = cli_requestTimeout cl\<rparr>))"

definition newBatchRequest :: "nat \<times> nat \<Rightarrow> Operation list \<Rightarrow> Client \<Rightarrow> Client \<times> BatchRequest" where
  "newBatchRequest nonce operations cl =
     (let cl = cl\<lparr>cli_sequence := cli_sequence cl + 1\<rparr>
      in (cl, \<lparr>bq_ID = generateRequestID nonce cl, bq_ClientID = cli_clientID cl, bq_Sequence = cli_sequence cl,
               bq_Operations = operations, bq_Timeout = cli_requestTimeout cl\<rparr>))"


section \<open>Attempts\<close>

record attempt =
  at_sleep :: "duration \<Rightarrow> nat \<Rightarrow> pause"   \<comment> \<open>of the server at that place\<close>
  at_random :: nat
  at_pauses :: pauses

definition selectServer :: "nat \<Rightarrow> Client \<Rightarrow> nat \<Rightarrow> nat option" where
  "selectServer random cl servers =
     (if servers = 0 then None
      else if 0 \<le> cli_leaderIndex cl \<and> cli_leaderIndex cl < int servers then Some (nat (cli_leaderIndex cl))
      else Some (random mod servers))"

definition updateLeader :: "string \<Rightarrow> Client \<Rightarrow> Client" where
  "updateLeader leaderID cl = cl\<lparr>cli_leaderIndex := - 1\<rparr>"

text \<open>The delay before an attempt other than the first, in the 64-bit arithmetic of \<open>time.Duration\<close>.\<close>

definition backoff :: "duration \<Rightarrow> nat \<Rightarrow> duration" where
  "backoff retryDelay attempt = sint (word_of_int retryDelay * push_bit (attempt - 1) 1 :: u64)"

definition sleep_all :: "(nat \<Rightarrow> pause) \<Rightarrow> Server list \<Rightarrow> Server list" where
  "sleep_all p servers = map (\<lambda>k. p k (servers ! k)) [0 ..< length servers]"

text \<open>
  The loop of \<open>executeWithRetry\<close> and \<open>executeBatchWithRetry\<close>, for any handler
  and the test for a redirection.
\<close>

fun retry ::
  "(pauses \<Rightarrow> Server \<Rightarrow> Server \<times> (go_panic + 'r)) \<Rightarrow> ('r \<Rightarrow> string option) \<Rightarrow> (nat \<Rightarrow> attempt) \<Rightarrow> nat \<Rightarrow> nat \<Rightarrow> bool \<Rightarrow>
     Client \<Rightarrow> Server list \<Rightarrow> Client \<times> Server list \<times> (client_error + 'r)" where
  "retry handle redirection attempts attempt 0 lastErr cl servers =
     (cl, servers, Inl (RetriesExhausted (cli_maxRetries cl) lastErr))"
| "retry handle redirection attempts attempt (Suc left) lastErr cl servers =
     (let at = attempts attempt;
          servers = (if attempt > 0
                     then sleep_all (at_sleep at (backoff (cli_retryDelay cl) attempt)) servers else servers)
      in
        case selectServer (at_random at) cl (length servers) of
          None \<Rightarrow> retry handle redirection attempts (Suc attempt) left True cl servers
        | Some k \<Rightarrow>
            (case handle (at_pauses at) (servers ! k) of
               (sv, Inl panic) \<Rightarrow> (cl, servers[k := sv], Inl (ClientPanic panic))
             | (sv, Inr resp) \<Rightarrow>
                 (case redirection resp of
                    Some leaderID \<Rightarrow>
                      retry handle redirection attempts (Suc attempt) left lastErr (updateLeader leaderID cl) (servers[k := sv])
                  | None \<Rightarrow> (cl, servers[k := sv], Inr resp))))"

text \<open>A nil response is dereferenced.\<close>

definition handle_request :: "codec \<Rightarrow> Request \<Rightarrow> pauses \<Rightarrow> Server \<Rightarrow> Server \<times> (go_panic + Response)" where
  "handle_request c req pz sv =
     (case HandleRequest c pz (Some req) sv of
        (sv, None) \<Rightarrow> (sv, Inl NilDereference)
      | (sv, Some resp) \<Rightarrow> (sv, Inr resp))"

definition redirection :: "Response \<Rightarrow> string option" where
  "redirection resp =
     (if \<not> rs_Success resp \<and> rs_Error resp = ErrCodeNotLeader then Some (rs_LeaderID resp) else None)"

definition executeWithRetry ::
  "codec \<Rightarrow> (nat \<Rightarrow> attempt) \<Rightarrow> Request \<Rightarrow> Client \<Rightarrow> Server list \<Rightarrow> Client \<times> Server list \<times> (client_error + Response)" where
  "executeWithRetry c attempts req cl servers =
     retry (handle_request c req) redirection attempts 0 (nat (cli_maxRetries cl + 1)) False cl servers"

definition batch_redirection :: "BatchResponse \<Rightarrow> string option" where
  "batch_redirection resp =
     (if \<not> bs_Success resp \<and> bs_Error resp = ErrCodeNotLeader then Some (bs_LeaderID resp) else None)"

definition executeBatchWithRetry ::
  "codec \<Rightarrow> (nat \<Rightarrow> attempt) \<Rightarrow> BatchRequest \<Rightarrow> Client \<Rightarrow> Server list \<Rightarrow>
     Client \<times> Server list \<times> (client_error + BatchResponse)" where
  "executeBatchWithRetry c attempts req cl servers =
     retry (\<lambda>pz. HandleBatch c pz (Some req)) batch_redirection attempts 0 (nat (cli_maxRetries cl + 1)) False cl servers"


section \<open>Operations\<close>

definition Client_Get ::
  "codec \<Rightarrow> nat \<times> nat \<Rightarrow> (nat \<Rightarrow> attempt) \<Rightarrow> string \<Rightarrow> Client \<Rightarrow> Server list \<Rightarrow>
     Client \<times> Server list \<times> (client_error + bytes option)" where
  "Client_Get c nonce attempts key cl servers =
     (let (cl, req) = newRequest nonce OperationGet key None cl;
          (cl, servers, r) = executeWithRetry c attempts req cl servers
      in (cl, servers,
          case r of
            Inl err \<Rightarrow> Inl err
          | Inr resp \<Rightarrow>
              if \<not> rs_Success resp
              then Inl (if rs_Error resp = ErrCodeKeyNotFound then KeyNotFoundError key
                        else RequestFailed (''get failed: '' @ rs_Error resp))
              else Inr (rs_Value resp)))"

definition write_result :: "string \<Rightarrow> client_error + Response \<Rightarrow> client_error + unit" where
  "write_result prefix r =
     (case r of
        Inl err \<Rightarrow> Inl err
      | Inr resp \<Rightarrow> if \<not> rs_Success resp then Inl (RequestFailed (prefix @ rs_Error resp)) else Inr ())"

definition Client_Put ::
  "codec \<Rightarrow> nat \<times> nat \<Rightarrow> (nat \<Rightarrow> attempt) \<Rightarrow> string \<Rightarrow> bytes option \<Rightarrow> Client \<Rightarrow> Server list \<Rightarrow>
     Client \<times> Server list \<times> (client_error + unit)" where
  "Client_Put c nonce attempts key value cl servers =
     (let (cl, req) = newRequest nonce OperationPut key value cl;
          (cl, servers, r) = executeWithRetry c attempts req cl servers
      in (cl, servers, write_result ''put failed: '' r))"

definition Client_Delete ::
  "codec \<Rightarrow> nat \<times> nat \<Rightarrow> (nat \<Rightarrow> attempt) \<Rightarrow> string \<Rightarrow> Client \<Rightarrow> Server list \<Rightarrow>
     Client \<times> Server list \<times> (client_error + unit)" where
  "Client_Delete c nonce attempts key cl servers =
     (let (cl, req) = newRequest nonce OperationDelete key None cl;
          (cl, servers, r) = executeWithRetry c attempts req cl servers
      in (cl, servers, write_result ''delete failed: '' r))"

definition Client_Batch ::
  "codec \<Rightarrow> nat \<times> nat \<Rightarrow> (nat \<Rightarrow> attempt) \<Rightarrow> Operation list \<Rightarrow> Client \<Rightarrow> Server list \<Rightarrow>
     Client \<times> Server list \<times> (client_error + BatchResponse)" where
  "Client_Batch c nonce attempts operations cl servers =
     (let (cl, req) = newBatchRequest nonce operations cl
      in executeBatchWithRetry c attempts req cl servers)"

end
