(* ===== verification/ClientGuarantees.thy ===== *)
theory ClientGuarantees
  imports ApiClient
begin

text \<open>
  What a call of the client does to the servers. It appends at most one entry, to the server
  that gave the final answer, and none when it gives up; and a client of one server gives up
  whenever the first answer was a refusal, because that answer is cached.
\<close>

section \<open>Entries appended by one call\<close>

definition log_of :: "Server \<Rightarrow> LogEntry list" where
  "log_of sv = nd_log (sv_raftNode sv)"

definition log_same :: "Server \<Rightarrow> Server \<Rightarrow> bool" where
  "log_same a b \<longleftrightarrow> log_of b = log_of a"

interpretation log_same: waiting_preorder log_same
  by unfold_locales (simp_all add: log_same_def)

text \<open>An operation appends at most one entry, and none if it refuses.\<close>

definition appends_once :: "Server \<Rightarrow> Server \<Rightarrow> bool \<Rightarrow> bool" where
  "appends_once sv sv' refused \<longleftrightarrow>
     (\<exists>es. log_of sv' = log_of sv @ es \<and> length es \<le> 1 \<and> (refused \<longrightarrow> es = []))"

lemma log_same_appends: "log_same sv sv' \<Longrightarrow> appends_once sv sv' refused"
  by (simp add: log_same_def appends_once_def)

lemma AppendLogEntry_log:
  "AppendLogEntry data ty n = (n', i, True) \<Longrightarrow> \<exists>e. nd_log n' = nd_log n @ [e]"
  "AppendLogEntry data ty n = (n', i, False) \<Longrightarrow> n' = n"
  by (auto simp: AppendLogEntry_def AppendEntry_def Let_def go_spawn_def split: if_splits prod.splits)

lemma redirection_simps [simp]:
  "redirection (redirectToLeader sv) \<noteq> None"
  "redirection (error_response ErrCodeTimeout) = None"
  "redirection (success_response v) = None"
  by (simp_all add: redirection_def redirectToLeader_def error_response_def success_response_def)

text \<open>What writes share: append, wait, and answer.\<close>

lemma write_appends:
  assumes pz: "pauses_respect log_same pz"
    and a: "AppendLogEntry data ty (sv_raftNode (pz_append pz sv)) = (n', i, isLeader)"
  defines "sv1 \<equiv> (pz_append pz sv)\<lparr>sv_raftNode := n'\<rparr>"
  shows "\<not> isLeader \<Longrightarrow> log_same sv sv1" "\<not> isLeader \<Longrightarrow> log_same sv (pz_redirect pz sv1)"
    "appends_once sv (fst (Server_waitForCommit i (pz_poll pz t) sv1)) False"
proof -
  have refused: "n' = sv_raftNode (pz_append pz sv)" if "\<not> isLeader"
    using AppendLogEntry_log(2) a that by (cases isLeader) auto
  have same: "log_of (pz_append pz sv) = log_of sv"
    using log_same.pauses_respectD(3) [OF pz] by (simp add: pause_respects_def log_same_def)
  show "log_same sv sv1" if "\<not> isLeader"
    using refused [OF that] same by (simp add: sv1_def log_same_def log_of_def)
  then show "log_same sv (pz_redirect pz sv1)" if "\<not> isLeader" using log_same.redirect_R [OF pz] that by blast
  have "log_same sv1 (fst (Server_waitForCommit i (pz_poll pz t) sv1))"
    by (rule log_same.waitForCommit_R [OF log_same.pauses_respectD(7) [OF pz] log_same.R_refl])
  moreover have "log_of sv1 = log_of sv \<or> (\<exists>e. log_of sv1 = log_of sv @ [e])"
  proof (cases isLeader)
    case True
    then have "\<exists>e. nd_log n' = nd_log (sv_raftNode (pz_append pz sv)) @ [e]" using AppendLogEntry_log(1) a by metis
    then show ?thesis using same by (simp add: sv1_def log_of_def)
  qed (use refused same in \<open>simp add: sv1_def log_of_def\<close>)
  ultimately show "appends_once sv (fst (Server_waitForCommit i (pz_poll pz t) sv1)) False"
    by (auto simp: appends_once_def log_same_def)
qed

lemma handlePut_appends:
  assumes "pauses_respect log_same pz"
  shows "appends_once sv (fst (handlePut c pz req sv)) (redirection (snd (handlePut c pz req sv)) \<noteq> None)"
proof -
  let ?data = "marshal c \<lparr>cm_Type = CommandPut, cm_Key = rq_Key req, cm_Value = rq_Value req\<rparr>"
  obtain n' i l where a: "AppendLogEntry ?data EntryNormal (sv_raftNode (pz_append pz sv)) = (n', i, l)"
    by (metis prod_cases3)
  note w = write_appends [OF assms a]
  show ?thesis
    using w(2) w(3) log_same.redirect_R [OF assms log_same.R_refl, of sv] log_same_appends
    by (auto simp: handlePut_def a Let_def case_prod_beta)
qed

lemma handleDelete_appends:
  assumes "pauses_respect log_same pz"
  shows "appends_once sv (fst (handleDelete c pz req sv)) (redirection (snd (handleDelete c pz req sv)) \<noteq> None)"
proof -
  let ?data = "marshal c \<lparr>cm_Type = CommandDelete, cm_Key = rq_Key req, cm_Value = None\<rparr>"
  obtain n' i l where a: "AppendLogEntry ?data EntryNormal (sv_raftNode (pz_append pz sv)) = (n', i, l)"
    by (metis prod_cases3)
  note w = write_appends [OF assms a]
  show ?thesis
    using w(2) w(3) log_same.redirect_R [OF assms log_same.R_refl, of sv] log_same_appends
    by (auto simp: handleDelete_def a Let_def case_prod_beta)
qed

lemma dispatch_appends:
  assumes "pauses_respect log_same pz"
  shows "appends_once sv (fst (dispatch c pz req sv)) (redirection (snd (dispatch c pz req sv)) \<noteq> None)"
  using handlePut_appends [OF assms] handleDelete_appends [OF assms]
    log_same_appends [OF log_same.handleGet_R [OF assms log_same.R_refl]] log_same_appends [OF log_same.R_refl]
  by (simp add: dispatch_def split: OperationType.split)

lemma handle_request_appends:
  assumes "pauses_respect log_same pz" "handle_request c req pz sv = (sv', r)"
  shows "appends_once sv sv' (\<exists>resp. r = Inr resp \<and> redirection resp \<noteq> None)"
proof -
  obtain svd resp where d: "dispatch c pz req (pz_start pz sv) = (svd, resp)" by fastforce
  have "log_of (pz_start pz sv) = log_of sv"
    using log_same.pauses_respectD(1) [OF assms(1)] by (simp add: pause_respects_def log_same_def)
  then have "appends_once sv svd (redirection resp \<noteq> None)"
    using dispatch_appends [OF assms(1), of "pz_start pz sv" c req] by (simp add: d appends_once_def)
  then show ?thesis
    using assms(2) log_same_appends [OF log_same.R_refl]
    by (auto simp: handle_request_def HandleRequest_def d appends_once_def log_of_def Let_def
        split: option.splits prod.splits if_splits)
qed

text \<open>The loop: the servers that refuse keep their logs.\<close>

lemma sleep_all_simps [simp]:
  "length (sleep_all p servers) = length servers"
  "k < length servers \<Longrightarrow> sleep_all p servers ! k = p k (servers ! k)"
  by (simp_all add: sleep_all_def)

lemma selectServer_less: "selectServer random cl n = Some k \<Longrightarrow> k < n"
  by (auto simp: selectServer_def split: if_splits)

definition appended_at :: "nat \<Rightarrow> LogEntry list \<Rightarrow> Server list \<Rightarrow> Server list \<Rightarrow> bool" where
  "appended_at k es servers servers' \<longleftrightarrow> length servers' = length servers \<and> length es \<le> 1 \<and>
     (\<forall>j < length servers. log_of (servers' ! j) = log_of (servers ! j) @ (if j = k then es else []))"

lemma appended_at_trans:
  "appended_at k' [] s1 s2 \<Longrightarrow> appended_at k es s2 s3 \<Longrightarrow> appended_at k es s1 s3"
  by (auto simp: appended_at_def)

lemma appended_at_one:
  assumes "k < length servers" "appends_once (servers ! k) sv refused"
  obtains es where "appended_at k es servers (servers[k := sv])" "refused \<longrightarrow> es = []"
  using assms unfolding appends_once_def
  by (elim exE) (rule_tac that, auto simp: appended_at_def nth_list_update)

definition gave_up :: "client_error + 'r \<Rightarrow> bool" where
  "gave_up r \<longleftrightarrow> (\<exists>n b. r = Inl (RetriesExhausted n b))"

lemma retry_appends:
  assumes "\<And>i. pauses_respect log_same (at_pauses (attempts i))"
    and "\<And>i d k. pause_respects log_same (at_sleep (attempts i) d k)"
    and handle: "\<And>pz sv sv' r. pauses_respect log_same pz \<Longrightarrow> handle pz sv = (sv', r) \<Longrightarrow>
      appends_once sv sv' (\<exists>resp. r = Inr resp \<and> red resp \<noteq> None)"
    and "retry handle red attempts i left lastErr cl servers = (cl', servers', r)"
  shows "\<exists>k es. appended_at k es servers servers' \<and> (gave_up r \<longrightarrow> es = [])"
  using assms(4)
proof (induction left arbitrary: i lastErr cl servers)
  case 0
  then have "appended_at 0 [] servers servers'" by (simp add: appended_at_def)
  then show ?case by blast
next
  case (Suc left)
  let ?at = "attempts i"
  let ?s = "if i > 0 then sleep_all (at_sleep ?at (backoff (cli_retryDelay cl) i)) servers else servers"
  have slept: "appended_at k [] servers ?s" for k
    using assms(2) by (simp add: appended_at_def pause_respects_def log_same_def)
  show ?case
  proof (cases "selectServer (at_random ?at) cl (length ?s)")
    case None
    then have "retry handle red attempts (Suc i) left True cl ?s = (cl', servers', r)"
      using Suc.prems by (simp add: Let_def)
    from Suc.IH [OF this] show ?thesis using appended_at_trans [OF slept] by blast
  next
    case (Some k)
    then have k: "k < length ?s" by (rule selectServer_less)
    obtain sv rk where h: "handle (at_pauses ?at) (?s ! k) = (sv, rk)" by fastforce
    obtain es where es: "appended_at k es ?s (?s[k := sv])" "(\<exists>resp. rk = Inr resp \<and> red resp \<noteq> None) \<longrightarrow> es = []"
      using appended_at_one [OF k handle [OF assms(1) h]] by blast
    show ?thesis
    proof (cases "\<exists>resp. rk = Inr resp \<and> red resp \<noteq> None")
      case True
      then obtain resp l where rk: "rk = Inr resp" "red resp = Some l" by auto
      then have "retry handle red attempts (Suc i) left lastErr (updateLeader l cl) (?s[k := sv]) = (cl', servers', r)"
        using Suc.prems Some h by (simp add: Let_def)
      from Suc.IH [OF this] show ?thesis
        using appended_at_trans [OF slept] appended_at_trans [of k ?s "?s[k := sv]"] es True by blast
    next
      case False
      then have "servers' = ?s[k := sv] \<and> \<not> gave_up r"
        using Suc.prems Some h by (auto simp: Let_def gave_up_def split: sum.splits option.splits)
      then show ?thesis using appended_at_trans [OF slept es(1)] by blast
    qed
  qed
qed


section \<open>A refusal is final\<close>

text \<open>What a server answers by its cache, for ever, with the client's request number.\<close>

definition refuses :: "string \<Rightarrow> u64 \<Rightarrow> Server \<Rightarrow> bool" where
  "refuses k n sv \<longleftrightarrow> (\<exists>leader. CheckDuplicate k n (sv_sessionManager sv) = (Some (redirectToLeader leader), True))"

lemma refuses_untouched: "session_untouched k sv sv' \<Longrightarrow> refuses k n sv \<Longrightarrow> refuses k n sv'"
  by (simp add: refuses_def session_untouched_def CheckDuplicate_def GetSession_def)

lemma redirectToLeader_redirects: "\<exists>l. redirection (redirectToLeader sv) = Some l"
  using redirection_simps(1) by blast

lemma handle_request_refused:
  assumes "validateRequest (Some req) = None" "numbered (rq_ClientID req) (rq_Sequence req)"
    and "refuses (rq_ClientID req) (rq_Sequence req) sv"
  shows "\<exists>resp l. handle_request c req pz sv = (sv, Inr resp) \<and> redirection resp = Some l"
  using assms HandleRequest_duplicate [OF assms(1,2)] redirectToLeader_redirects
  by (fastforce simp: refuses_def handle_request_def)

lemma handle_request_first_refusal:
  assumes "validateRequest (Some req) = None" "rq_Type req = OperationPut"
    and "numbered (rq_ClientID req) (rq_Sequence req)"
    and "lastSequence (rq_ClientID req) (sv_sessionManager sv) < rq_Sequence req"
    and "pauses_respect (session_untouched (rq_ClientID req)) pz"
    and "\<not> IsLeader (sv_raftNode (pz_start pz sv))"
  shows "\<exists>sv' resp l. handle_request c req pz sv = (sv', Inr resp) \<and> redirection resp = Some l \<and>
    refuses (rq_ClientID req) (rq_Sequence req) sv'"
proof -
  let ?k = "rq_ClientID req" and ?s = "rq_Sequence req" and ?sv1 = "pz_redirect pz (pz_start pz sv)"
  let ?sv2 = "?sv1\<lparr>sv_sessionManager := CacheResponse (pz_clock pz) ?k ?s (Some (redirectToLeader ?sv1)) (sv_sessionManager ?sv1)\<rparr>"
  have d: "dispatch c pz req (pz_start pz sv) = (?sv1, redirectToLeader ?sv1)"
    using assms(2,6) by (simp add: dispatch_def handlePut_def Let_def)
  have "session_untouched ?k sv ?sv1"
    using session_untouched.pauses_respectD(1,2) [OF assms(5)] session_untouched.R_refl
    by (blast intro: session_untouched.R_pause)
  then have l: "lastSequence ?k (sv_sessionManager ?sv1) < ?s"
    using assms(4) by (simp add: session_untouched_def lastSequence_def)
  let ?c = "CacheResponse (pz_clock pz) ?k ?s (Some (redirectToLeader ?sv1)) (sv_sessionManager ?sv1)"
  have "lastSequence ?k ?c = ?s" using l by (simp add: sessions.latest_cache max_absorb2 less_imp_le)
  then have "CheckDuplicate ?k ?s ?c = (Some (redirectToLeader ?sv1), True)"
    using assms(3) by (intro sessions.cached_response [OF _ l sessions.newer_refl]) (simp_all add: numbered_def)
  then have "CheckDuplicate ?k ?s (sv_sessionManager ?sv2) = (Some (redirectToLeader ?sv1), True)" by simp
  then have "refuses ?k ?s ?sv2" unfolding refuses_def by blast
  moreover have "handle_request c req pz sv = (?sv2, Inr (redirectToLeader ?sv1))"
    using HandleRequest_fresh [OF assms(1) _ d] assms(3,4) by (simp add: handle_request_def)
  ultimately show ?thesis using redirectToLeader_redirects by blast
qed

lemma one_server: "selectServer random cl 1 = Some 0"
  by (auto simp: selectServer_def)

lemma retry_refused:
  assumes "validateRequest (Some req) = None" "numbered (rq_ClientID req) (rq_Sequence req)"
    and sleeps: "\<And>i d. pause_respects (session_untouched (rq_ClientID req)) (at_sleep (attempts i) d 0)"
    and "refuses (rq_ClientID req) (rq_Sequence req) sv"
  shows "\<exists>cl' sv'. cli_maxRetries cl' = cli_maxRetries cl \<and>
    retry (handle_request c req) redirection attempts (Suc i) left lastErr cl [sv] =
      (cl', [sv'], Inl (RetriesExhausted (cli_maxRetries cl) lastErr))"
  using assms(4)
proof (induction left arbitrary: i cl sv)
  case (Suc left)
  let ?at = "attempts (Suc i)"
  let ?sv = "at_sleep ?at (backoff (cli_retryDelay cl) (Suc i)) 0 sv"
  have "refuses (rq_ClientID req) (rq_Sequence req) ?sv"
    using sleeps [of "Suc i"] by (intro refuses_untouched [OF _ Suc.prems]) (simp add: pause_respects_def)
  then obtain resp l where "handle_request c req (at_pauses ?at) ?sv = (?sv, Inr resp)" "redirection resp = Some l"
    "refuses (rq_ClientID req) (rq_Sequence req) ?sv"
    using handle_request_refused [OF assms(1,2)] by blast
  then show ?case
    using Suc.IH [of ?sv "updateLeader l cl" "Suc i"] one_server [of "at_random ?at" cl]
    by (simp add: Let_def sleep_all_def updateLeader_def)
qed simp

text \<open>Retrying with one server is in vain. If the node is not leader at the first attempt
  of a put, the server caches the refusal for the number of the request, and however the node
  and the server change between the attempts, leader or not, every further attempt is answered
  from the cache: the client reports that its retries are exhausted.
\<close>

theorem one_server_client_gives_up:
  assumes "cli_clientID cl \<noteq> []" "key \<noteq> []" "0 \<le> cli_maxRetries cl"
    and "cli_sequence cl \<noteq> - 1" "lastSequence (cli_clientID cl) (sv_sessionManager sv) \<le> cli_sequence cl"
    and "pauses_respect (session_untouched (cli_clientID cl)) (at_pauses (attempts 0))"
    and "\<not> IsLeader (sv_raftNode (pz_start (at_pauses (attempts 0)) sv))"
    and "\<And>i d. pause_respects (session_untouched (cli_clientID cl)) (at_sleep (attempts i) d 0)"
  shows "\<exists>cl' sv'. Client_Put c nonce attempts key (Some v) cl [sv] =
    (cl', [sv'], Inl (RetriesExhausted (cli_maxRetries cl) False))"
proof -
  obtain cl1 req where req: "newRequest nonce OperationPut key (Some v) cl = (cl1, req)" by fastforce
  have less: "cli_sequence cl < cli_sequence cl + 1" using assms(4) by (intro u64_less_add_one) auto
  have r: "rq_ClientID req = cli_clientID cl" "rq_Sequence req = cli_sequence cl + 1" "rq_Type req = OperationPut"
    "validateRequest (Some req) = None" "numbered (rq_ClientID req) (rq_Sequence req)"
    "cli_maxRetries cl1 = cli_maxRetries cl"
    using req assms(1,2) less by (auto simp: newRequest_def Let_def validateRequest_def numbered_def word_gt_0)
  have "lastSequence (rq_ClientID req) (sv_sessionManager sv) < rq_Sequence req"
    using assms(5) less r(1,2) by simp
  then obtain sv' resp l where h: "handle_request c req (at_pauses (attempts 0)) sv = (sv', Inr resp)"
    "redirection resp = Some l" "refuses (rq_ClientID req) (rq_Sequence req) sv'"
    using handle_request_first_refusal [OF r(4,3,5)] assms(6,7) r(1) by metis
  obtain left where left: "nat (cli_maxRetries cl + 1) = Suc left" using assms(3) by (metis Suc_nat_eq_nat_zadd1 add.commute)
  obtain cl2 sv2 where "retry (handle_request c req) redirection attempts (Suc 0) left False (updateLeader l cl1) [sv'] =
      (cl2, [sv2], Inl (RetriesExhausted (cli_maxRetries cl) False))"
  proof -
    have "cli_maxRetries (updateLeader l cl1) = cli_maxRetries cl" using r(6) by (simp add: updateLeader_def)
    then show ?thesis
      using retry_refused [OF r(4,5) _ h(3), of attempts "updateLeader l cl1" c 0 left False] assms(8) r(1) that
      by auto
  qed
  then have "executeWithRetry c attempts req cl1 [sv] = (cl2, [sv2], Inl (RetriesExhausted (cli_maxRetries cl) False))"
    using h one_server [of "at_random (attempts 0)" cl1] left r(6) by (simp add: executeWithRetry_def Let_def)
  then show ?thesis using req by (simp add: Client_Put_def write_result_def)
qed

section \<open>Concrete calls\<close>

text \<open>
  A client of a follower and the leader tries them in turn. In the second run the only server's
  node becomes leader after the first attempt.
\<close>

definition patient_attempts :: "nat \<Rightarrow> attempt" where
  "patient_attempts i = \<lparr>at_sleep = (\<lambda>_ _. id), at_random = i, at_pauses = idle\<rparr>"

definition elected_attempts :: "nat \<Rightarrow> attempt" where
  "elected_attempts i =
     \<lparr>at_sleep = (\<lambda>_ _ sv. sv\<lparr>sv_raftNode := example_kv_leader\<rparr>), at_random = i, at_pauses = idle\<rparr>"

definition two_servers :: "Server list" where
  "two_servers = [NewServer example_kv_node, NewServer example_kv_leader]"


theorem one_server_client_gives_up_witness:
  "\<exists>cl' sv'. Client_Put put_codec (0, 0) elected_attempts ''a'' (Some [7]) (NewClient ''c'' None)
     [NewServer example_kv_node] = (cl', [sv'], Inl (RetriesExhausted 3 False))"
proof -
  have "cli_clientID (NewClient ''c'' None) = ''c''" "cli_maxRetries (NewClient ''c'' None) = 3"
    "cli_sequence (NewClient ''c'' None) = 0" "lastSequence ''c'' (sv_sessionManager (NewServer example_kv_node)) = 0"
    "\<not> IsLeader (sv_raftNode (pz_start idle (NewServer example_kv_node)))"
    by code_simp+
  then show ?thesis
    using one_server_client_gives_up [of "NewClient ''c'' None" "''a''" "NewServer example_kv_node" elected_attempts put_codec "(0, 0)" "[7]"]
    by (simp add: elected_attempts_def idle_respects pause_respects_def session_untouched_def)
qed

end
