(* ===== verification/BatchClient.thy ===== *)
theory BatchClient
  imports ClientGuarantees
begin

text \<open>
  What a batch of the client does to the servers: the counterpart of
  \<open>put_is_appended_at_most_once\<close> for \<open>executeBatchWithRetry\<close> of
  \<open>src/pkg/api/client.go\<close> with \<open>HandleBatch\<close> of \<open>batch.go\<close>.
\<close>

lemma processBatchWrites_appends:
  assumes pz: "pauses_respect log_same pz"
  shows "appends_once sv (fst (processBatchWrites c pz ops timeout sv))
     (snd (processBatchWrites c pz ops timeout sv) = Inl ErrCodeNotLeader)"
proof -
  let ?sv = "pz_write pz sv"
  have same: "log_of ?sv = log_of sv"
    using log_same.pauses_respectD [OF pz] by (simp add: pause_respects_def log_same_def)
  have keep: "appends_once sv sv' refused" if "log_same ?sv sv'" for sv' refused
    using that same by (simp add: log_same_def appends_once_def)
  have once: "appends_once sv sv' False" if "appends_once ?sv sv' False" for sv'
    using that same by (simp add: appends_once_def)
  show ?thesis
  proof (cases "IsLeader (sv_raftNode ?sv)")
    case False
    then show ?thesis using keep [OF log_same.R_refl] by (simp add: processBatchWrites_def Let_def)
  next
    case leader: True
    show ?thesis
    proof (cases "batchCommands ops")
      case (Inl err)
      then show ?thesis using leader keep [OF log_same.R_refl] by (simp add: processBatchWrites_def Let_def)
    next
      case (Inr cmds)
      obtain n' i l where a: "AppendLogEntry (marshal_batch c cmds) EntryBatch (sv_raftNode (pz_append pz ?sv)) = (n', i, l)"
        by (metis prod_cases3)
      note w = write_appends [OF pz a]
      show ?thesis
        using leader Inr w(1) w(3) keep once
        by (auto simp: processBatchWrites_def Let_def case_prod_beta a)
    qed
  qed
qed

lemma handle_batch_appends:
  assumes pz: "pauses_respect log_same pz" and run: "HandleBatch c pz (Some req) sv = (sv', r)"
  shows "appends_once sv sv' (\<exists>resp. r = Inr resp \<and> batch_redirection resp \<noteq> None)"
proof -
  let ?sv = "pz_start pz sv" and ?ops = "bq_Operations req"
  let ?id = "bq_ClientID req" and ?seq = "bq_Sequence req"
  have start: "log_of ?sv = log_of sv"
    using log_same.pauses_respectD(1) [OF pz] by (simp add: pause_respects_def log_same_def)
  have same: "appends_once sv sv1 refused" if "log_same ?sv sv1" for sv1 refused
    using that start by (simp add: log_same_def appends_once_def)
  consider (invalid) err where "validateBatchRequest (Some req) = Some err"
    | (dup) "validateBatchRequest (Some req) = None" "numbered ?id ?seq" "snd (CheckDuplicate ?id ?seq (sv_sessionManager sv))"
    | (redirect) "validateBatchRequest (Some req) = None"
        "\<not> (numbered ?id ?seq \<and> snd (CheckDuplicate ?id ?seq (sv_sessionManager sv)))"
        "list_ex is_write ?ops \<and> \<not> IsLeader (sv_raftNode ?sv)"
    | (fresh) "validateBatchRequest (Some req) = None"
        "\<not> (numbered ?id ?seq \<and> snd (CheckDuplicate ?id ?seq (sv_sessionManager sv)))"
        "\<not> (list_ex is_write ?ops \<and> \<not> IsLeader (sv_raftNode ?sv))"
    by (cases "validateBatchRequest (Some req)") blast+
  then show ?thesis
  proof cases
    case invalid
    then have "sv' = sv" using run by (simp add: HandleBatch_def)
    then show ?thesis using log_same_appends [OF log_same.R_refl] by simp
  next
    case dup
    then have "sv' = sv" using run by (auto simp: HandleBatch_def case_prod_beta)
    then show ?thesis using log_same_appends [OF log_same.R_refl] by simp
  next
    case redirect
    then have "sv' = pz_redirect pz ?sv"
      using run by (auto simp: HandleBatch_def case_prod_beta Let_def)
    then show ?thesis using same log_same.redirect_R [OF pz log_same.R_refl] by simp
  next
    case fresh
    let ?w = "filter (\<lambda>op. \<not> is_read op) ?ops"
    obtain svw written where w: "(if ?w = [] then (?sv, Inr []) else processBatchWrites c pz ?w (bq_Timeout req) ?sv) = (svw, written)"
      by fastforce
    have once: "appends_once ?sv svw (written = Inl ErrCodeNotLeader)"
      using processBatchWrites_appends [OF pz, of ?sv c ?w "bq_Timeout req"] w log_same_appends [OF log_same.R_refl]
      by (auto split: if_splits)
    show ?thesis
    proof (cases written)
      case (Inl err)
      then have "sv' = svw" "r = Inr (batch_error err)"
        using run fresh w by (auto simp: HandleBatch_def case_prod_beta Let_def)
      then show ?thesis
        using once start Inl by (auto simp: appends_once_def batch_redirection_def batch_error_def)
    next
      case (Inr res)
      let ?svr = "fst (processBatchReads pz 0 (filter is_read ?ops) svw)"
      have "log_of sv' = log_of ?svr" "\<exists>resp. r = Inr resp \<and> bs_Success resp"
        using run fresh w Inr by (auto simp: HandleBatch_def case_prod_beta Let_def log_of_def split: if_splits)
      moreover have "log_of ?svr = log_of svw"
        using log_same.processBatchReads_R [OF pz log_same.R_refl] by (simp add: log_same_def)
      ultimately show ?thesis
        using once start by (auto simp: appends_once_def batch_redirection_def)
    qed
  qed
qed

text \<open>
  A batch is tried on several servers, but its one entry is appended at most once: if nothing
  else appends entries while the call runs, all logs but one are left as they are, that one gets
  at most one entry, and none when the client reports that its retries are exhausted.
\<close>

theorem batch_is_appended_at_most_once:
  assumes "\<And>i. pauses_respect log_same (at_pauses (attempts i))"
    and "\<And>i d k. pause_respects log_same (at_sleep (attempts i) d k)"
    and "Client_Batch c nonce attempts ops cl servers = (cl', servers', r)"
  shows "length servers' = length servers \<and>
    (\<exists>k es. length es \<le> 1 \<and>
       (\<forall>j < length servers. nd_log (sv_raftNode (servers' ! j)) =
          nd_log (sv_raftNode (servers ! j)) @ (if j = k then es else [])) \<and>
       (\<forall>n b. r = Inl (RetriesExhausted n b) \<longrightarrow> es = []))"
proof -
  obtain cl1 req where "newBatchRequest nonce ops cl = (cl1, req)" by fastforce
  then have e: "executeBatchWithRetry c attempts req cl1 servers = (cl', servers', r)"
    using assms(3) by (simp add: Client_Batch_def)
  obtain k es where k: "appended_at k es servers servers'" "gave_up r \<longrightarrow> es = []"
    using retry_appends [OF assms(1,2) _ e [unfolded executeBatchWithRetry_def]] handle_batch_appends by blast
  then show ?thesis unfolding appended_at_def log_of_def gave_up_def by blast
qed

theorem batch_is_appended_at_most_once_witness:
  "\<exists>cl' servers' r k es.
     Client_Batch put_codec (0, 0) patient_attempts
       [\<lparr>op_Type = OperationPut, op_Key = ''a'', op_Value = Some [7]\<rparr>] (NewClient ''c'' None) two_servers = (cl', servers', r) \<and>
     length es \<le> 1 \<and>
     (\<forall>j < length two_servers. nd_log (sv_raftNode (servers' ! j)) =
        nd_log (sv_raftNode (two_servers ! j)) @ (if j = k then es else []))"
proof -
  obtain cl' servers' r where run: "Client_Batch put_codec (0, 0) patient_attempts
      [\<lparr>op_Type = OperationPut, op_Key = ''a'', op_Value = Some [7]\<rparr>] (NewClient ''c'' None) two_servers = (cl', servers', r)"
    by (metis prod_cases3)
  have "pauses_respect log_same (at_pauses (patient_attempts i))"
    "pause_respects log_same (at_sleep (patient_attempts i) d k)" for i d k
    by (simp_all add: patient_attempts_def idle_respects pause_respects_def log_same_def)
  from batch_is_appended_at_most_once [OF this run] run show ?thesis by blast
qed

end
