(* ===== verification/ClusterConfiguration.thy ===== *)
theory ClusterConfiguration
  imports Prelude
begin

text \<open>
  Cluster configurations and the manager that changes them one node at a time,
  \<open>src/pkg/cluster/types.go\<close>. A configuration is a Go map of pointers to members;
  \<open>Clone\<close> copies it deeply before every change, so a map of members is its value.
  The locale \<open>config_changes\<close> states what a protocol needs of single-node changes
  and proves that quorums before and after a change meet; the manager's operations are its
  interpretation.
\<close>

section \<open>Members and configurations\<close>

datatype MemberType = Voter | Learner | OtherMember int

definition MemberType_String :: "MemberType \<Rightarrow> string" where
  "MemberType_String mt = (case mt of Voter \<Rightarrow> ''Voter'' | Learner \<Rightarrow> ''Learner'' | OtherMember _ \<Rightarrow> ''Unknown'')"

record Member =
  mb_ID :: string
  mb_Address :: string
  mb_Type :: MemberType
  mb_AddedAt :: time

record Configuration =
  cg_Members :: "string \<rightharpoonup> Member"
  cg_Index :: u64
  cg_Term :: u64

datatype config_change_error =
    MemberExists string
  | MemberNotFound string
  | NotALearner string
  | ChangeInProgress
  | NoChangeInProgress
  | AddressRequired
  | AlreadyVoter string
  | NotAVoter string
  | LastVoter
  | UnknownChangeType int
  | NilConfigurationPanic

definition NewConfiguration :: Configuration where
  "NewConfiguration = \<lparr>cg_Members = Map.empty, cg_Index = 0, cg_Term = 0\<rparr>"

definition Clone :: "Configuration \<Rightarrow> Configuration" where
  "Clone c =
     \<lparr>cg_Members = (\<lambda>nodeID. map_option (\<lambda>member.
        \<lparr>mb_ID = mb_ID member, mb_Address = mb_Address member, mb_Type = mb_Type member,
         mb_AddedAt = mb_AddedAt member\<rparr>) (cg_Members c nodeID)),
      cg_Index = cg_Index c, cg_Term = cg_Term c\<rparr>"

definition AddMember ::
  "time \<Rightarrow> string \<Rightarrow> string \<Rightarrow> MemberType \<Rightarrow> Configuration \<Rightarrow> config_change_error + Configuration" where
  "AddMember now nodeID address memberType c =
     (if cg_Members c nodeID \<noteq> None then Inl (MemberExists nodeID)
      else Inr (c\<lparr>cg_Members := (cg_Members c)(nodeID \<mapsto>
             \<lparr>mb_ID = nodeID, mb_Address = address, mb_Type = memberType, mb_AddedAt = now\<rparr>)\<rparr>))"

definition RemoveMember :: "string \<Rightarrow> Configuration \<Rightarrow> config_change_error + Configuration" where
  "RemoveMember nodeID c =
     (if cg_Members c nodeID = None then Inl (MemberNotFound nodeID)
      else Inr (c\<lparr>cg_Members := (cg_Members c)(nodeID := None)\<rparr>))"

definition Configuration_PromoteLearner :: "string \<Rightarrow> Configuration \<Rightarrow> config_change_error + Configuration" where
  "Configuration_PromoteLearner nodeID c =
     (case cg_Members c nodeID of
        None \<Rightarrow> Inl (MemberNotFound nodeID)
      | Some member \<Rightarrow>
          if mb_Type member \<noteq> Learner then Inl (NotALearner nodeID)
          else Inr (c\<lparr>cg_Members := (cg_Members c)(nodeID \<mapsto> member\<lparr>mb_Type := Voter\<rparr>)\<rparr>))"

text \<open>The identifiers of the members of a type; \<open>GetVoters\<close> and \<open>GetLearners\<close>
  list them in the order of map iteration.\<close>

definition members_of_type :: "MemberType \<Rightarrow> Configuration \<Rightarrow> string set" where
  "members_of_type mt c = {nodeID. \<exists>member. cg_Members c nodeID = Some member \<and> mb_Type member = mt}"

definition GetVoters :: "Configuration \<Rightarrow> string set" where
  "GetVoters c = members_of_type Voter c"

definition GetLearners :: "Configuration \<Rightarrow> string set" where
  "GetLearners c = members_of_type Learner c"

definition VoterCount :: "Configuration \<Rightarrow> nat" where
  "VoterCount c = card (GetVoters c)"

definition Quorum :: "Configuration \<Rightarrow> nat" where
  "Quorum c = VoterCount c div 2 + 1"

definition Contains :: "string \<Rightarrow> Configuration \<Rightarrow> bool" where
  "Contains nodeID c \<longleftrightarrow> cg_Members c nodeID \<noteq> None"

definition IsVoter :: "string \<Rightarrow> Configuration \<Rightarrow> bool" where
  "IsVoter nodeID c =
     (case cg_Members c nodeID of None \<Rightarrow> False | Some member \<Rightarrow> mb_Type member = Voter)"


section \<open>The configuration manager\<close>

datatype ConfigChangeType = AddLearnerNode | PromoteNode | RemoveNode | DemoteNode | OtherChange int

definition ConfigChangeType_String :: "ConfigChangeType \<Rightarrow> string" where
  "ConfigChangeType_String cct =
     (case cct of
        AddLearnerNode \<Rightarrow> ''AddLearnerNode''
      | PromoteNode \<Rightarrow> ''PromoteNode''
      | RemoveNode \<Rightarrow> ''RemoveNode''
      | DemoteNode \<Rightarrow> ''DemoteNode''
      | OtherChange _ \<Rightarrow> ''Unknown'')"

record ConfigChange =
  ch_Type :: ConfigChangeType
  ch_NodeID :: string
  ch_Address :: string
  ch_Index :: u64
  ch_Term :: u64

record ConfigurationManager =
  gm_current :: Configuration
  gm_pending :: "ConfigChange option"
  gm_pendingConfig :: "Configuration option"
  gm_changeInProgress :: bool
  gm_lastChangeIndex :: u64

definition NewConfigurationManager :: "(string \<Rightarrow> time) \<Rightarrow> (string \<rightharpoonup> string) \<Rightarrow> ConfigurationManager" where
  "NewConfigurationManager clock initialMembers =
     (let config = NewConfiguration\<lparr>cg_Members :=
            (\<lambda>nodeID. map_option (\<lambda>address.
               \<lparr>mb_ID = nodeID, mb_Address = address, mb_Type = Voter, mb_AddedAt = clock nodeID\<rparr>)
               (initialMembers nodeID))\<rparr>
      in \<lparr>gm_current = config, gm_pending = None, gm_pendingConfig = None,
          gm_changeInProgress = False, gm_lastChangeIndex = 0\<rparr>)"

definition validateChange :: "ConfigChange \<Rightarrow> ConfigurationManager \<Rightarrow> config_change_error option" where
  "validateChange change gm =
     (let current = gm_current gm; nodeID = ch_NodeID change in
      case ch_Type change of
        AddLearnerNode \<Rightarrow>
          if Contains nodeID current then Some (MemberExists nodeID)
          else if ch_Address change = '''' then Some AddressRequired
          else None
      | PromoteNode \<Rightarrow>
          if \<not> Contains nodeID current then Some (MemberNotFound nodeID)
          else if IsVoter nodeID current then Some (AlreadyVoter nodeID)
          else None
      | RemoveNode \<Rightarrow>
          if \<not> Contains nodeID current then Some (MemberNotFound nodeID)
          else if IsVoter nodeID current \<and> VoterCount current \<le> 1 then Some LastVoter
          else None
      | DemoteNode \<Rightarrow>
          if \<not> Contains nodeID current then Some (MemberNotFound nodeID)
          else if \<not> IsVoter nodeID current then Some (NotAVoter nodeID)
          else if VoterCount current \<le> 1 then Some LastVoter
          else None
      | OtherChange t \<Rightarrow> Some (UnknownChangeType t))"

definition applyChangeToConfig ::
  "time \<Rightarrow> ConfigChange \<Rightarrow> Configuration \<Rightarrow> config_change_error + Configuration" where
  "applyChangeToConfig now change config =
     (case ch_Type change of
        AddLearnerNode \<Rightarrow> AddMember now (ch_NodeID change) (ch_Address change) Learner config
      | PromoteNode \<Rightarrow> Configuration_PromoteLearner (ch_NodeID change) config
      | RemoveNode \<Rightarrow> RemoveMember (ch_NodeID change) config
      | DemoteNode \<Rightarrow>
          (case cg_Members config (ch_NodeID change) of
             None \<Rightarrow> Inl (MemberNotFound (ch_NodeID change))
           | Some member \<Rightarrow>
               Inr (config\<lparr>cg_Members :=
                      (cg_Members config)(ch_NodeID change \<mapsto> member\<lparr>mb_Type := Learner\<rparr>)\<rparr>))
      | OtherChange t \<Rightarrow> Inl (UnknownChangeType t))"

definition ProposeChange ::
  "time \<Rightarrow> ConfigChange \<Rightarrow> ConfigurationManager \<Rightarrow> config_change_error + ConfigurationManager" where
  "ProposeChange now change gm =
     (if gm_changeInProgress gm then Inl ChangeInProgress
      else case validateChange change gm of
        Some err \<Rightarrow> Inl err
      | None \<Rightarrow>
          (case applyChangeToConfig now change (Clone (gm_current gm)) of
             Inl err \<Rightarrow> Inl err
           | Inr newConfig \<Rightarrow>
               Inr (gm\<lparr>gm_pending := Some change, gm_pendingConfig := Some newConfig,
                       gm_changeInProgress := True\<rparr>)))"

text \<open>Setting \<open>cm.current.Index\<close> panics when the pending configuration is nil.\<close>

definition CommitChange ::
  "u64 \<Rightarrow> u64 \<Rightarrow> ConfigurationManager \<Rightarrow> config_change_error + ConfigurationManager" where
  "CommitChange index term gm =
     (if \<not> gm_changeInProgress gm \<or> gm_pending gm = None then Inl NoChangeInProgress
      else case gm_pendingConfig gm of
        None \<Rightarrow> Inl NilConfigurationPanic
      | Some config \<Rightarrow>
          Inr (gm\<lparr>gm_current := config\<lparr>cg_Index := index, cg_Term := term\<rparr>,
                  gm_lastChangeIndex := index, gm_pending := None, gm_pendingConfig := None,
                  gm_changeInProgress := False\<rparr>))"

definition ConfigurationManager_AbortChange :: "ConfigurationManager \<Rightarrow> ConfigurationManager" where
  "ConfigurationManager_AbortChange gm =
     gm\<lparr>gm_pending := None, gm_pendingConfig := None, gm_changeInProgress := False\<rparr>"

definition ConfigurationManager_ApplyConfigChange ::
  "time \<Rightarrow> ConfigChange \<Rightarrow> u64 \<Rightarrow> u64 \<Rightarrow> ConfigurationManager \<Rightarrow> config_change_error + ConfigurationManager" where
  "ConfigurationManager_ApplyConfigChange now change index term gm =
     (case applyChangeToConfig now change (Clone (gm_current gm)) of
        Inl err \<Rightarrow> Inl err
      | Inr newConfig \<Rightarrow>
          Inr (gm\<lparr>gm_current := newConfig\<lparr>cg_Index := index, cg_Term := term\<rparr>,
                  gm_lastChangeIndex := index, gm_pending := None, gm_pendingConfig := None,
                  gm_changeInProgress := False\<rparr>))"

definition ConfigurationManager_SetConfiguration ::
  "Configuration \<Rightarrow> ConfigurationManager \<Rightarrow> ConfigurationManager" where
  "ConfigurationManager_SetConfiguration config gm =
     gm\<lparr>gm_current := Clone config, gm_pending := None, gm_pendingConfig := None,
        gm_changeInProgress := False, gm_lastChangeIndex := cg_Index config\<rparr>"

definition ConfigurationManager_GetConfiguration :: "ConfigurationManager \<Rightarrow> Configuration" where
  "ConfigurationManager_GetConfiguration gm = Clone (gm_current gm)"


section \<open>Voters\<close>

lemma Clone_id [simp]: "Clone c = c"
proof -
  have "(\<lambda>member. \<lparr>mb_ID = mb_ID member, mb_Address = mb_Address member, mb_Type = mb_Type member,
      mb_AddedAt = mb_AddedAt member\<rparr>) = (id :: Member \<Rightarrow> Member)"
    by (rule ext) simp
  then show ?thesis by (simp add: Clone_def option.map_id)
qed

lemma IsVoter_iff: "IsVoter nodeID c \<longleftrightarrow> nodeID \<in> GetVoters c"
  by (auto simp: IsVoter_def GetVoters_def members_of_type_def split: option.splits)

lemma GetVoters_subset: "GetVoters c \<subseteq> dom (cg_Members c)"
  by (auto simp: GetVoters_def members_of_type_def)

text \<open>How a change alters the set of voters: by at most the changed node.\<close>

lemma applyChange_voters:
  assumes "applyChangeToConfig now change c = Inr c'"
  shows "GetVoters c' =
     (case ch_Type change of
        AddLearnerNode \<Rightarrow> GetVoters c
      | PromoteNode \<Rightarrow> insert (ch_NodeID change) (GetVoters c)
      | RemoveNode \<Rightarrow> GetVoters c - {ch_NodeID change}
      | DemoteNode \<Rightarrow> GetVoters c - {ch_NodeID change}
      | OtherChange _ \<Rightarrow> GetVoters c)"
    and "finite (dom (cg_Members c)) \<Longrightarrow> finite (dom (cg_Members c'))"
  using assms
  by (auto simp: applyChangeToConfig_def AddMember_def RemoveMember_def Configuration_PromoteLearner_def
      GetVoters_def members_of_type_def split: ConfigChangeType.splits option.splits if_splits)

text \<open>A configuration is well formed: finitely many members, each under its own identifier.\<close>

definition configuration_ok :: "Configuration \<Rightarrow> bool" where
  "configuration_ok c \<longleftrightarrow>
     finite (dom (cg_Members c)) \<and> (\<forall>k m. cg_Members c k = Some m \<longrightarrow> mb_ID m = k)"

lemma applyChange_ok:
  assumes "configuration_ok c" and "applyChangeToConfig now change c = Inr c'"
  shows "configuration_ok c'"
  using assms
  by (auto simp: configuration_ok_def applyChangeToConfig_def AddMember_def RemoveMember_def
      Configuration_PromoteLearner_def split: ConfigChangeType.splits option.splits if_splits)



section \<open>Quorums across a change\<close>

text \<open>
  What the safety of membership changes rests on: a change alters the set of voters by at
  most one node. Then a majority before and a majority after always share a voter.
\<close>

locale config_changes =
  fixes voters :: "'c \<Rightarrow> 'n set"
    and change :: "'c \<Rightarrow> 'c \<Rightarrow> bool"
  assumes finite_voters: "change c c' \<Longrightarrow> finite (voters c)"
    and one_at_a_time: "change c c' \<Longrightarrow>
      voters c' = voters c \<or> (\<exists>x. voters c' = insert x (voters c)) \<or> (\<exists>x. voters c' = voters c - {x})"
begin

lemma finite_voters':
  assumes "change c c'"
  shows "finite (voters c')"
  using finite_voters [OF assms] one_at_a_time [OF assms] by (elim disjE exE) simp_all

text \<open>Majorities of a set and of the set with one more element meet.\<close>

lemma majorities_meet_insert:
  assumes "finite V" "x \<notin> V" "S \<subseteq> V" "T \<subseteq> insert x V"
    and "majority_of (card V) \<le> card S" "majority_of (card (insert x V)) \<le> card T"
  shows "S \<inter> T \<noteq> {}"
proof
  assume disjoint: "S \<inter> T = {}"
  have fin: "finite S" "finite T" using assms(1,3,4) by (blast intro: finite_subset)+
  have "card S + card T = card (S \<union> T)" using fin disjoint by (simp add: card_Un_disjoint)
  also have "\<dots> \<le> card (insert x V)" using assms(1,3,4) by (intro card_mono) auto
  also have "\<dots> = Suc (card V)" using assms(1,2) by simp
  finally show False using assms(1,2,5,6) by (simp add: majority_of_def)
qed

lemma quorums_meet:
  assumes "change c c'" "S \<subseteq> voters c" "T \<subseteq> voters c'"
    and "majority_of (card (voters c)) \<le> card S" "majority_of (card (voters c')) \<le> card T"
  shows "S \<inter> T \<noteq> {}"
proof -
  have fin: "finite (voters c)" "finite (voters c')"
    using assms(1) finite_voters finite_voters' by auto
  consider "voters c' = voters c"
    | x where "voters c' = insert x (voters c)" "x \<notin> voters c"
    | x where "voters c = insert x (voters c')" "x \<notin> voters c'"
    using one_at_a_time [OF assms(1)] by (metis Diff_empty Diff_insert0 insert_Diff insert_absorb
        Diff_iff singletonI)
  then show ?thesis
  proof cases
    case 1
    then show ?thesis using assms fin majorities_meet [of "voters c" S T] by simp
  next
    case 2
    then show ?thesis using assms fin majorities_meet_insert [of "voters c" x S T] by simp
  next
    case 3
    then show ?thesis using assms fin majorities_meet_insert [of "voters c'" x T S]
      by (simp add: Int_commute)
  qed
qed

end

definition single_change :: "Configuration \<Rightarrow> Configuration \<Rightarrow> bool" where
  "single_change c c' \<longleftrightarrow>
     configuration_ok c \<and> (\<exists>now change. applyChangeToConfig now change c = Inr c')"

interpretation single: config_changes GetVoters single_change
proof (unfold_locales, goal_cases)
  case (1 c c')
  then show ?case using GetVoters_subset [of c]
    by (auto simp: single_change_def configuration_ok_def intro: finite_subset)
next
  case (2 c c')
  then obtain now change where "applyChangeToConfig now change c = Inr c'"
    by (auto simp: single_change_def)
  from applyChange_voters(1) [OF this] show ?case by (cases "ch_Type change") auto
qed


section \<open>The invariant of the manager\<close>

text \<open>
  The current configuration is well formed and has a voter; a change is in progress exactly
  when there is a pending change with its configuration, which is the current one with the
  change applied and passes validation.
\<close>

definition pending_ok :: "ConfigurationManager \<Rightarrow> bool" where
  "pending_ok gm \<longleftrightarrow>
     (case (gm_pending gm, gm_pendingConfig gm) of
        (None, None) \<Rightarrow> \<not> gm_changeInProgress gm
      | (Some change, Some config) \<Rightarrow>
          gm_changeInProgress gm \<and> validateChange change gm = None \<and>
          (\<exists>now. applyChangeToConfig now change (gm_current gm) = Inr config)
      | _ \<Rightarrow> False)"

definition manager_ok :: "ConfigurationManager \<Rightarrow> bool" where
  "manager_ok gm \<longleftrightarrow>
     configuration_ok (gm_current gm) \<and> 1 \<le> VoterCount (gm_current gm) \<and> pending_ok gm"

lemma validated_keeps_voter:
  assumes "configuration_ok (gm_current gm)" "1 \<le> VoterCount (gm_current gm)"
    and "validateChange change gm = None" "applyChangeToConfig now change (gm_current gm) = Inr config"
  shows "1 \<le> VoterCount config"
proof -
  let ?V = "GetVoters (gm_current gm)" and ?x = "ch_NodeID change"
  have fin: "finite ?V"
    using assms(1) GetVoters_subset [of "gm_current gm"]
    by (auto simp: configuration_ok_def intro: finite_subset)
  have one: "1 \<le> card ?V" using assms(2) by (simp add: VoterCount_def)
  have del: "1 \<le> card (?V - {?x})" if "?x \<in> ?V \<longrightarrow> 1 < card ?V"
    using that one fin by (cases "?x \<in> ?V") (simp_all add: card_Diff_singleton)
  have ins: "1 \<le> card (insert ?x ?V)" using fin by (simp add: Suc_le_eq card_gt_0_iff)
  note v = applyChange_voters(1) [OF assms(4)]
  show ?thesis
  proof (cases "ch_Type change")
    case RemoveNode
    then have "?x \<in> ?V \<longrightarrow> 1 < card ?V"
      using assms(3) by (auto simp: validateChange_def IsVoter_iff VoterCount_def Let_def split: if_splits)
    then show ?thesis using del v RemoveNode by (simp add: VoterCount_def)
  next
    case DemoteNode
    then have "1 < card ?V"
      using assms(3) by (auto simp: validateChange_def IsVoter_iff VoterCount_def Let_def split: if_splits)
    then show ?thesis using del v DemoteNode by (simp add: VoterCount_def)
  qed (use one ins v in \<open>simp_all add: VoterCount_def\<close>)
qed

lemma ProposeChange_ok:
  assumes "manager_ok gm" "ProposeChange now change gm = Inr gm'"
  shows "manager_ok gm'"
proof -
  from assms(2) obtain config where "validateChange change gm = None"
    "applyChangeToConfig now change (gm_current gm) = Inr config"
    "gm' = gm\<lparr>gm_pending := Some change, gm_pendingConfig := Some config, gm_changeInProgress := True\<rparr>"
    by (auto simp: ProposeChange_def split: if_splits option.splits sum.splits)
  then show ?thesis
    using assms(1) by (auto simp: manager_ok_def pending_ok_def validateChange_def)
qed

lemma CommitChange_Inr:
  assumes "manager_ok gm" "CommitChange index term gm = Inr gm'"
  obtains change config now where "gm_pending gm = Some change"
    "validateChange change gm = None" "applyChangeToConfig now change (gm_current gm) = Inr config"
    "gm_current gm' = config\<lparr>cg_Index := index, cg_Term := term\<rparr>" "gm_lastChangeIndex gm' = index"
    "gm_pending gm' = None" "gm_pendingConfig gm' = None" "\<not> gm_changeInProgress gm'"
  using assms
  by (auto simp: CommitChange_def manager_ok_def pending_ok_def split: if_splits option.splits)

lemma voters_index_term [simp]:
  "GetVoters (c\<lparr>cg_Index := i, cg_Term := t\<rparr>) = GetVoters c"
  "VoterCount (c\<lparr>cg_Index := i, cg_Term := t\<rparr>) = VoterCount c"
  "configuration_ok (c\<lparr>cg_Index := i, cg_Term := t\<rparr>) = configuration_ok c"
  by (simp_all add: GetVoters_def members_of_type_def VoterCount_def configuration_ok_def)

lemma CommitChange_ok:
  assumes "manager_ok gm" "CommitChange index term gm = Inr gm'"
  shows "manager_ok gm'"
  using assms
proof (rule CommitChange_Inr)
  fix change config now
  assume c: "validateChange change gm = None" "applyChangeToConfig now change (gm_current gm) = Inr config"
    "gm_current gm' = config\<lparr>cg_Index := index, cg_Term := term\<rparr>"
    "gm_pending gm' = None" "gm_pendingConfig gm' = None" "\<not> gm_changeInProgress gm'"
  have "configuration_ok config" "1 \<le> VoterCount config"
    using assms(1) applyChange_ok [OF _ c(2)] validated_keeps_voter [OF _ _ c(1,2)]
    by (auto simp: manager_ok_def)
  then show ?thesis using c by (simp add: manager_ok_def pending_ok_def)
qed

lemma AbortChange_ok: "manager_ok gm \<Longrightarrow> manager_ok (ConfigurationManager_AbortChange gm)"
  by (simp add: manager_ok_def pending_ok_def ConfigurationManager_AbortChange_def)

lemma NewConfigurationManager_ok:
  assumes "finite (dom initial)" "initial \<noteq> Map.empty"
  shows "manager_ok (NewConfigurationManager clock initial)"
proof -
  let ?c = "gm_current (NewConfigurationManager clock initial)"
  have "GetVoters ?c = dom initial" "dom (cg_Members ?c) = dom initial"
    by (auto simp: NewConfigurationManager_def Let_def GetVoters_def members_of_type_def NewConfiguration_def)
  then show ?thesis
    using assms
    by (auto simp: manager_ok_def pending_ok_def configuration_ok_def VoterCount_def Suc_le_eq
        card_gt_0_iff NewConfigurationManager_def Let_def)
qed

text \<open>The operations a leader performs on the manager, in any order.\<close>

inductive manager_step :: "ConfigurationManager \<Rightarrow> ConfigurationManager \<Rightarrow> bool" where
  propose: "ProposeChange now change gm = Inr gm' \<Longrightarrow> manager_step gm gm'"
| commit: "CommitChange index term gm = Inr gm' \<Longrightarrow> manager_step gm gm'"
| abort: "manager_step gm (ConfigurationManager_AbortChange gm)"

lemma manager_step_ok: "manager_step gm gm' \<Longrightarrow> manager_ok gm \<Longrightarrow> manager_ok gm'"
  by (induction rule: manager_step.induct) (auto intro: ProposeChange_ok CommitChange_ok AbortChange_ok)

lemma manager_steps_ok: "manager_step\<^sup>*\<^sup>* gm gm' \<Longrightarrow> manager_ok gm \<Longrightarrow> manager_ok gm'"
  by (induction rule: rtranclp_induct) (auto intro: manager_step_ok)



section \<open>Properties\<close>

text \<open>C27: However changes are proposed, committed and aborted, the manager of a cluster that
  started with at least one member always has a voter, holds at most one pending change, and
  the pending configuration is the current one with that change applied.\<close>

theorem manager_always_has_voter:
  assumes "finite (dom initial)" "initial \<noteq> Map.empty"
    and "manager_step\<^sup>*\<^sup>* (NewConfigurationManager clock initial) gm"
  shows "1 \<le> VoterCount (gm_current gm) \<and> pending_ok gm \<and> configuration_ok (gm_current gm)"
  using manager_steps_ok [OF assms(3) NewConfigurationManager_ok [OF assms(1,2)]]
  by (simp add: manager_ok_def)

definition example_learner :: ConfigChange where
  "example_learner =
     \<lparr>ch_Type = AddLearnerNode, ch_NodeID = ''n2'', ch_Address = ''b'', ch_Index = 1, ch_Term = 1\<rparr>"

definition example_manager :: ConfigurationManager where
  "example_manager = NewConfigurationManager (\<lambda>_. 0) [''n1'' \<mapsto> ''a'']"

lemma example_propose: "\<exists>gm. ProposeChange 0 example_learner example_manager = Inr gm"
  by (simp add: ProposeChange_def example_manager_def NewConfigurationManager_def Let_def
      validateChange_def example_learner_def Contains_def NewConfiguration_def
      applyChangeToConfig_def AddMember_def)

theorem manager_always_has_voter_witness:
  "\<exists>gm. manager_step\<^sup>*\<^sup>* example_manager gm \<and> gm_changeInProgress gm \<and>
     1 \<le> VoterCount (gm_current gm)"
proof -
  obtain gm where gm: "ProposeChange 0 example_learner example_manager = Inr gm"
    using example_propose by blast
  then have steps: "manager_step\<^sup>*\<^sup>* example_manager gm" by (blast intro: manager_step.propose)
  have "gm_changeInProgress gm"
    using gm by (auto simp: ProposeChange_def split: if_splits option.splits sum.splits)
  moreover have "1 \<le> VoterCount (gm_current gm)"
    using manager_always_has_voter [of "[''n1'' \<mapsto> ''a'']" "\<lambda>_. 0" gm] steps
    by (simp add: example_manager_def)
  ultimately show ?thesis using steps by blast
qed

text \<open>C28: Committing a membership change never lets two disjoint groups decide: every
  quorum of the voters before the change and every quorum of the voters after it share a
  voter, because one change adds or removes at most one of them.\<close>

theorem quorums_meet_across_commit:
  assumes "manager_ok gm" "CommitChange index term gm = Inr gm'"
    and "S \<subseteq> GetVoters (gm_current gm)" "Quorum (gm_current gm) \<le> card S"
    and "T \<subseteq> GetVoters (gm_current gm')" "Quorum (gm_current gm') \<le> card T"
  shows "S \<inter> T \<noteq> {}"
  using assms(1,2)
proof (rule CommitChange_Inr)
  fix change config now
  assume c: "applyChangeToConfig now change (gm_current gm) = Inr config"
    "gm_current gm' = config\<lparr>cg_Index := index, cg_Term := term\<rparr>"
  have "single_change (gm_current gm) config"
    using assms(1) c(1) by (auto simp: manager_ok_def single_change_def)
  then show ?thesis
    using assms(3-6) c(2) single.quorums_meet [of "gm_current gm" config S T]
    by (simp add: Quorum_def VoterCount_def majority_of_def)
qed

lemma example_manager_ok: "manager_ok example_manager"
  unfolding example_manager_def by (rule NewConfigurationManager_ok) simp_all

theorem quorums_meet_across_commit_witness:
  "\<exists>gm gm'. ProposeChange 0 example_learner example_manager = Inr gm \<and>
     CommitChange 1 1 gm = Inr gm' \<and> ({''n1''} :: string set) \<inter> {''n1''} \<noteq> {} \<and>
     GetVoters (gm_current gm') = {''n1''}"
proof -
  obtain gm where gm: "ProposeChange 0 example_learner example_manager = Inr gm"
    using example_propose by blast
  have ok: "manager_ok gm" using ProposeChange_ok [OF example_manager_ok gm] .
  have "\<exists>gm'. CommitChange 1 1 gm = Inr gm'"
    using gm ok by (auto simp: ProposeChange_def CommitChange_def split: if_splits option.splits sum.splits)
  then obtain gm' where gm': "CommitChange 1 1 gm = Inr gm'" by blast
  have cur: "gm_current gm = gm_current example_manager"
    using gm by (auto simp: ProposeChange_def split: if_splits option.splits sum.splits)
  have v: "GetVoters (gm_current example_manager) = {''n1''}"
    by (auto simp: example_manager_def NewConfigurationManager_def Let_def GetVoters_def
        members_of_type_def NewConfiguration_def split: if_splits)
  have v': "GetVoters (gm_current gm') = {''n1''}"
    using ok gm'
  proof (rule CommitChange_Inr)
    fix change config now
    assume c: "gm_pending gm = Some change" "applyChangeToConfig now change (gm_current gm) = Inr config"
      "gm_current gm' = config\<lparr>cg_Index := 1, cg_Term := 1\<rparr>"
    have "change = example_learner"
      using gm c(1) by (auto simp: ProposeChange_def split: if_splits option.splits sum.splits)
    then show ?thesis using applyChange_voters(1) [OF c(2)] c(3) v cur by (simp add: example_learner_def)
  qed
  show ?thesis
    using gm gm' v v' cur quorums_meet_across_commit [OF ok gm', of "{''n1''}" "{''n1''}"]
    by (simp add: Quorum_def VoterCount_def)
qed

end
