(* ===== verification/Membership.thy ===== *)
theory Membership
  imports ClusterConfiguration
begin

text \<open>
  Membership operations, \<open>src/pkg/cluster/membership.go\<close>: adding a learner, tracking
  its progress, promoting it, removing nodes and replacing one node by another. Every
  operation takes the reading of the clock it makes. The promotion callback is a function
  value the manager only starts as a goroutine: the record holds whether one is set and
  \<open>UpdateLearnerProgress\<close> returns whether it is started. \<open>Serialize\<close> and
  \<open>Deserialize\<close> pass the configuration through a JSON codec given as a parameter.
\<close>

section \<open>State\<close>

record LearnerStatus =
  lr_NodeID :: string
  lr_MatchIndex :: u64
  lr_CatchUpThreshold :: u64
  lr_CaughtUp :: bool
  lr_LastContact :: time
  lr_AddedAt :: time
  lr_BytesReplicated :: u64

record MembershipManager =
  mm_configManager :: ConfigurationManager
  mm_learnerStatuses :: "string \<rightharpoonup> LearnerStatus"
  mm_catchUpIndexGap :: u64
  mm_promotionCallback :: bool

datatype membership_error =
    ProposeFailed config_change_error
  | CommitFailed config_change_error
  | ReplayFailed config_change_error
  | LearnerNotFound string
  | LearnerNotCaughtUp string u64 u64
  | OldNodeMissing string
  | NewNodeExists string
  | ReplaceInProgress
  | DecodeConfigurationError

definition NewMembershipManager :: "(string \<Rightarrow> time) \<Rightarrow> (string \<rightharpoonup> string) \<Rightarrow> u64 \<Rightarrow> MembershipManager" where
  "NewMembershipManager clock initialMembers catchUpIndexGap =
     \<lparr>mm_configManager = NewConfigurationManager clock initialMembers,
      mm_learnerStatuses = Map.empty,
      mm_catchUpIndexGap = (if catchUpIndexGap = 0 then 100 else catchUpIndexGap),
      mm_promotionCallback = False\<rparr>"

definition new_status :: "time \<Rightarrow> time \<Rightarrow> string \<Rightarrow> LearnerStatus" where
  "new_status lastContact addedAt nodeID =
     \<lparr>lr_NodeID = nodeID, lr_MatchIndex = 0, lr_CatchUpThreshold = 0, lr_CaughtUp = False,
      lr_LastContact = lastContact, lr_AddedAt = addedAt, lr_BytesReplicated = 0\<rparr>"


section \<open>Operations\<close>

definition AddLearner ::
  "time \<Rightarrow> string \<Rightarrow> string \<Rightarrow> u64 \<Rightarrow> u64 \<Rightarrow> MembershipManager \<Rightarrow> membership_error + MembershipManager" where
  "AddLearner now nodeID address index term mm =
     (let change = \<lparr>ch_Type = AddLearnerNode, ch_NodeID = nodeID, ch_Address = address,
                    ch_Index = index, ch_Term = term\<rparr>
      in case ProposeChange now change (mm_configManager mm) of
           Inl err \<Rightarrow> Inl (ProposeFailed err)
         | Inr gm \<Rightarrow>
             Inr (mm\<lparr>mm_configManager := gm,
                     mm_learnerStatuses := (mm_learnerStatuses mm)(nodeID \<mapsto> new_status now now nodeID)\<rparr>))"

definition CommitAddLearner ::
  "string \<Rightarrow> u64 \<Rightarrow> u64 \<Rightarrow> MembershipManager \<Rightarrow> membership_error + MembershipManager" where
  "CommitAddLearner nodeID index term mm =
     (case CommitChange index term (mm_configManager mm) of
        Inl err \<Rightarrow> Inl (CommitFailed err)
      | Inr gm \<Rightarrow> Inr (mm\<lparr>mm_configManager := gm\<rparr>))"

text \<open>The new manager, and whether the promotion callback is started.\<close>

definition UpdateLearnerProgress ::
  "time \<Rightarrow> string \<Rightarrow> u64 \<Rightarrow> u64 \<Rightarrow> u64 \<Rightarrow> MembershipManager \<Rightarrow> MembershipManager \<times> bool" where
  "UpdateLearnerProgress now nodeID matchIndex leaderLastIndex bytesReplicated mm =
     (case mm_learnerStatuses mm nodeID of
        None \<Rightarrow> (mm, False)
      | Some status \<Rightarrow>
          let status = status\<lparr>lr_MatchIndex := matchIndex, lr_LastContact := now,
                              lr_BytesReplicated := lr_BytesReplicated status + bytesReplicated\<rparr>;
              status = (if lr_CatchUpThreshold status = 0
                        then status\<lparr>lr_CatchUpThreshold := leaderLastIndex\<rparr> else status);
              indexGap = leaderLastIndex - matchIndex;
              wasCaughtUp = lr_CaughtUp status;
              status = status\<lparr>lr_CaughtUp := indexGap \<le> mm_catchUpIndexGap mm\<rparr>
          in (mm\<lparr>mm_learnerStatuses := (mm_learnerStatuses mm)(nodeID \<mapsto> status)\<rparr>,
              \<not> wasCaughtUp \<and> lr_CaughtUp status \<and> mm_promotionCallback mm))"

definition IsLearnerCaughtUp :: "string \<Rightarrow> MembershipManager \<Rightarrow> bool" where
  "IsLearnerCaughtUp nodeID mm =
     (case mm_learnerStatuses mm nodeID of None \<Rightarrow> False | Some status \<Rightarrow> lr_CaughtUp status)"

definition GetLearnerStatus :: "string \<Rightarrow> MembershipManager \<Rightarrow> LearnerStatus option" where
  "GetLearnerStatus nodeID mm = mm_learnerStatuses mm nodeID"

definition PromoteLearner ::
  "time \<Rightarrow> string \<Rightarrow> u64 \<Rightarrow> u64 \<Rightarrow> MembershipManager \<Rightarrow> membership_error + MembershipManager" where
  "PromoteLearner now nodeID index term mm =
     (case mm_learnerStatuses mm nodeID of
        None \<Rightarrow> Inl (LearnerNotFound nodeID)
      | Some status \<Rightarrow>
          if \<not> lr_CaughtUp status
          then Inl (LearnerNotCaughtUp nodeID (lr_MatchIndex status) (lr_CatchUpThreshold status))
          else
            let change = \<lparr>ch_Type = PromoteNode, ch_NodeID = nodeID, ch_Address = '''',
                          ch_Index = index, ch_Term = term\<rparr>
            in case ProposeChange now change (mm_configManager mm) of
                 Inl err \<Rightarrow> Inl (ProposeFailed err)
               | Inr gm \<Rightarrow> Inr (mm\<lparr>mm_configManager := gm\<rparr>))"

definition CommitPromoteLearner ::
  "string \<Rightarrow> u64 \<Rightarrow> u64 \<Rightarrow> MembershipManager \<Rightarrow> membership_error + MembershipManager" where
  "CommitPromoteLearner nodeID index term mm =
     (case CommitChange index term (mm_configManager mm) of
        Inl err \<Rightarrow> Inl (CommitFailed err)
      | Inr gm \<Rightarrow>
          Inr (mm\<lparr>mm_configManager := gm,
                  mm_learnerStatuses := (mm_learnerStatuses mm)(nodeID := None)\<rparr>))"

definition MembershipManager_RemoveNode ::
  "time \<Rightarrow> string \<Rightarrow> u64 \<Rightarrow> u64 \<Rightarrow> MembershipManager \<Rightarrow> membership_error + MembershipManager" where
  "MembershipManager_RemoveNode now nodeID index term mm =
     (let change = \<lparr>ch_Type = RemoveNode, ch_NodeID = nodeID, ch_Address = '''',
                    ch_Index = index, ch_Term = term\<rparr>
      in case ProposeChange now change (mm_configManager mm) of
           Inl err \<Rightarrow> Inl (ProposeFailed err)
         | Inr gm \<Rightarrow> Inr (mm\<lparr>mm_configManager := gm\<rparr>))"

definition CommitRemoveNode ::
  "string \<Rightarrow> u64 \<Rightarrow> u64 \<Rightarrow> MembershipManager \<Rightarrow> membership_error + MembershipManager" where
  "CommitRemoveNode nodeID index term mm =
     (case CommitChange index term (mm_configManager mm) of
        Inl err \<Rightarrow> Inl (CommitFailed err)
      | Inr gm \<Rightarrow>
          Inr (mm\<lparr>mm_configManager := gm,
                  mm_learnerStatuses := (mm_learnerStatuses mm)(nodeID := None)\<rparr>))"

definition AbortChange :: "MembershipManager \<Rightarrow> MembershipManager" where
  "AbortChange mm =
     (let mm = (case gm_pending (mm_configManager mm) of
                  Some pending \<Rightarrow>
                    if ch_Type pending = AddLearnerNode
                    then mm\<lparr>mm_learnerStatuses := (mm_learnerStatuses mm)(ch_NodeID pending := None)\<rparr>
                    else mm
                | None \<Rightarrow> mm)
      in mm\<lparr>mm_configManager := ConfigurationManager_AbortChange (mm_configManager mm)\<rparr>)"

definition SetPromotionCallback :: "MembershipManager \<Rightarrow> MembershipManager" where
  "SetPromotionCallback mm = mm\<lparr>mm_promotionCallback := True\<rparr>"

definition ApplyConfigChange ::
  "time \<Rightarrow> ConfigChange \<Rightarrow> u64 \<Rightarrow> u64 \<Rightarrow> MembershipManager \<Rightarrow> membership_error + MembershipManager" where
  "ApplyConfigChange now change index term mm =
     (case ConfigurationManager_ApplyConfigChange now change index term (mm_configManager mm) of
        Inl err \<Rightarrow> Inl (ReplayFailed err)
      | Inr gm \<Rightarrow>
          let mm = mm\<lparr>mm_configManager := gm\<rparr>; statuses = mm_learnerStatuses mm in
          (case ch_Type change of
             AddLearnerNode \<Rightarrow>
               Inr (mm\<lparr>mm_learnerStatuses := statuses(ch_NodeID change \<mapsto> new_status now now (ch_NodeID change))\<rparr>)
           | PromoteNode \<Rightarrow> Inr (mm\<lparr>mm_learnerStatuses := statuses(ch_NodeID change := None)\<rparr>)
           | RemoveNode \<Rightarrow> Inr (mm\<lparr>mm_learnerStatuses := statuses(ch_NodeID change := None)\<rparr>)
           | _ \<Rightarrow> Inr mm))"

definition SetConfiguration :: "time \<Rightarrow> Configuration \<Rightarrow> MembershipManager \<Rightarrow> MembershipManager" where
  "SetConfiguration now config mm =
     mm\<lparr>mm_configManager := ConfigurationManager_SetConfiguration config (mm_configManager mm),
        mm_learnerStatuses :=
          (\<lambda>nodeID. case cg_Members config nodeID of
             None \<Rightarrow> None
           | Some member \<Rightarrow>
               if mb_Type member = Learner then Some (new_status now (mb_AddedAt member) nodeID) else None)\<rparr>"

definition Serialize :: "(Configuration \<Rightarrow> bytes) \<Rightarrow> MembershipManager \<Rightarrow> bytes" where
  "Serialize marshal mm = marshal (ConfigurationManager_GetConfiguration (mm_configManager mm))"

definition Deserialize ::
  "(bytes \<Rightarrow> Configuration option) \<Rightarrow> time \<Rightarrow> bytes \<Rightarrow> MembershipManager \<Rightarrow> membership_error + MembershipManager" where
  "Deserialize unmarshal now data mm =
     (case unmarshal data of
        None \<Rightarrow> Inl DecodeConfigurationError
      | Some config \<Rightarrow> Inr (SetConfiguration now config mm))"


section \<open>Replacing a node\<close>

datatype ReplacePhase =
    ReplacePhaseAddLearner | ReplacePhaseCatchUp | ReplacePhasePromote | ReplacePhaseRemoveOld
  | ReplacePhaseComplete | ReplacePhaseFailed

definition ReplacePhase_String :: "ReplacePhase \<Rightarrow> string" where
  "ReplacePhase_String p =
     (case p of
        ReplacePhaseAddLearner \<Rightarrow> ''AddLearner''
      | ReplacePhaseCatchUp \<Rightarrow> ''CatchUp''
      | ReplacePhasePromote \<Rightarrow> ''Promote''
      | ReplacePhaseRemoveOld \<Rightarrow> ''RemoveOld''
      | ReplacePhaseComplete \<Rightarrow> ''Complete''
      | ReplacePhaseFailed \<Rightarrow> ''Failed'')"

record ReplaceNodeStatus =
  rs_OldNodeID :: string
  rs_NewNodeID :: string
  rs_NewAddress :: string
  rs_Phase :: ReplacePhase
  rs_StartedAt :: "time option"
  rs_LearnerAdded :: bool
  rs_LearnerCaughtUp :: bool
  rs_NewNodePromoted :: bool
  rs_OldNodeRemoved :: bool

definition ReplaceNode ::
  "time \<Rightarrow> string \<Rightarrow> string \<Rightarrow> string \<Rightarrow> MembershipManager \<Rightarrow> membership_error + ReplaceNodeStatus" where
  "ReplaceNode now oldNodeID newNodeID newAddress mm =
     (let config = ConfigurationManager_GetConfiguration (mm_configManager mm) in
      if cg_Members config oldNodeID = None then Inl (OldNodeMissing oldNodeID)
      else if cg_Members config newNodeID \<noteq> None then Inl (NewNodeExists newNodeID)
      else if gm_changeInProgress (mm_configManager mm) then Inl ReplaceInProgress
      else Inr \<lparr>rs_OldNodeID = oldNodeID, rs_NewNodeID = newNodeID, rs_NewAddress = newAddress,
                rs_Phase = ReplacePhaseAddLearner, rs_StartedAt = Some now, rs_LearnerAdded = False,
                rs_LearnerCaughtUp = False, rs_NewNodePromoted = False, rs_OldNodeRemoved = False\<rparr>)"

definition GetReplaceNodeProgress :: "string \<Rightarrow> MembershipManager \<Rightarrow> ReplaceNodeStatus" where
  "GetReplaceNodeProgress newNodeID mm =
     (let config = ConfigurationManager_GetConfiguration (mm_configManager mm);
          status = \<lparr>rs_OldNodeID = '''', rs_NewNodeID = newNodeID, rs_NewAddress = '''',
                    rs_Phase = ReplacePhaseAddLearner, rs_StartedAt = None, rs_LearnerAdded = False,
                    rs_LearnerCaughtUp = False, rs_NewNodePromoted = False, rs_OldNodeRemoved = False\<rparr>
      in case cg_Members config newNodeID of
           None \<Rightarrow> status
         | Some member \<Rightarrow>
             if mb_Type member = Learner then
               let status = status\<lparr>rs_Phase := ReplacePhaseCatchUp, rs_LearnerAdded := True\<rparr> in
               (case mm_learnerStatuses mm newNodeID of
                  None \<Rightarrow> status
                | Some learnerStatus \<Rightarrow>
                    let status = status\<lparr>rs_LearnerCaughtUp := lr_CaughtUp learnerStatus\<rparr> in
                    if lr_CaughtUp learnerStatus then status\<lparr>rs_Phase := ReplacePhasePromote\<rparr> else status)
             else if mb_Type member = Voter then
               status\<lparr>rs_Phase := ReplacePhaseRemoveOld, rs_LearnerAdded := True,
                      rs_LearnerCaughtUp := True, rs_NewNodePromoted := True\<rparr>
             else status)"



section \<open>The membership manager drives the configuration manager\<close>

text \<open>The operations of a leader on the membership manager.\<close>

inductive membership_step :: "MembershipManager \<Rightarrow> MembershipManager \<Rightarrow> bool" where
  "AddLearner now nodeID address index term mm = Inr mm' \<Longrightarrow> membership_step mm mm'"
| "CommitAddLearner nodeID index term mm = Inr mm' \<Longrightarrow> membership_step mm mm'"
| "PromoteLearner now nodeID index term mm = Inr mm' \<Longrightarrow> membership_step mm mm'"
| "CommitPromoteLearner nodeID index term mm = Inr mm' \<Longrightarrow> membership_step mm mm'"
| "MembershipManager_RemoveNode now nodeID index term mm = Inr mm' \<Longrightarrow> membership_step mm mm'"
| "CommitRemoveNode nodeID index term mm = Inr mm' \<Longrightarrow> membership_step mm mm'"
| "UpdateLearnerProgress now nodeID matchIndex leaderLastIndex bytesReplicated mm = (mm', started) \<Longrightarrow>
     membership_step mm mm'"
| "membership_step mm (AbortChange mm)"
| "membership_step mm (SetPromotionCallback mm)"

text \<open>Each of them is at most one step of the configuration manager.\<close>

lemma UpdateLearnerProgress_config [frame_simps]:
  "mm_configManager (fst (UpdateLearnerProgress now nodeID m l b mm)) = mm_configManager mm"
  "mm_catchUpIndexGap (fst (UpdateLearnerProgress now nodeID m l b mm)) = mm_catchUpIndexGap mm"
  by (auto simp: UpdateLearnerProgress_def Let_def split: option.splits)

lemma AbortChange_config [frame_simps]:
  "mm_configManager (AbortChange mm) = ConfigurationManager_AbortChange (mm_configManager mm)"
  by (auto simp: AbortChange_def Let_def split: option.splits)

lemma membership_refines:
  "membership_step mm mm' \<Longrightarrow>
     mm_configManager mm' = mm_configManager mm \<or>
     manager_step (mm_configManager mm) (mm_configManager mm')"
proof (induction rule: membership_step.induct)
  case (7 now nodeID matchIndex leaderLastIndex bytesReplicated mm mm' started)
  then show ?case using UpdateLearnerProgress_config(1) by (metis fst_conv)
qed (auto simp: AddLearner_def CommitAddLearner_def PromoteLearner_def CommitPromoteLearner_def
      MembershipManager_RemoveNode_def CommitRemoveNode_def SetPromotionCallback_def
      frame_simps Let_def split: option.splits sum.splits if_splits
      intro: manager_step.propose manager_step.commit manager_step.abort)

lemma membership_steps_refine:
  "membership_step\<^sup>*\<^sup>* mm mm' \<Longrightarrow> manager_step\<^sup>*\<^sup>* (mm_configManager mm) (mm_configManager mm')"
proof (induction rule: rtranclp_induct)
  case (step y z)
  then show ?case using membership_refines [OF step.hyps(2)] by (auto intro: rtranclp.rtrancl_into_rtrancl)
qed simp


section \<open>Proposing and committing one change\<close>

text \<open>A change that passes validation can be proposed and then committed.\<close>

lemma validated_applies:
  assumes "validateChange change gm = None" "configuration_ok (gm_current gm)"
    and "\<And>m. cg_Members (gm_current gm) (ch_NodeID change) = Some m \<Longrightarrow> mb_Type m \<in> {Voter, Learner}"
  shows "\<exists>config. applyChangeToConfig now change (gm_current gm) = Inr config"
  using assms
  by (cases "ch_Type change")
    (auto simp: validateChange_def applyChangeToConfig_def AddMember_def RemoveMember_def
      Configuration_PromoteLearner_def Contains_def IsVoter_def Let_def split: if_splits option.splits)

lemma propose_commit:
  assumes "\<not> gm_changeInProgress gm" "validateChange change gm = None"
    "applyChangeToConfig now change (gm_current gm) = Inr config"
  shows "\<exists>gm' gm''. ProposeChange now change gm = Inr gm' \<and> gm_current gm' = gm_current gm \<and>
     CommitChange index term gm' = Inr gm'' \<and> \<not> gm_changeInProgress gm'' \<and>
     gm_current gm'' = config\<lparr>cg_Index := index, cg_Term := term\<rparr>"
  using assms by (simp add: ProposeChange_def CommitChange_def)

lemma members_index_term [simp]:
  "cg_Members (c\<lparr>cg_Index := i, cg_Term := t\<rparr>) = cg_Members c"
  by simp

lemma AddLearner_Commit:
  assumes "\<not> gm_changeInProgress (mm_configManager mm)" "\<not> Contains nodeID (gm_current (mm_configManager mm))"
    and "address \<noteq> ''''"
  shows "\<exists>mm1 mm2. AddLearner now nodeID address index term mm = Inr mm1 \<and>
     CommitAddLearner nodeID index' term' mm1 = Inr mm2 \<and>
     \<not> gm_changeInProgress (mm_configManager mm2) \<and>
     cg_Members (gm_current (mm_configManager mm2)) =
       (cg_Members (gm_current (mm_configManager mm)))(nodeID \<mapsto>
          \<lparr>mb_ID = nodeID, mb_Address = address, mb_Type = Learner, mb_AddedAt = now\<rparr>) \<and>
     mm_learnerStatuses mm2 = (mm_learnerStatuses mm)(nodeID \<mapsto> new_status now now nodeID) \<and>
     mm_catchUpIndexGap mm2 = mm_catchUpIndexGap mm"
  using assms
  by (auto simp: AddLearner_def CommitAddLearner_def ProposeChange_def CommitChange_def Let_def
      validateChange_def applyChangeToConfig_def AddMember_def Contains_def)

lemma PromoteLearner_Commit:
  assumes "\<not> gm_changeInProgress (mm_configManager mm)"
    and "cg_Members (gm_current (mm_configManager mm)) nodeID = Some member" "mb_Type member = Learner"
    and "IsLearnerCaughtUp nodeID mm"
  shows "\<exists>mm1 mm2. PromoteLearner now nodeID index term mm = Inr mm1 \<and>
     CommitPromoteLearner nodeID index' term' mm1 = Inr mm2 \<and>
     \<not> gm_changeInProgress (mm_configManager mm2) \<and>
     cg_Members (gm_current (mm_configManager mm2)) =
       (cg_Members (gm_current (mm_configManager mm)))(nodeID \<mapsto> member\<lparr>mb_Type := Voter\<rparr>) \<and>
     mm_learnerStatuses mm2 = (mm_learnerStatuses mm)(nodeID := None)"
proof -
  obtain status where "mm_learnerStatuses mm nodeID = Some status" "lr_CaughtUp status"
    using assms(4) by (auto simp: IsLearnerCaughtUp_def split: option.splits)
  then show ?thesis
    using assms(1-3)
    by (auto simp: PromoteLearner_def CommitPromoteLearner_def ProposeChange_def CommitChange_def Let_def
        validateChange_def applyChangeToConfig_def Configuration_PromoteLearner_def Contains_def
        IsVoter_def)
qed

lemma RemoveNode_Commit:
  assumes "\<not> gm_changeInProgress (mm_configManager mm)"
    and "Contains nodeID (gm_current (mm_configManager mm))"
    and "IsVoter nodeID (gm_current (mm_configManager mm)) \<longrightarrow> 1 < VoterCount (gm_current (mm_configManager mm))"
  shows "\<exists>mm1 mm2. MembershipManager_RemoveNode now nodeID index term mm = Inr mm1 \<and>
     CommitRemoveNode nodeID index' term' mm1 = Inr mm2 \<and>
     \<not> gm_changeInProgress (mm_configManager mm2) \<and>
     cg_Members (gm_current (mm_configManager mm2)) =
       (cg_Members (gm_current (mm_configManager mm)))(nodeID := None)"
  using assms
  by (auto simp: MembershipManager_RemoveNode_def CommitRemoveNode_def ProposeChange_def CommitChange_def
      Let_def validateChange_def applyChangeToConfig_def RemoveMember_def Contains_def)

lemma UpdateLearnerProgress_caught_up:
  "IsLearnerCaughtUp nodeID (fst (UpdateLearnerProgress now nodeID matchIndex leaderLastIndex b mm)) \<longleftrightarrow>
     mm_learnerStatuses mm nodeID \<noteq> None \<and> leaderLastIndex - matchIndex \<le> mm_catchUpIndexGap mm"
  by (auto simp: UpdateLearnerProgress_def IsLearnerCaughtUp_def Let_def split: option.splits)


section \<open>Properties\<close>





text \<open>A learner whose match index is ahead of the leader's last index as reported is not
  caught up: the subtraction of the indices wraps around to a gap near \<open>2 ^ 64\<close>, and a
  learner that was caught up before loses the mark.\<close>

theorem learner_ahead_not_caught_up:
  assumes "leaderLast < match" and "unat match - unat leaderLast + unat (mm_catchUpIndexGap mm) < 2 ^ 64"
  shows "\<not> IsLearnerCaughtUp nodeID (fst (UpdateLearnerProgress now nodeID match leaderLast b mm))"
proof -
  have "unat (leaderLast - match) = 2 ^ 64 - (unat match - unat leaderLast)"
    using assms(1) unat_sub_if' [of leaderLast match]
    by (simp add: word_less_nat_alt)
  then have "\<not> leaderLast - match \<le> mm_catchUpIndexGap mm"
    using assms by (simp add: word_le_nat_alt word_less_nat_alt)
  then show ?thesis by (simp add: UpdateLearnerProgress_caught_up)
qed

theorem learner_ahead_not_caught_up_witness:
  "\<not> IsLearnerCaughtUp ''n2'' (fst (UpdateLearnerProgress 0 ''n2'' 6 5 0
      (NewMembershipManager (\<lambda>_. 0) [''n1'' \<mapsto> ''a''] 10)))"
  by (rule learner_ahead_not_caught_up) (simp_all add: NewMembershipManager_def)

text \<open>A voter demoted by a replayed configuration change can never be promoted again:
  replaying a demotion creates no learner status, and \<open>PromoteLearner\<close> refuses a node
  without one, although the configuration lists it as a learner.\<close>

theorem demoted_node_cannot_be_promoted:
  assumes "ch_Type change = DemoteNode" "mm_learnerStatuses mm (ch_NodeID change) = None"
    and "ApplyConfigChange now change index term mm = Inr mm'"
  shows "ch_NodeID change \<in> GetLearners (gm_current (mm_configManager mm')) \<and>
     PromoteLearner now' (ch_NodeID change) index' term' mm' = Inl (LearnerNotFound (ch_NodeID change))"
  using assms
  by (auto simp: ApplyConfigChange_def ConfigurationManager_ApplyConfigChange_def applyChangeToConfig_def
      PromoteLearner_def GetLearners_def members_of_type_def Let_def split: option.splits)

definition example_demote :: ConfigChange where
  "example_demote =
     \<lparr>ch_Type = DemoteNode, ch_NodeID = ''n1'', ch_Address = '''', ch_Index = 1, ch_Term = 1\<rparr>"

theorem demoted_node_cannot_be_promoted_witness:
  "\<exists>mm. ApplyConfigChange 0 example_demote 1 1 (NewMembershipManager (\<lambda>_. 0) [''n1'' \<mapsto> ''a''] 10) = Inr mm \<and>
     PromoteLearner 0 ''n1'' 2 1 mm = Inl (LearnerNotFound ''n1'')"
proof -
  have "\<exists>mm. ApplyConfigChange 0 example_demote 1 1 (NewMembershipManager (\<lambda>_. 0) [''n1'' \<mapsto> ''a''] 10) = Inr mm"
    by (simp add: ApplyConfigChange_def ConfigurationManager_ApplyConfigChange_def applyChangeToConfig_def
        example_demote_def NewMembershipManager_def NewConfigurationManager_def Let_def NewConfiguration_def)
  then show ?thesis
    using demoted_node_cannot_be_promoted [of example_demote "NewMembershipManager (\<lambda>_. 0) [''n1'' \<mapsto> ''a''] 10" 0 1 1]
    by (auto simp: example_demote_def NewMembershipManager_def)
qed

end
