(* ===== verification/ClusterApi.thy ===== *)
theory ClusterApi
  imports Membership
begin

text \<open>
  The queries of \<open>src/pkg/api/cluster.go\<close> on the cluster configuration. The callbacks
  into the Raft node are what they return at the time of the call, or \<open>None\<close> where none
  is set. The members are listed in the order in which Go iterates over the map, a parameter.
  The read lock is not modelled.
\<close>

section \<open>Queries of the manager\<close>

definition IsChangeInProgress :: "MembershipManager \<Rightarrow> bool" where
  "IsChangeInProgress mm = gm_changeInProgress (mm_configManager mm)"

definition GetPendingChange :: "MembershipManager \<Rightarrow> ConfigChange option" where
  "GetPendingChange mm = gm_pending (mm_configManager mm)"

definition GetAllLearnerStatuses :: "MembershipManager \<Rightarrow> (string \<rightharpoonup> LearnerStatus)" where
  "GetAllLearnerStatuses mm = mm_learnerStatuses mm"

section \<open>State and answers\<close>

record ClusterAPI =
  ca_nodeID :: string
  ca_membershipManager :: MembershipManager
  ca_getCurrentTerm :: "u64 option"
  ca_getLeaderID :: "string option"
  ca_getState :: "string option"
  ca_getLastApplied :: "u64 option"
  ca_getCommitIndex :: "u64 option"

definition NewClusterAPI :: "string \<Rightarrow> MembershipManager \<Rightarrow> ClusterAPI" where
  "NewClusterAPI nodeID mm =
     \<lparr>ca_nodeID = nodeID, ca_membershipManager = mm, ca_getCurrentTerm = None, ca_getLeaderID = None,
      ca_getState = None, ca_getLastApplied = None, ca_getCommitIndex = None\<rparr>"

definition SetCallbacks ::
  "u64 option \<Rightarrow> string option \<Rightarrow> string option \<Rightarrow> u64 option \<Rightarrow> u64 option \<Rightarrow> ClusterAPI \<Rightarrow> ClusterAPI" where
  "SetCallbacks getCurrentTerm getLeaderID getState getLastApplied getCommitIndex ca =
     ca\<lparr>ca_getCurrentTerm := getCurrentTerm, ca_getLeaderID := getLeaderID, ca_getState := getState,
        ca_getLastApplied := getLastApplied, ca_getCommitIndex := getCommitIndex\<rparr>"

record MemberInfo =
  mi_ID :: string
  mi_Address :: string
  mi_Type :: string
  mi_State :: string
  mi_IsLeader :: bool
  mi_IsSelf :: bool
  mi_AddedAt :: time
  mi_LastContact :: "time option"
  mi_LearnerStatus :: "LearnerStatus option"

record ClusterInfo =
  ci_LeaderID :: string
  ci_CurrentTerm :: u64
  ci_Members :: "MemberInfo list"
  ci_MemberCount :: nat
  ci_VoterCount :: nat
  ci_LearnerCount :: nat
  ci_Quorum :: nat
  ci_Healthy :: bool
  ci_Timestamp :: time

record ClusterHealth =
  he_Healthy :: bool
  he_LeaderPresent :: bool
  he_QuorumAvailable :: bool
  he_MembersHealthy :: nat
  he_MembersTotal :: nat
  he_Issues :: "string list"
  he_Timestamp :: time

record NodeStatus =
  ns_NodeID :: string
  ns_Address :: string
  ns_State :: string
  ns_IsLeader :: bool
  ns_LeaderID :: string
  ns_CurrentTerm :: u64
  ns_CommitIndex :: u64
  ns_LastApplied :: u64
  ns_MemberType :: string
  ns_Timestamp :: time

datatype cluster_error = MemberUnknown string | NoLeaderElected | NotInConfiguration

section \<open>Queries\<close>

definition the_or :: "'a \<Rightarrow> 'a option \<Rightarrow> 'a" where
  "the_or zero x = (case x of None \<Rightarrow> zero | Some y \<Rightarrow> y)"

definition ca_config :: "ClusterAPI \<Rightarrow> Configuration" where
  "ca_config ca = ConfigurationManager_GetConfiguration (mm_configManager (ca_membershipManager ca))"

definition member_info :: "ClusterAPI \<Rightarrow> string \<Rightarrow> string \<Rightarrow> Member \<Rightarrow> MemberInfo" where
  "member_info ca leaderID nodeID member =
     (let info = \<lparr>mi_ID = nodeID, mi_Address = mb_Address member, mi_Type = MemberType_String (mb_Type member),
            mi_State = '''', mi_IsLeader = (nodeID = leaderID), mi_IsSelf = (nodeID = ca_nodeID ca),
            mi_AddedAt = mb_AddedAt member, mi_LastContact = None, mi_LearnerStatus = None\<rparr>;
          info = (case ca_getState ca of
                    Some state \<Rightarrow> if nodeID = ca_nodeID ca then info\<lparr>mi_State := state\<rparr> else info
                  | None \<Rightarrow> info)
      in
        if mb_Type member = Learner
        then (case GetLearnerStatus nodeID (ca_membershipManager ca) of
                None \<Rightarrow> info
              | Some status \<Rightarrow> info\<lparr>mi_LearnerStatus := Some status, mi_LastContact := Some (lr_LastContact status)\<rparr>)
        else info)"

fun member_infos :: "ClusterAPI \<Rightarrow> string \<Rightarrow> Configuration \<Rightarrow> string list \<Rightarrow> MemberInfo list" where
  "member_infos ca leaderID config [] = []"
| "member_infos ca leaderID config (nodeID # ids) =
     (case cg_Members config nodeID of
        None \<Rightarrow> member_infos ca leaderID config ids
      | Some member \<Rightarrow> member_info ca leaderID nodeID member # member_infos ca leaderID config ids)"

definition GetClusterInfo :: "string list \<Rightarrow> time \<Rightarrow> ClusterAPI \<Rightarrow> ClusterInfo" where
  "GetClusterInfo order now ca =
     (let config = ca_config ca;
          leaderID = the_or '''' (ca_getLeaderID ca);
          currentTerm = the_or 0 (ca_getCurrentTerm ca)
      in \<lparr>ci_LeaderID = leaderID, ci_CurrentTerm = currentTerm,
          ci_Members = member_infos ca leaderID config order,
          ci_MemberCount = card (dom (cg_Members config)),
          ci_VoterCount = VoterCount config,
          ci_LearnerCount = card (GetLearners config),
          ci_Quorum = Quorum config,
          ci_Healthy = (leaderID \<noteq> ''''),
          ci_Timestamp = now\<rparr>)"

definition ListMembers :: "string list \<Rightarrow> time \<Rightarrow> ClusterAPI \<Rightarrow> MemberInfo list" where
  "ListMembers order now ca = ci_Members (GetClusterInfo order now ca)"

definition GetMember :: "string \<Rightarrow> ClusterAPI \<Rightarrow> cluster_error + MemberInfo" where
  "GetMember nodeID ca =
     (case cg_Members (ca_config ca) nodeID of
        None \<Rightarrow> Inl (MemberUnknown nodeID)
      | Some member \<Rightarrow> Inr (member_info ca (the_or '''' (ca_getLeaderID ca)) nodeID member))"

definition GetLeader :: "ClusterAPI \<Rightarrow> cluster_error + MemberInfo" where
  "GetLeader ca =
     (let leaderID = the_or '''' (ca_getLeaderID ca) in
      if leaderID = '''' then Inl NoLeaderElected else GetMember leaderID ca)"

definition GetClusterHealth :: "time \<Rightarrow> ClusterAPI \<Rightarrow> ClusterHealth" where
  "GetClusterHealth now ca =
     (let config = ca_config ca;
          leaderID = the_or '''' (ca_getLeaderID ca);
          members = card (dom (cg_Members config));
          health = \<lparr>he_Healthy = False, he_LeaderPresent = (leaderID \<noteq> ''''), he_QuorumAvailable = True,
                    he_MembersHealthy = members, he_MembersTotal = members, he_Issues = [], he_Timestamp = now\<rparr>;
          health = (if \<not> he_LeaderPresent health
                    then health\<lparr>he_Healthy := False, he_Issues := he_Issues health @ [''No leader elected'']\<rparr>
                    else health);
          health = (if VoterCount config = 0
                    then health\<lparr>he_Healthy := False, he_QuorumAvailable := False,
                                he_Issues := he_Issues health @ [''No voting members in cluster'']\<rparr>
                    else health);
          health = (if VoterCount config < 3
                    then health\<lparr>he_Issues := he_Issues health @
                           [''Only '' @ decimal (VoterCount config) @ '' voter(s), cluster cannot tolerate failures'']\<rparr>
                    else health)
      in if length (he_Issues health) = 0 then health\<lparr>he_Healthy := True\<rparr> else health)"

definition GetNodeStatus :: "time \<Rightarrow> ClusterAPI \<Rightarrow> cluster_error + NodeStatus" where
  "GetNodeStatus now ca =
     (let state = the_or '''' (ca_getState ca);
          leaderID = the_or '''' (ca_getLeaderID ca);
          currentTerm = the_or 0 (ca_getCurrentTerm ca);
          lastApplied = the_or 0 (ca_getLastApplied ca);
          commitIndex = the_or 0 (ca_getCommitIndex ca)
      in
        case cg_Members (ca_config ca) (ca_nodeID ca) of
          None \<Rightarrow> Inl NotInConfiguration
        | Some member \<Rightarrow>
            Inr \<lparr>ns_NodeID = ca_nodeID ca, ns_Address = mb_Address member, ns_State = state,
                 ns_IsLeader = (ca_nodeID ca = leaderID), ns_LeaderID = leaderID, ns_CurrentTerm = currentTerm,
                 ns_CommitIndex = commitIndex, ns_LastApplied = lastApplied,
                 ns_MemberType = MemberType_String (mb_Type member), ns_Timestamp = now\<rparr>)"

definition IsConfigChangeInProgress :: "ClusterAPI \<Rightarrow> bool" where
  "IsConfigChangeInProgress ca = IsChangeInProgress (ca_membershipManager ca)"

definition GetPendingConfigChange :: "ClusterAPI \<Rightarrow> ConfigChange option" where
  "GetPendingConfigChange ca = GetPendingChange (ca_membershipManager ca)"


section \<open>What the answers mean\<close>

lemma ca_config_current: "ca_config ca = gm_current (mm_configManager (ca_membershipManager ca))"
  by (simp add: ca_config_def ConfigurationManager_GetConfiguration_def)

lemma member_info_fields [simp]:
  "mi_ID (member_info ca l i m) = i" "mi_IsLeader (member_info ca l i m) \<longleftrightarrow> i = l"
  "mi_Type (member_info ca l i m) = MemberType_String (mb_Type m)" "mi_Address (member_info ca l i m) = mb_Address m"
  by (auto simp: member_info_def Let_def split: option.split)

lemma member_infos_map:
  "set ids \<subseteq> dom (cg_Members config) \<Longrightarrow>
     member_infos ca l config ids = map (\<lambda>i. member_info ca l i (the (cg_Members config i))) ids"
  by (induction ids) (auto split: option.split)


text \<open>The health report looks at the configuration and the known leader only. For every
  configuration a manager can have, it reports every member healthy and a quorum available,
  whichever nodes are reachable, and calls the cluster healthy exactly if a leader is known and
  there are three voters or more.
\<close>

theorem health_ignores_connectivity:
  assumes "manager_ok (mm_configManager (ca_membershipManager ca))"
  shows "let health = GetClusterHealth now ca in
    he_QuorumAvailable health \<and> he_MembersHealthy health = he_MembersTotal health \<and>
    (he_Healthy health \<longleftrightarrow> the_or '''' (ca_getLeaderID ca) \<noteq> '''' \<and> 3 \<le> VoterCount (ca_config ca)) \<and>
    (he_Healthy health \<longleftrightarrow> he_Issues health = [])"
  using assms by (auto simp: GetClusterHealth_def Let_def manager_ok_def ca_config_current)

text \<open>Three voters of which one leads.\<close>

definition example_api :: ClusterAPI where
  "example_api =
     SetCallbacks (Some 2) (Some ''n1'') (Some ''Follower'') (Some 4) (Some 5)
       (NewClusterAPI ''n2'' (NewMembershipManager (\<lambda>_. 0) [''n1'' \<mapsto> ''a'', ''n2'' \<mapsto> ''b'', ''n3'' \<mapsto> ''c''] 0))"

lemma example_api_ok: "manager_ok (mm_configManager (ca_membershipManager example_api))"
  using NewConfigurationManager_ok [of "[''n1'' \<mapsto> ''a'', ''n2'' \<mapsto> ''b'', ''n3'' \<mapsto> ''c'']" "\<lambda>_. 0"]
  by (simp add: example_api_def SetCallbacks_def NewClusterAPI_def NewMembershipManager_def)

lemma example_api_members:
  "dom (cg_Members (ca_config example_api)) = {''n1'', ''n2'', ''n3''}"
  "cg_Members (ca_config example_api) i = Some m \<Longrightarrow> mb_Type m = Voter"
  by (auto simp: ca_config_current example_api_def SetCallbacks_def NewClusterAPI_def NewMembershipManager_def
      NewConfigurationManager_def Let_def NewConfiguration_def split: if_splits)


theorem health_ignores_connectivity_witness:
  "he_QuorumAvailable (GetClusterHealth 9 example_api) \<and>
   he_MembersHealthy (GetClusterHealth 9 example_api) = he_MembersTotal (GetClusterHealth 9 example_api)"
  using health_ignores_connectivity [OF example_api_ok, of 9] by (simp add: Let_def)

end
