(* ===== verification/ReplaceProgress.thy ===== *)
theory ReplaceProgress
  imports Membership
begin

text \<open>
  The progress report of a node replacement, \<open>GetReplaceNodeProgress\<close> of
  \<open>src/pkg/cluster/membership.go\<close>: its phases are ordered as their constants are, the
  changes that a replacement applies never take it back, and it never gets to the end.
\<close>

section \<open>The order of the phases\<close>

text \<open>The values \<open>iota\<close> gives to the constants.\<close>

definition phase_code :: "ReplacePhase \<Rightarrow> nat" where
  "phase_code p =
     (case p of
        ReplacePhaseAddLearner \<Rightarrow> 0 | ReplacePhaseCatchUp \<Rightarrow> 1 | ReplacePhasePromote \<Rightarrow> 2
      | ReplacePhaseRemoveOld \<Rightarrow> 3 | ReplacePhaseComplete \<Rightarrow> 4 | ReplacePhaseFailed \<Rightarrow> 5)"

lemma phase_code_inject: "phase_code p = phase_code q \<longleftrightarrow> p = q"
  by (cases p; cases q) (simp_all add: phase_code_def)

instantiation ReplacePhase :: linorder
begin

definition less_eq_phase_def: "p \<le> q \<longleftrightarrow> phase_code p \<le> phase_code q"

definition less_phase_def: "p < q \<longleftrightarrow> phase_code p < phase_code q"

instance
  by standard (auto simp: less_eq_phase_def less_phase_def phase_code_inject [symmetric])

end

lemma phases_ascend:
  "ReplacePhaseAddLearner < ReplacePhaseCatchUp" "ReplacePhaseCatchUp < ReplacePhasePromote"
  "ReplacePhasePromote < ReplacePhaseRemoveOld" "ReplacePhaseRemoveOld < ReplacePhaseComplete"
  "ReplacePhaseComplete < ReplacePhaseFailed"
  by (simp_all add: less_phase_def phase_code_def)

lemma first_phase [simp]: "ReplacePhaseAddLearner \<le> p"
  by (simp add: less_eq_phase_def phase_code_def)


section \<open>The reported phase\<close>

abbreviation phase_of :: "string \<Rightarrow> MembershipManager \<Rightarrow> ReplacePhase" where
  "phase_of nodeID mm \<equiv> rs_Phase (GetReplaceNodeProgress nodeID mm)"

lemma phase_of_cases:
  "phase_of nodeID mm =
     (case cg_Members (ConfigurationManager_GetConfiguration (mm_configManager mm)) nodeID of
        None \<Rightarrow> ReplacePhaseAddLearner
      | Some member \<Rightarrow>
          if mb_Type member = Learner
          then if IsLearnerCaughtUp nodeID mm then ReplacePhasePromote else ReplacePhaseCatchUp
          else if mb_Type member = Voter then ReplacePhaseRemoveOld else ReplacePhaseAddLearner)"
  by (simp add: GetReplaceNodeProgress_def IsLearnerCaughtUp_def Let_def split: option.split)

text \<open>
  \<open>ReplacePhaseComplete\<close> is never reported, nor is a failure, nor that the old node is
  removed: the report does not look at the old node.
\<close>

theorem replacement_never_complete:
  "phase_of nodeID mm \<le> ReplacePhaseRemoveOld \<and>
   \<not> rs_OldNodeRemoved (GetReplaceNodeProgress nodeID mm)"
  by (simp add: GetReplaceNodeProgress_def Let_def less_eq_phase_def phase_code_def split: option.split)

lemma applied_elsewhere:
  "applyChangeToConfig now change config = Inr config' \<Longrightarrow> ch_NodeID change \<noteq> nodeID \<Longrightarrow>
   cg_Members config' nodeID = cg_Members config nodeID"
  by (auto simp: applyChangeToConfig_def AddMember_def RemoveMember_def Configuration_PromoteLearner_def
      split: ConfigChangeType.splits option.splits if_splits)

lemma ApplyConfigChange_members:
  assumes "ApplyConfigChange now change index term mm = Inr mm'"
  obtains config where
    "applyChangeToConfig now change (ConfigurationManager_GetConfiguration (mm_configManager mm)) = Inr config"
    and "cg_Members (ConfigurationManager_GetConfiguration (mm_configManager mm')) = cg_Members config"
  using assms
  by (auto simp: ApplyConfigChange_def ConfigurationManager_ApplyConfigChange_def
      ConfigurationManager_GetConfiguration_def Let_def split: sum.splits ConfigChangeType.splits)

lemma ApplyConfigChange_statuses:
  "ApplyConfigChange now change index term mm = Inr mm' \<Longrightarrow> ch_NodeID change \<noteq> nodeID \<Longrightarrow>
   mm_learnerStatuses mm' nodeID = mm_learnerStatuses mm nodeID"
  by (auto simp: ApplyConfigChange_def Let_def split: sum.splits ConfigChangeType.splits)

text \<open>
  Applying a committed change never takes the replacement back, unless it removes or demotes
  the new node itself; the promotion of the new node takes it to the removal of the old one.
\<close>

theorem replacement_advances:
  assumes "ApplyConfigChange now change index term mm = Inr mm'"
    and "ch_NodeID change = nodeID \<longrightarrow> ch_Type change = AddLearnerNode \<or> ch_Type change = PromoteNode"
  shows "phase_of nodeID mm \<le> phase_of nodeID mm' \<and>
     (ch_NodeID change = nodeID \<and> ch_Type change = PromoteNode \<longrightarrow> phase_of nodeID mm' = ReplacePhaseRemoveOld)"
proof -
  obtain config where config:
    "applyChangeToConfig now change (ConfigurationManager_GetConfiguration (mm_configManager mm)) = Inr config"
    "cg_Members (ConfigurationManager_GetConfiguration (mm_configManager mm')) = cg_Members config"
    using ApplyConfigChange_members [OF assms(1)] .
  consider "ch_NodeID change \<noteq> nodeID" | "ch_NodeID change = nodeID" "ch_Type change = AddLearnerNode"
    | "ch_NodeID change = nodeID" "ch_Type change = PromoteNode" using assms(2) by blast
  then show ?thesis
  proof cases
    case 1
    then have "phase_of nodeID mm' = phase_of nodeID mm"
      using applied_elsewhere [OF config(1) 1] ApplyConfigChange_statuses [OF assms(1) 1] config(2)
      by (simp add: phase_of_cases IsLearnerCaughtUp_def)
    with 1 show ?thesis by simp
  next
    case 2
    then have "phase_of nodeID mm = ReplacePhaseAddLearner"
      using config(1) by (simp add: phase_of_cases applyChangeToConfig_def AddMember_def split: if_splits)
    with 2 show ?thesis by simp
  next
    case 3
    then have "phase_of nodeID mm' = ReplacePhaseRemoveOld"
      using config
      by (auto simp: phase_of_cases applyChangeToConfig_def Configuration_PromoteLearner_def
          split: option.splits if_splits)
    with replacement_never_complete [of nodeID mm] show ?thesis by simp
  qed
qed

text \<open>Reports on a learner's progress move the phase between catching up and promotion only.\<close>

lemma progress_report_phase:
  "phase_of nodeID (fst (UpdateLearnerProgress now i matchIndex lastIndex n mm)) = phase_of nodeID mm \<or>
   {phase_of nodeID (fst (UpdateLearnerProgress now i matchIndex lastIndex n mm)), phase_of nodeID mm}
     \<subseteq> {ReplacePhaseCatchUp, ReplacePhasePromote}"
  by (simp add: phase_of_cases frame_simps split: option.split)

definition example_replacement :: MembershipManager where
  "example_replacement = NewMembershipManager (\<lambda>_. 0) [''n1'' \<mapsto> ''a'', ''n2'' \<mapsto> ''b''] 0"

theorem replacement_advances_witness:
  "\<exists>mm'. ApplyConfigChange 1 \<lparr>ch_Type = AddLearnerNode, ch_NodeID = ''n3'', ch_Address = ''c'',
       ch_Index = 7, ch_Term = 1\<rparr> 7 1 example_replacement = Inr mm' \<and>
     phase_of ''n3'' example_replacement \<le> phase_of ''n3'' mm' \<and> phase_of ''n3'' mm' = ReplacePhaseCatchUp"
proof -
  let ?change = "\<lparr>ch_Type = AddLearnerNode, ch_NodeID = ''n3'', ch_Address = ''c'', ch_Index = 7, ch_Term = 1\<rparr>"
  obtain mm' where mm': "ApplyConfigChange 1 ?change 7 1 example_replacement = Inr mm'"
    by (auto simp: ApplyConfigChange_def ConfigurationManager_ApplyConfigChange_def applyChangeToConfig_def
        AddMember_def Let_def example_replacement_def NewMembershipManager_def NewConfigurationManager_def
        NewConfiguration_def split: sum.splits)
  moreover have "phase_of ''n3'' example_replacement \<le> phase_of ''n3'' mm'"
    using replacement_advances [OF mm', of "''n3''"] by simp
  moreover have "phase_of ''n3'' mm' = ReplacePhaseCatchUp"
    using mm' by (auto simp: ApplyConfigChange_def ConfigurationManager_ApplyConfigChange_def
        applyChangeToConfig_def AddMember_def Let_def phase_of_cases IsLearnerCaughtUp_def new_status_def
        ConfigurationManager_GetConfiguration_def split: sum.splits if_splits)
  ultimately show ?thesis by blast
qed

end
