(* ===== verification/GoFiles.thy ===== *)
theory GoFiles
  imports Prelude
begin

text \<open>
  What the storage package uses of the packages \<open>os\<close> and \<open>bufio\<close>. A disk is
  the contents of the files of one directory. Every system call may fail: the call number
  \<open>k\<close> fails if \<open>dk_faults k\<close> is \<open>Some m\<close>, a write after the first
  \<open>m\<close> bytes, any other call without effect. A disk without faults never fails.
  Operations are functions from a state to the state and a result or an error; they are chained
  by \<open>io_then\<close>.
\<close>

section \<open>Operations that may fail\<close>

type_synonym ('s, 'e, 'a) io = "'s \<Rightarrow> 's \<times> ('e + 'a)"

definition io_return :: "'a \<Rightarrow> ('s, 'e, 'a) io" where
  "io_return x s = (s, Inr x)"

definition io_fail :: "'e \<Rightarrow> ('s, 'e, 'a) io" where
  "io_fail e s = (s, Inl e)"

definition io_then :: "('s, 'e, 'a) io \<Rightarrow> ('a \<Rightarrow> ('s, 'e, 'b) io) \<Rightarrow> ('s, 'e, 'b) io" where
  "io_then m f s = (case m s of (s, Inl e) \<Rightarrow> (s, Inl e) | (s, Inr x) \<Rightarrow> f x s)"

definition io_get :: "('s \<Rightarrow> 'a) \<Rightarrow> ('s, 'e, 'a) io" where
  "io_get f s = (s, Inr (f s))"

definition io_modify :: "('s \<Rightarrow> 's) \<Rightarrow> ('s, 'e, unit) io" where
  "io_modify f s = (f s, Inr ())"

text \<open>A loop over a list stops at the first error.\<close>

fun io_each :: "('a \<Rightarrow> ('s, 'e, unit) io) \<Rightarrow> 'a list \<Rightarrow> ('s, 'e, unit) io" where
  "io_each f [] = io_return ()"
| "io_each f (x # xs) = io_then (f x) (\<lambda>_. io_each f xs)"

fun io_collect :: "('a \<Rightarrow> ('s, 'e, 'b) io) \<Rightarrow> 'a list \<Rightarrow> ('s, 'e, 'b list) io" where
  "io_collect f [] = io_return []"
| "io_collect f (x # xs) =
     io_then (f x) (\<lambda>y. io_then (io_collect f xs) (\<lambda>ys. io_return (y # ys)))"

named_theorems io_simps \<open>results of chained operations\<close>

lemma io_then_Inr [io_simps]:
  "io_then m f s = (s', Inr y) \<longleftrightarrow> (\<exists>s1 x. m s = (s1, Inr x) \<and> f x s1 = (s', Inr y))"
  by (auto simp: io_then_def split: prod.split sum.split)

lemma io_primitives [io_simps]:
  "io_return x s = (s', r) \<longleftrightarrow> s' = s \<and> r = Inr x"
  "io_fail e s = (s', r) \<longleftrightarrow> s' = s \<and> r = Inl e"
  "io_get f s = (s', r) \<longleftrightarrow> s' = s \<and> r = Inr (f s)"
  "io_modify g s = (s', r2) \<longleftrightarrow> s' = g s \<and> r2 = Inr ()"
  by (auto simp: io_return_def io_fail_def io_get_def io_modify_def)

text \<open>An invariant of all parts is one of the whole, whether or not an error occurs.\<close>

definition io_keeps :: "('s \<Rightarrow> bool) \<Rightarrow> ('s, 'e, 'a) io \<Rightarrow> bool" where
  "io_keeps P m \<longleftrightarrow> (\<forall>s. P s \<longrightarrow> P (fst (m s)))"

lemma io_keeps_then [intro]: "io_keeps P m \<Longrightarrow> (\<And>x. io_keeps P (f x)) \<Longrightarrow> io_keeps P (io_then m f)"
  unfolding io_keeps_def io_then_def by (fastforce split: prod.split sum.split)

lemma io_keeps_primitives [simp]:
  "io_keeps P (io_return x)" "io_keeps P (io_fail e)" "io_keeps P (io_get g)"
  by (simp_all add: io_keeps_def io_return_def io_fail_def io_get_def)

lemma io_keeps_each: "(\<And>x. io_keeps P (f x)) \<Longrightarrow> io_keeps P (io_each f xs)"
  by (induction xs) auto


section \<open>Disks\<close>

datatype os_error = IOError | NotExist

record 'f disk =
  dk_files :: "'f \<rightharpoonup> bytes"
  dk_faults :: "nat \<Rightarrow> nat option"
  dk_calls :: nat

type_synonym ('f, 'a) os = "('f disk, os_error, 'a) io"

definition syscall :: "'f disk \<Rightarrow> 'f disk \<times> nat option" where
  "syscall d = (d\<lparr>dk_calls := Suc (dk_calls d)\<rparr>, dk_faults d (dk_calls d))"

text \<open>A call that fails without effect, and otherwise is \<open>f\<close>.\<close>

definition os_call :: "('f disk \<Rightarrow> 'f disk \<times> (os_error + 'a)) \<Rightarrow> ('f, 'a) os" where
  "os_call f d = (case syscall d of (d, Some _) \<Rightarrow> (d, Inl IOError) | (d, None) \<Rightarrow> f d)"

text \<open>\<open>OpenFile\<close> with \<open>O_CREATE|O_APPEND\<close>, and without \<open>O_CREATE\<close>.\<close>

definition os_create_append :: "'f \<Rightarrow> ('f, unit) os" where
  "os_create_append f = os_call (\<lambda>d.
     (case dk_files d f of
        None \<Rightarrow> (d\<lparr>dk_files := (dk_files d)(f \<mapsto> [])\<rparr>, Inr ())
      | Some _ \<Rightarrow> (d, Inr ())))"

definition os_open :: "'f \<Rightarrow> ('f, unit) os" where
  "os_open f = os_call (\<lambda>d. (d, if dk_files d f = None then Inl NotExist else Inr ()))"

text \<open>
  \<open>File.Write\<close> on a file opened for appending; the number of bytes written comes back
  with the success.
\<close>

definition file_append :: "'f \<Rightarrow> bytes \<Rightarrow> 'f disk \<Rightarrow> 'f disk \<times> nat \<times> bool" where
  "file_append f p d =
     (let (d, fault) = syscall d;
          n = (case fault of None \<Rightarrow> length p | Some m \<Rightarrow> min m (length p));
          old = (case dk_files d f of None \<Rightarrow> [] | Some c \<Rightarrow> c)
      in (d\<lparr>dk_files := (dk_files d)(f \<mapsto> old @ take n p)\<rparr>, n, fault = None))"

definition os_noop :: "('f, unit) os" where
  "os_noop = os_call (\<lambda>d. (d, Inr ()))"

abbreviation os_sync :: "('f, unit) os" where "os_sync \<equiv> os_noop"
abbreviation os_close :: "('f, unit) os" where "os_close \<equiv> os_noop"
abbreviation os_mkdirall :: "('f, unit) os" where "os_mkdirall \<equiv> os_noop"

definition os_size :: "'f \<Rightarrow> ('f, int) os" where
  "os_size f = os_call (\<lambda>d. (d, case dk_files d f of None \<Rightarrow> Inl NotExist | Some c \<Rightarrow> Inr (int (length c))))"

definition os_remove :: "'f \<Rightarrow> ('f, unit) os" where
  "os_remove f = os_call (\<lambda>d.
     if dk_files d f = None then (d, Inl NotExist) else (d\<lparr>dk_files := (dk_files d)(f := None)\<rparr>, Inr ()))"

definition os_readfile :: "'f \<Rightarrow> ('f, bytes) os" where
  "os_readfile f = os_call (\<lambda>d. (d, case dk_files d f of None \<Rightarrow> Inl NotExist | Some c \<Rightarrow> Inr c))"

text \<open>\<open>ReadDir\<close>: the names in the directory, in increasing order.\<close>

definition os_readdir :: "('f :: linorder, 'f list) os" where
  "os_readdir = os_call (\<lambda>d. (d, Inr (sorted_list_of_set (dom (dk_files d)))))"

text \<open>\<open>os.Create\<close> empties the file, \<open>os.WriteFile\<close> also writes and closes it.\<close>

definition os_create :: "'f \<Rightarrow> ('f, unit) os" where
  "os_create f = os_call (\<lambda>d. (d\<lparr>dk_files := (dk_files d)(f \<mapsto> [])\<rparr>, Inr ()))"

definition os_writefile :: "'f \<Rightarrow> bytes \<Rightarrow> ('f, unit) os" where
  "os_writefile f p = io_then (os_create f) (\<lambda>_ d.
     let (d, n, ok) = file_append f p d;
         (d, closed) = os_close d
     in (d, if ok then closed else Inl IOError))"

definition os_rename :: "'f \<Rightarrow> 'f \<Rightarrow> ('f, unit) os" where
  "os_rename f g = os_call (\<lambda>d.
     case dk_files d f of
       None \<Rightarrow> (d, Inl NotExist)
     | Some c \<Rightarrow> (d\<lparr>dk_files := (dk_files d)(f := None, g \<mapsto> c)\<rparr>, Inr ()))"

definition fault_free :: "'f disk \<Rightarrow> bool" where
  "fault_free d \<longleftrightarrow> (\<forall>k. dk_faults d k = None)"


section \<open>Buffered writers\<close>

record 'f Writer =
  wr_file :: 'f
  wr_buf :: bytes
  wr_failed :: bool

abbreviation bufio_size :: nat where "bufio_size \<equiv> 4096"

definition NewWriter :: "'f \<Rightarrow> 'f Writer" where
  "NewWriter f = \<lparr>wr_file = f, wr_buf = [], wr_failed = False\<rparr>"

text \<open>
  \<open>Flush\<close> keeps what a failed write left, and the failure; both tell whether they
  succeeded.
\<close>

definition bufio_flush :: "'f Writer \<Rightarrow> 'f disk \<Rightarrow> 'f disk \<times> 'f Writer \<times> bool" where
  "bufio_flush w d =
     (if wr_failed w then (d, w, False)
      else if wr_buf w = [] then (d, w, True)
      else
        let (d, n, ok) = file_append (wr_file w) (wr_buf w) d in
        if ok then (d, w\<lparr>wr_buf := []\<rparr>, True)
        else (d, w\<lparr>wr_buf := drop n (wr_buf w), wr_failed := True\<rparr>, False))"

text \<open>
  \<open>Write\<close> of what does not fit fills the buffer and flushes it; what is larger than an
  empty buffer goes to the file at once.
\<close>

definition bufio_rest :: "bytes \<Rightarrow> 'f Writer \<Rightarrow> 'f disk \<Rightarrow> 'f disk \<times> 'f Writer \<times> bool" where
  "bufio_rest p w d =
     (if length p > bufio_size
      then let (d, n, ok) = file_append (wr_file w) p d in (d, w\<lparr>wr_failed := \<not> ok\<rparr>, ok)
      else (d, w\<lparr>wr_buf := p\<rparr>, True))"

definition bufio_write :: "bytes \<Rightarrow> 'f Writer \<Rightarrow> 'f disk \<Rightarrow> 'f disk \<times> 'f Writer \<times> bool" where
  "bufio_write p w d =
     (let avail = bufio_size - length (wr_buf w) in
      if wr_failed w then (d, w, False)
      else if length p \<le> avail then (d, w\<lparr>wr_buf := wr_buf w @ p\<rparr>, True)
      else if wr_buf w = [] then bufio_rest p w d
      else
        let (d, w, ok) = bufio_flush (w\<lparr>wr_buf := wr_buf w @ take avail p\<rparr>) d in
        if \<not> ok then (d, w, False) else bufio_rest (drop avail p) w d)"

text \<open>What a file holds once its writer is flushed.\<close>

definition contents :: "'f \<Rightarrow> 'f disk \<Rightarrow> bytes" where
  "contents f d = (case dk_files d f of None \<Rightarrow> [] | Some c \<Rightarrow> c)"

lemma file_append_ok:
  "file_append f p d = (d', n, True) \<Longrightarrow>
     dk_files d' = (dk_files d)(f \<mapsto> contents f d @ p) \<and> dk_faults d' = dk_faults d"
  by (auto simp: file_append_def syscall_def contents_def Let_def split: option.splits)

lemma file_append_fault_free:
  "fault_free d \<Longrightarrow> \<exists>d'. file_append f p d = (d', length p, True) \<and> fault_free d'"
  by (simp add: file_append_def syscall_def fault_free_def Let_def)

text \<open>
  A successful write leaves the bytes behind what the writer holds and the file; other files
  do not change, and the buffer keeps its size.
\<close>

lemma bufio_flush_ok:
  assumes "bufio_flush w d = (d', w', True)"
  shows "wr_buf w' = [] \<and> wr_file w' = wr_file w \<and> \<not> wr_failed w' \<and>
     contents (wr_file w) d' = contents (wr_file w) d @ wr_buf w \<and>
     (\<forall>f. f \<noteq> wr_file w \<longrightarrow> dk_files d' f = dk_files d f) \<and>
     (dk_files d (wr_file w) \<noteq> None \<longrightarrow> dk_files d' (wr_file w) \<noteq> None)"
  using assms
  by (auto simp: bufio_flush_def Let_def contents_def split: if_splits prod.splits dest!: file_append_ok)

lemma bufio_rest_ok:
  assumes "bufio_rest p w d = (d', w', True)" "\<not> wr_failed w" "wr_buf w = []"
  shows "wr_file w' = wr_file w \<and> \<not> wr_failed w' \<and> length (wr_buf w') \<le> bufio_size \<and>
     contents (wr_file w) d' @ wr_buf w' = contents (wr_file w) d @ p \<and>
     (\<forall>f. f \<noteq> wr_file w \<longrightarrow> dk_files d' f = dk_files d f) \<and>
     (dk_files d (wr_file w) \<noteq> None \<longrightarrow> dk_files d' (wr_file w) \<noteq> None)"
  using assms
  by (auto simp: bufio_rest_def Let_def contents_def split: if_splits prod.splits dest!: file_append_ok)

lemma bufio_write_ok:
  assumes "bufio_write p w d = (d', w', True)" "length (wr_buf w) \<le> bufio_size"
  shows "wr_file w' = wr_file w \<and> \<not> wr_failed w' \<and> length (wr_buf w') \<le> bufio_size \<and>
     contents (wr_file w) d' @ wr_buf w' = contents (wr_file w) d @ wr_buf w @ p \<and>
     (\<forall>f. f \<noteq> wr_file w \<longrightarrow> dk_files d' f = dk_files d f) \<and>
     (dk_files d (wr_file w) \<noteq> None \<longrightarrow> dk_files d' (wr_file w) \<noteq> None)"
proof -
  let ?avail = "bufio_size - length (wr_buf w)"
  have failed: "\<not> wr_failed w" using assms(1) by (auto simp: bufio_write_def Let_def)
  consider (fits) "length p \<le> ?avail" | (empty) "length p > ?avail" "wr_buf w = []"
    | (full) "length p > ?avail" "wr_buf w \<noteq> []" by linarith
  then show ?thesis
  proof cases
    case fits
    then show ?thesis using assms failed by (auto simp: bufio_write_def Let_def)
  next
    case empty
    then show ?thesis using assms failed bufio_rest_ok [of p w d d' w'] by (simp add: bufio_write_def Let_def)
  next
    case full
    let ?w = "w\<lparr>wr_buf := wr_buf w @ take ?avail p\<rparr>"
    obtain d1 w1 where f: "bufio_flush ?w d = (d1, w1, True)" and r: "bufio_rest (drop ?avail p) w1 d1 = (d', w', True)"
      using assms(1) full failed
      by (auto simp: bufio_write_def Let_def split: prod.splits if_splits)
    show ?thesis using bufio_flush_ok [OF f] bufio_rest_ok [OF r] by auto
  qed
qed

text \<open>Without faults they succeed.\<close>

lemma bufio_flush_fault_free:
  "fault_free d \<Longrightarrow> \<not> wr_failed w \<Longrightarrow> \<exists>d' w'. bufio_flush w d = (d', w', True) \<and> fault_free d'"
  using file_append_fault_free [of d "wr_file w" "wr_buf w"] by (auto simp: bufio_flush_def)

lemma bufio_rest_fault_free:
  "fault_free d \<Longrightarrow> \<exists>d' w'. bufio_rest p w d = (d', w', True) \<and> fault_free d'"
  using file_append_fault_free [of d "wr_file w" p] by (auto simp: bufio_rest_def)

lemma bufio_write_fault_free:
  assumes "fault_free d" "\<not> wr_failed w"
  shows "\<exists>d' w'. bufio_write p w d = (d', w', True) \<and> fault_free d'"
proof -
  let ?avail = "bufio_size - length (wr_buf w)"
  obtain d1 w1 where f: "bufio_flush (w\<lparr>wr_buf := wr_buf w @ take ?avail p\<rparr>) d = (d1, w1, True)" "fault_free d1"
    using bufio_flush_fault_free [of d "w\<lparr>wr_buf := wr_buf w @ take ?avail p\<rparr>"] assms by auto
  show ?thesis
    using assms f bufio_rest_fault_free [OF assms(1), of p w] bufio_rest_fault_free [OF f(2), of "drop ?avail p" w1]
    by (auto simp: bufio_write_def Let_def)
qed

lemma os_call_Inr:
  "os_call f d = (d', Inr x) \<longleftrightarrow>
     dk_faults d (dk_calls d) = None \<and> f (d\<lparr>dk_calls := Suc (dk_calls d)\<rparr>) = (d', Inr x)"
  by (auto simp: os_call_def syscall_def split: option.splits)


section \<open>Operations that do not fail\<close>

definition succeeds :: "('s \<Rightarrow> bool) \<Rightarrow> ('s, 'e, 'a) io \<Rightarrow> ('a \<Rightarrow> 's \<Rightarrow> bool) \<Rightarrow> bool" where
  "succeeds P m Q \<longleftrightarrow> (\<forall>s. P s \<longrightarrow> (\<exists>s' x. m s = (s', Inr x) \<and> Q x s'))"

lemma succeedsI: "(\<And>s. P s \<Longrightarrow> \<exists>s' x. m s = (s', Inr x) \<and> Q x s') \<Longrightarrow> succeeds P m Q"
  by (simp add: succeeds_def)

lemma succeedsE:
  assumes "succeeds P m Q" "P s"
  obtains s' x where "m s = (s', Inr x)" "Q x s'"
  using assms unfolding succeeds_def by blast

lemma succeeds_then:
  "succeeds P m Q \<Longrightarrow> (\<And>x. succeeds (Q x) (f x) R) \<Longrightarrow> succeeds P (io_then m f) R"
  unfolding succeeds_def by (fastforce simp: io_then_def)

lemma succeeds_then_Inr:
  "succeeds P m Q \<Longrightarrow> (\<And>x. succeeds (\<lambda>s. Q x s \<and> (\<exists>s0. P s0 \<and> m s0 = (s, Inr x))) (f x) R) \<Longrightarrow>
     succeeds P (io_then m f) R"
  unfolding succeeds_def by (simp add: io_then_def) (fastforce split: prod.split sum.split)

lemma succeeds_return [intro!]: "(\<And>s. P s \<Longrightarrow> Q x s) \<Longrightarrow> succeeds P (io_return x) Q"
  by (simp add: succeeds_def io_return_def)

lemma succeeds_get [intro!]: "(\<And>s. P s \<Longrightarrow> Q (g s) s) \<Longrightarrow> succeeds P (io_get g) Q"
  by (simp add: succeeds_def io_get_def)

lemma succeeds_modify [intro!]: "(\<And>s. P s \<Longrightarrow> Q () (h s)) \<Longrightarrow> succeeds P (io_modify h) Q"
  by (simp add: succeeds_def io_modify_def)

lemmas succeeds_primitives = succeeds_return succeeds_get succeeds_modify

lemma succeeds_if:
  "(b \<Longrightarrow> succeeds P m Q) \<Longrightarrow> (\<not> b \<Longrightarrow> succeeds P m' Q) \<Longrightarrow> succeeds P (if b then m else m') Q"
  by simp

lemma succeeds_weaken:
  "succeeds P m Q \<Longrightarrow> (\<And>s. P' s \<Longrightarrow> P s) \<Longrightarrow> (\<And>x s. Q x s \<Longrightarrow> Q' x s) \<Longrightarrow> succeeds P' m Q'"
  unfolding succeeds_def by blast

lemma succeeds_assuming:
  "(b \<Longrightarrow> succeeds P m Q) \<Longrightarrow> succeeds (\<lambda>s. b \<and> P s) m Q"
  by (simp add: succeeds_def)

lemma succeeds_each:
  "(\<And>x. x \<in> set xs \<Longrightarrow> succeeds P (f x) (\<lambda>_. P)) \<Longrightarrow> succeeds P (io_each f xs) (\<lambda>_. P)"
  by (induction xs) (auto intro: succeeds_then)

lemma succeeds_collect:
  "(\<And>x. x \<in> set xs \<Longrightarrow> succeeds P (f x) (\<lambda>_. P)) \<Longrightarrow> succeeds P (io_collect f xs) (\<lambda>_. P)"
  by (induction xs) (auto intro!: succeeds_then)

text \<open>System calls on a disk without faults.\<close>

lemma fault_free_calls [simp]: "fault_free (d\<lparr>dk_calls := n\<rparr>) = fault_free d"
  "fault_free (d\<lparr>dk_files := m\<rparr>) = fault_free d"
  by (simp_all add: fault_free_def)

lemma os_call_fault_free: "fault_free d \<Longrightarrow> os_call f d = f (d\<lparr>dk_calls := Suc (dk_calls d)\<rparr>)"
  by (simp add: os_call_def syscall_def fault_free_def)

lemma bufio_write_unfailed: "bufio_write p w d = (d', w', True) \<Longrightarrow> \<not> wr_failed w'"
  by (auto simp: bufio_write_def bufio_rest_def Let_def split: if_splits prod.splits dest!: bufio_flush_ok)

end
