(* ===== verification/GoBytes.thy ===== *)
theory GoBytes
  imports Prelude
begin

text \<open>
  Bytes: the big-endian coding of integers (\<open>encoding/binary\<close>) and the CRC-32
  checksum (\<open>hash/crc32\<close>, IEEE polynomial) of the Go library, as the storage package
  uses them.
\<close>

section \<open>Big-endian integers\<close>

definition put_u32 :: "u32 \<Rightarrow> bytes" where
  "put_u32 v = [ucast (drop_bit 24 v), ucast (drop_bit 16 v), ucast (drop_bit 8 v), ucast v]"

definition get_u32 :: "bytes \<Rightarrow> u32" where
  "get_u32 b = push_bit 24 (ucast (b ! 0)) OR push_bit 16 (ucast (b ! 1)) OR
               push_bit 8 (ucast (b ! 2)) OR ucast (b ! 3)"

definition put_u64 :: "u64 \<Rightarrow> bytes" where
  "put_u64 v = [ucast (drop_bit 56 v), ucast (drop_bit 48 v), ucast (drop_bit 40 v), ucast (drop_bit 32 v),
                ucast (drop_bit 24 v), ucast (drop_bit 16 v), ucast (drop_bit 8 v), ucast v]"

definition get_u64 :: "bytes \<Rightarrow> u64" where
  "get_u64 b = push_bit 56 (ucast (b ! 0)) OR push_bit 48 (ucast (b ! 1)) OR
               push_bit 40 (ucast (b ! 2)) OR push_bit 32 (ucast (b ! 3)) OR
               push_bit 24 (ucast (b ! 4)) OR push_bit 16 (ucast (b ! 5)) OR
               push_bit 8 (ucast (b ! 6)) OR ucast (b ! 7)"

lemma length_put [simp]: "length (put_u32 v) = 4" "length (put_u64 w) = 8"
  by (simp_all add: put_u32_def put_u64_def)

lemma get_put_u32 [simp]: "get_u32 (put_u32 v) = v"
proof (rule bit_word_eqI)
  fix n assume "n < LENGTH(32)"
  then consider "n < 8" | "8 \<le> n" "n < 16" | "16 \<le> n" "n < 24" | "24 \<le> n" "n < 32" by fastforce
  then show "bit (get_u32 (put_u32 v)) n = bit v n"
    unfolding put_u32_def get_u32_def by cases (auto simp: bit_simps)
qed

lemma get_put_u64 [simp]: "get_u64 (put_u64 v) = v"
proof (rule bit_word_eqI)
  fix n assume "n < LENGTH(64)"
  then consider "n < 8" | "8 \<le> n" "n < 16" | "16 \<le> n" "n < 24" | "24 \<le> n" "n < 32"
    | "32 \<le> n" "n < 40" | "40 \<le> n" "n < 48" | "48 \<le> n" "n < 56" | "56 \<le> n" "n < 64" by fastforce
  then show "bit (get_u64 (put_u64 v)) n = bit v n"
    unfolding put_u64_def get_u64_def by cases (auto simp: bit_simps)
qed

lemma put_u64_inject [simp]: "put_u64 v = put_u64 w \<longleftrightarrow> v = w"
  by (metis get_put_u64)

text \<open>Reading an integer only looks at its bytes.\<close>

lemma get_u64_append: "get_u64 (put_u64 v @ bs) = v"
  using get_put_u64 [of v] by (simp add: get_u64_def put_u64_def)

lemma get_u32_append: "get_u32 (put_u32 v @ bs) = v"
  using get_put_u32 [of v] by (simp add: get_u32_def put_u32_def)

section \<open>CRC-32\<close>

text \<open>
  One step shifts the register by a bit and adds the (reflected) polynomial if the bit that
  fell out was set; a byte takes eight steps. The register starts and ends inverted.
\<close>

definition crc_bit :: "u32 \<Rightarrow> u32" where
  "crc_bit c = (if bit c 0 then drop_bit 1 c XOR 0xEDB88320 else drop_bit 1 c)"

definition crc_byte :: "u32 \<Rightarrow> byte \<Rightarrow> u32" where
  "crc_byte c b = (crc_bit ^^ 8) (c XOR ucast b)"

definition crc32 :: "bytes \<Rightarrow> u32" where
  "crc32 bs = NOT (foldl crc_byte (NOT 0) bs)"

lemma xor_right_cancel_u32: "(a :: u32) XOR c = b XOR c \<longleftrightarrow> a = b"
  by (metis xor.assoc xor_self_eq xor.right_neutral)

lemma inj_crc_bit: "inj crc_bit"
proof
  fix a b assume eq: "crc_bit a = crc_bit b"
  have "bit (crc_bit c) 31 = bit c 0" for c
    using bit_imp_le_length [of c 32] by (auto simp: crc_bit_def bit_simps)
  then have l: "bit a 0 = bit b 0" using eq by metis
  then have d: "drop_bit 1 a = drop_bit 1 b"
    using eq by (cases "bit b 0") (simp_all only: crc_bit_def if_True if_False xor_right_cancel_u32)
  show "a = b"
  proof (rule bit_word_eqI)
    fix n
    show "bit a n = bit b n"
      using l d by (cases n) (metis, metis bit_drop_bit_eq comp_apply plus_1_eq_Suc)
  qed
qed

lemma inj_crc_steps: "(crc_bit ^^ 8) a = (crc_bit ^^ 8) b \<longleftrightarrow> a = b"
  using inj_fn [OF inj_crc_bit, of 8] by (auto dest: injD)

lemma crc_byte_inject: "crc_byte c b = crc_byte d b \<longleftrightarrow> c = d"
  by (simp add: crc_byte_def inj_crc_steps xor_right_cancel_u32)

lemma crc_byte_inject': "crc_byte c a = crc_byte c b \<longleftrightarrow> a = b"
proof
  assume "crc_byte c a = crc_byte c b"
  then have "ucast a XOR c = (ucast b XOR c :: u32)" by (simp add: crc_byte_def inj_crc_steps xor.commute)
  then have "ucast a = (ucast b :: u32)" by (simp add: xor_right_cancel_u32)
  then have "ucast (ucast a :: u32) = (ucast (ucast b :: u32) :: byte)" by simp
  then show "a = b" by (simp add: ucast_up_ucast_id is_up)
qed simp

lemma foldl_crc_inject: "foldl crc_byte c bs = foldl crc_byte d bs \<longleftrightarrow> c = d"
  by (induction bs arbitrary: c d) (simp_all add: crc_byte_inject)

text \<open>A single changed byte always shows in the checksum.\<close>

lemma crc32_single_byte: "crc32 (xs @ a # ys) = crc32 (xs @ b # ys) \<longleftrightarrow> a = b"
  by (simp add: crc32_def foldl_crc_inject crc_byte_inject')

end
