(* ===== verification/WalCodec.thy ===== *)
theory WalCodec
  imports GoBytes
begin

text \<open>
  The records of the write-ahead log: \<open>src/pkg/storage/types.go\<close> up to its interfaces,
  and \<open>serializeEntry\<close>, \<open>deserializeEntry\<close> and the loop of
  \<open>readSegment\<close> of \<open>src/pkg/storage/wal.go\<close>. A reader is the list of the
  bytes still to read. Sizes are written as 32-bit words, so a record of
  \<open>2 ^ 32\<close> bytes or more wraps; slices out of range panic.
\<close>

section \<open>Records\<close>

record StorageLogEntry =
  sl_Term :: u64
  sl_Index :: u64
  sl_Data :: "bytes option"
  sl_Type :: int

type_synonym WALEntryType = byte

abbreviation WALEntryLog :: WALEntryType where "WALEntryLog \<equiv> 1"
abbreviation WALEntryMetadata :: WALEntryType where "WALEntryMetadata \<equiv> 2"
abbreviation WALEntrySnapshot :: WALEntryType where "WALEntrySnapshot \<equiv> 3"

record WALEntry =
  we_Type :: WALEntryType
  we_Index :: u64
  we_Term :: u64
  we_Timestamp :: time
  we_Data :: bytes
  we_Checksum :: u32

record Metadata =
  md_CurrentTerm :: u64
  md_VotedFor :: string

definition uint64ToBytes :: "u64 \<Rightarrow> bytes" where
  "uint64ToBytes v =
     [ucast (drop_bit 56 v), ucast (drop_bit 48 v), ucast (drop_bit 40 v), ucast (drop_bit 32 v),
      ucast (drop_bit 24 v), ucast (drop_bit 16 v), ucast (drop_bit 8 v), ucast v]"

definition bytesToUint64 :: "bytes \<Rightarrow> go_panic + u64" where
  "bytesToUint64 b =
     (if length b < 8 then Inl IndexOutOfRange
      else Inr (push_bit 56 (ucast (b ! 0)) OR push_bit 48 (ucast (b ! 1)) OR
                push_bit 40 (ucast (b ! 2)) OR push_bit 32 (ucast (b ! 3)) OR
                push_bit 24 (ucast (b ! 4)) OR push_bit 16 (ucast (b ! 5)) OR
                push_bit 8 (ucast (b ! 6)) OR ucast (b ! 7)))"

definition CalculateChecksum :: "WALEntry \<Rightarrow> u32" where
  "CalculateChecksum e =
     crc32 ([we_Type e] @ uint64ToBytes (we_Index e) @ uint64ToBytes (we_Term e) @ we_Data e)"

definition ValidateChecksum :: "WALEntry \<Rightarrow> bool" where
  "ValidateChecksum e \<longleftrightarrow> we_Checksum e = CalculateChecksum e"


section \<open>Coding\<close>

text \<open>\<open>Timestamp.Unix()\<close> and \<open>time.Unix(s, 0)\<close>\<close>

definition unix :: "time \<Rightarrow> u64" where
  "unix t = of_int (t div Second)"

definition from_unix :: "u64 \<Rightarrow> time" where
  "from_unix w = sint w * Second"

definition serializeEntry :: "WALEntry \<Rightarrow> bytes" where
  "serializeEntry e =
     (let dataLen = length (we_Data e);
          totalSize = 1 + 8 + 8 + 8 + 4 + dataLen + 4
      in put_u32 (of_nat totalSize) @ [we_Type e] @ put_u64 (we_Index e) @ put_u64 (we_Term e) @
         put_u64 (unix (we_Timestamp e)) @ put_u32 (of_nat dataLen) @ we_Data e @ put_u32 (we_Checksum e))"

datatype read_error = EOF | UnexpectedEOF | ReadPanic go_panic | ChecksumFailed u64

text \<open>
  \<open>io.ReadFull\<close> for \<open>n\<close> bytes: nothing at all is an \<open>EOF\<close>, too little an
  \<open>UnexpectedEOF\<close>, and no bytes are always there.
\<close>

definition ReadFull :: "nat \<Rightarrow> bytes \<Rightarrow> read_error + (bytes \<times> bytes)" where
  "ReadFull n r =
     (if n \<le> length r then Inr (take n r, drop n r)
      else if r = [] then Inl EOF else Inl UnexpectedEOF)"

text \<open>Reading the fields out of the data of a record.\<close>

definition parse_data :: "bytes \<Rightarrow> read_error + WALEntry" where
  "parse_data data =
     (if length data < 29 then Inl (ReadPanic IndexOutOfRange)
      else
        let dataLen = unat (get_u32 (drop 25 data)) in
        if length data < 29 + dataLen + 4 then Inl (ReadPanic IndexOutOfRange)
        else Inr
          \<lparr>we_Type = data ! 0, we_Index = get_u64 (drop 1 data), we_Term = get_u64 (drop 9 data),
           we_Timestamp = from_unix (get_u64 (drop 17 data)), we_Data = take dataLen (drop 29 data),
           we_Checksum = get_u32 (drop (29 + dataLen) data)\<rparr>)"

definition deserializeEntry :: "bytes \<Rightarrow> read_error + (WALEntry \<times> bytes)" where
  "deserializeEntry r =
     (case ReadFull 4 r of
        Inl e \<Rightarrow> Inl e
      | Inr (sizeBuf, r) \<Rightarrow>
          (case ReadFull (unat (get_u32 sizeBuf)) r of
             Inl e \<Rightarrow> Inl e
           | Inr (data, r) \<Rightarrow>
               (case parse_data data of Inl e \<Rightarrow> Inl e | Inr entry \<Rightarrow> Inr (entry, r))))"

lemma ReadFull_shorter: "ReadFull n r = Inr (x, r') \<Longrightarrow> length r' = length r - n \<and> n \<le> length r"
  by (auto simp: ReadFull_def split: if_splits)

lemma deserializeEntry_shorter: "deserializeEntry r = Inr (e, r') \<Longrightarrow> length r' < length r"
  by (auto simp: deserializeEntry_def split: sum.splits prod.splits dest!: ReadFull_shorter)

function read_entries :: "bytes \<Rightarrow> read_error + WALEntry list" where
  "read_entries r =
     (case deserializeEntry r of
        Inl EOF \<Rightarrow> Inr []
      | Inl e \<Rightarrow> Inl e
      | Inr (entry, r') \<Rightarrow>
          if \<not> ValidateChecksum entry then Inl (ChecksumFailed (we_Index entry))
          else (case read_entries r' of Inl e \<Rightarrow> Inl e | Inr entries \<Rightarrow> Inr (entry # entries)))"
  by pat_completeness auto
termination
  by (relation "measure length") (auto dest: deserializeEntry_shorter)

declare read_entries.simps [simp del]


section \<open>What is written is read back\<close>

text \<open>A record fits when its sizes do not wrap and its time is a 64-bit number of seconds.\<close>

definition entry_fits :: "WALEntry \<Rightarrow> bool" where
  "entry_fits e \<longleftrightarrow> length (we_Data e) + 33 < 2 ^ 32 \<and>
     - (2 ^ 63) \<le> we_Timestamp e div Second \<and> we_Timestamp e div Second < 2 ^ 63"

text \<open>Only whole seconds survive.\<close>

definition to_seconds :: "WALEntry \<Rightarrow> WALEntry" where
  "to_seconds e = e\<lparr>we_Timestamp := we_Timestamp e div Second * Second\<rparr>"

lemma uint64ToBytes_eq: "uint64ToBytes = put_u64"
  by (rule ext) (simp add: uint64ToBytes_def put_u64_def)

lemma bytesToUint64_uint64ToBytes: "bytesToUint64 (uint64ToBytes v) = Inr v"
  using get_put_u64 [of v] by (simp add: bytesToUint64_def get_u64_def uint64ToBytes_eq)

lemma from_unix_unix:
  "- (2 ^ 63) \<le> t div Second \<Longrightarrow> t div Second < 2 ^ 63 \<Longrightarrow> from_unix (unix t) = t div Second * Second"
  by (simp add: from_unix_def unix_def sint_sbintrunc' signed_take_bit_int_eq_self)

lemma unat_of_nat_u32: "n < 2 ^ 32 \<Longrightarrow> unat (of_nat n :: u32) = n"
  by (simp add: unat_of_nat)

lemma length_serializeEntry: "length (serializeEntry e) = 37 + length (we_Data e)"
  by (simp add: serializeEntry_def Let_def)

lemma parse_data_serialized:
  assumes "entry_fits e"
  shows "parse_data (drop 4 (serializeEntry e)) = Inr (to_seconds e)"
  using assms
    by (simp add: serializeEntry_def Let_def parse_data_def entry_fits_def get_u64_append get_u32_append unat_of_nat_u32
        from_unix_unix to_seconds_def drop_Cons' WALEntry.defs)

lemma get_size:
  assumes "entry_fits e"
  shows "unat (get_u32 (take 4 (serializeEntry e @ r))) = 33 + length (we_Data e)"
proof -
  have "take 4 (serializeEntry e @ r) = put_u32 (of_nat (33 + length (we_Data e)))"
    by (simp add: serializeEntry_def Let_def)
  moreover have "33 + length (we_Data e) < 2 ^ 32" using assms by (simp add: entry_fits_def)
  ultimately show ?thesis by (simp only: get_put_u32 unat_of_nat_u32)
qed

lemma deserialize_serialize:
  assumes "entry_fits e"
  shows "deserializeEntry (serializeEntry e @ r) = Inr (to_seconds e, r)"
proof -
  have "ReadFull 4 (serializeEntry e @ r) = Inr (take 4 (serializeEntry e @ r), drop 4 (serializeEntry e) @ r)"
    by (simp add: ReadFull_def length_serializeEntry)
  moreover have "ReadFull (33 + length (we_Data e)) (drop 4 (serializeEntry e) @ r) = Inr (drop 4 (serializeEntry e), r)"
    by (simp add: ReadFull_def length_serializeEntry)
  ultimately show ?thesis
    unfolding deserializeEntry_def
    by (simp add: get_size [OF assms] parse_data_serialized [OF assms] del: take_append)
qed

text \<open>
  Reading a sequence of checksummed records gives their entries, whatever comes after is read
  next.
\<close>

definition checked :: "WALEntry \<Rightarrow> bool" where
  "checked e \<longleftrightarrow> entry_fits e \<and> ValidateChecksum e"

lemma ValidateChecksum_to_seconds [simp]: "ValidateChecksum (to_seconds e) = ValidateChecksum e"
  by (simp add: ValidateChecksum_def CalculateChecksum_def to_seconds_def)

lemma read_entries_append:
  "\<forall>e \<in> set es. checked e \<Longrightarrow>
     read_entries (concat (map serializeEntry es) @ r) =
       (case read_entries r of Inl x \<Rightarrow> Inl x | Inr rest \<Rightarrow> Inr (map to_seconds es @ rest))"
proof (induction es)
  case Nil
  then show ?case by (cases "read_entries r") simp_all
next
  case (Cons e es)
  then have e: "entry_fits e" "ValidateChecksum e"
    and IH: "read_entries (concat (map serializeEntry es) @ r) =
       (case read_entries r of Inl x \<Rightarrow> Inl x | Inr rest \<Rightarrow> Inr (map to_seconds es @ rest))"
    by (simp_all add: checked_def)
  show ?case
    using e IH deserialize_serialize [OF e(1), of "concat (map serializeEntry es) @ r"]
    by (subst read_entries.simps) (cases "read_entries r"; simp)
qed

lemma read_entries_Nil [simp]: "read_entries [] = Inr []"
  by (subst read_entries.simps) (simp add: deserializeEntry_def ReadFull_def)

lemma read_entries_records:
  "\<forall>e \<in> set es. checked e \<Longrightarrow> read_entries (concat (map serializeEntry es)) = Inr (map to_seconds es)"
  using read_entries_append [of es "[]"] by simp

text \<open>
  A record that was cut off is an unexpected end, except when exactly its size was written:
  then the second \<open>ReadFull\<close> finds nothing and reports the same \<open>EOF\<close> as at
  the end of the file.
\<close>

lemma deserialize_torn:
  assumes "entry_fits e" "0 < k" "k < length (serializeEntry e)"
  shows "deserializeEntry (take k (serializeEntry e)) = Inl (if k = 4 then EOF else UnexpectedEOF)"
proof (cases "k < 4")
  case True
  then show ?thesis using assms(2,3) by (auto simp: deserializeEntry_def ReadFull_def)
next
  case False
  then have "take 4 (take k (serializeEntry e)) = take 4 (serializeEntry e @ [])" by (simp add: min_def)
  then have "unat (get_u32 (take 4 (take k (serializeEntry e)))) = 33 + length (we_Data e)"
    by (simp only: get_size [OF assms(1)])
  then show ?thesis
    using False assms(2,3)
    by (auto simp: deserializeEntry_def ReadFull_def length_serializeEntry)
qed

lemma read_entries_torn:
  assumes "\<forall>e \<in> set es. checked e" "entry_fits e" "0 < k" "k < length (serializeEntry e)"
  shows "read_entries (concat (map serializeEntry es) @ take k (serializeEntry e)) =
     (if k = 4 then Inr (map to_seconds es) else Inl UnexpectedEOF)"
proof -
  have "read_entries (take k (serializeEntry e)) = (if k = 4 then Inr [] else Inl UnexpectedEOF)"
    using deserialize_torn [OF assms(2-4)] by (subst read_entries.simps) simp
  then show ?thesis using read_entries_append [OF assms(1)] by simp
qed

end
