(* ===== verification/FileWAL.thy ===== *)
theory FileWAL
  imports GoFiles WalCodec
begin

text \<open>
  The file-based write-ahead log of \<open>src/pkg/storage/wal.go\<close>. The log directory is a
  disk whose files are named by their segment number: \<open>segmentPath\<close> prints the number
  into the name \<open>wal-%016d.log\<close> and \<open>listSegments\<close> reads it back. Every method
  runs under the lock, so it is one operation; a method called after \<open>Close\<close> uses the
  nil writer and panics. The clock reading of an append is a parameter.
\<close>

section \<open>State and operations\<close>

abbreviation SegmentSizeBytes :: int where "SegmentSizeBytes \<equiv> 64 * 1024 * 1024"

record FileWAL =
  fw_disk :: "u64 disk"
  fw_currentFile :: "u64 option"
  fw_currentIndex :: u64
  fw_writer :: "u64 Writer option"
  fw_segmentSize :: int

datatype wal_error = WalOS os_error | WalWrite | WalRead read_error | WalPanic go_panic

type_synonym 'a wal = "(FileWAL, wal_error, 'a) io"

definition on_disk :: "(u64, 'a) os \<Rightarrow> 'a wal" where
  "on_disk m w =
     (case m (fw_disk w) of
        (d, Inl e) \<Rightarrow> (w\<lparr>fw_disk := d\<rparr>, Inl (WalOS e))
      | (d, Inr x) \<Rightarrow> (w\<lparr>fw_disk := d\<rparr>, Inr x))"

definition flush_writer :: "unit wal" where
  "flush_writer w =
     (case fw_writer w of
        None \<Rightarrow> (w, Inr ())
      | Some wr \<Rightarrow>
          (case bufio_flush wr (fw_disk w) of
             (d, wr, ok) \<Rightarrow>
               (w\<lparr>fw_disk := d, fw_writer := Some wr\<rparr>, if ok then Inr () else Inl WalWrite)))"

definition write_record :: "bytes \<Rightarrow> unit wal" where
  "write_record data w =
     (case fw_writer w of
        None \<Rightarrow> (w, Inl (WalPanic NilDereference))
      | Some wr \<Rightarrow>
          (case bufio_write data wr (fw_disk w) of
             (d, wr, ok) \<Rightarrow>
               (w\<lparr>fw_disk := d, fw_writer := Some wr\<rparr>, if ok then Inr () else Inl WalWrite)))"

definition wal_sync :: "unit wal" where
  "wal_sync =
     io_then flush_writer (\<lambda>_.
     io_then (io_get fw_currentFile) (\<lambda>file.
     if file \<noteq> None then on_disk os_sync else io_return ()))"

definition closeCurrentFile :: "unit wal" where
  "closeCurrentFile =
     io_then (io_get fw_writer) (\<lambda>writer.
     io_then (if writer \<noteq> None
              then io_then flush_writer (\<lambda>_. io_modify (fw_writer_update (\<lambda>_. None)))
              else io_return ()) (\<lambda>_.
     io_then (io_get fw_currentFile) (\<lambda>file.
     if file \<noteq> None
     then io_then (on_disk os_close) (\<lambda>_. io_modify (fw_currentFile_update (\<lambda>_. None)))
     else io_return ())))"

definition use_segment :: "u64 \<Rightarrow> unit wal" where
  "use_segment index =
     io_modify (\<lambda>w. w\<lparr>fw_currentFile := Some index, fw_currentIndex := index,
                     fw_writer := Some (NewWriter index)\<rparr>)"

definition createSegment :: "u64 \<Rightarrow> unit wal" where
  "createSegment index = io_then (on_disk (os_create_append index)) (\<lambda>_. use_segment index)"

definition openSegment :: "u64 \<Rightarrow> unit wal" where
  "openSegment index = io_then (on_disk (os_open index)) (\<lambda>_. use_segment index)"

definition rotateSegment :: "unit wal" where
  "rotateSegment =
     io_then closeCurrentFile (\<lambda>_.
     io_then (io_modify (\<lambda>w. w\<lparr>fw_currentIndex := fw_currentIndex w + 1\<rparr>)) (\<lambda>_.
     io_then (io_get fw_currentIndex) createSegment))"

text \<open>A failing \<open>Stat\<close> only means that the segment is not rotated.\<close>

definition shouldRotate :: "int \<Rightarrow> bool wal" where
  "shouldRotate nextEntrySize w =
     (case fw_currentFile w of
        None \<Rightarrow> (w, Inr False)
      | Some f \<Rightarrow>
          (case os_size f (fw_disk w) of
             (d, Inl _) \<Rightarrow> (w\<lparr>fw_disk := d\<rparr>, Inr False)
           | (d, Inr sz) \<Rightarrow> (w\<lparr>fw_disk := d\<rparr>, Inr (sz + nextEntrySize > fw_segmentSize w))))"

definition stamp :: "time \<Rightarrow> WALEntry \<Rightarrow> WALEntry" where
  "stamp now entry = entry\<lparr>we_Checksum := CalculateChecksum entry, we_Timestamp := now\<rparr>"

definition appendEntry :: "time \<times> WALEntry \<Rightarrow> unit wal" where
  "appendEntry te =
     (let data = serializeEntry (stamp (fst te) (snd te)) in
      io_then (shouldRotate (int (length data))) (\<lambda>rotate.
      io_then (if rotate then rotateSegment else io_return ()) (\<lambda>_.
      write_record data)))"

definition WAL_Append :: "time \<times> WALEntry \<Rightarrow> unit wal" where
  "WAL_Append te = appendEntry te"

definition WAL_AppendBatch :: "(time \<times> WALEntry) list \<Rightarrow> unit wal" where
  "WAL_AppendBatch tes = io_then (io_each appendEntry tes) (\<lambda>_. wal_sync)"

definition WAL_Sync :: "unit wal" where
  "WAL_Sync = wal_sync"

definition listSegments :: "u64 list wal" where
  "listSegments = on_disk os_readdir"

definition readSegment :: "u64 \<Rightarrow> WALEntry list wal" where
  "readSegment index =
     io_then (on_disk (os_readfile index)) (\<lambda>content.
     case read_entries content of
       Inl e \<Rightarrow> io_fail (WalRead e)
     | Inr entries \<Rightarrow> io_return entries)"

definition WAL_Read :: "u64 \<Rightarrow> WALEntry list wal" where
  "WAL_Read startIndex =
     io_then listSegments (\<lambda>segments.
     io_then (io_collect readSegment segments) (\<lambda>entries.
     io_return (concat (map (filter (\<lambda>e. we_Index e \<ge> startIndex)) entries))))"

definition WAL_ReadAll :: "WALEntry list wal" where
  "WAL_ReadAll = WAL_Read 0"

text \<open>A segment that has gone already is no error.\<close>

definition removeSegment :: "u64 \<Rightarrow> unit wal" where
  "removeSegment index w =
     (case os_remove index (fw_disk w) of
        (d, Inl IOError) \<Rightarrow> (w\<lparr>fw_disk := d\<rparr>, Inl (WalOS IOError))
      | (d, _) \<Rightarrow> (w\<lparr>fw_disk := d\<rparr>, Inr ()))"

definition WAL_Truncate :: "(nat \<Rightarrow> time) \<Rightarrow> u64 \<Rightarrow> unit wal" where
  "WAL_Truncate clock index =
     io_then listSegments (\<lambda>segments.
     io_then (io_collect readSegment segments) (\<lambda>entries.
     let keepEntries = filter (\<lambda>e. we_Index e \<le> index) (concat entries) in
     io_then closeCurrentFile (\<lambda>_.
     io_then listSegments (\<lambda>segments.
     io_then (io_each removeSegment segments) (\<lambda>_.
     io_then (createSegment 0) (\<lambda>_.
     io_then (io_each appendEntry (map2 (\<lambda>i e. (clock i, e)) [0..<length keepEntries] keepEntries)) (\<lambda>_.
     wal_sync)))))))"

definition WAL_Close :: "unit wal" where
  "WAL_Close = closeCurrentFile"

definition closed_wal :: "u64 disk \<Rightarrow> FileWAL" where
  "closed_wal d =
     \<lparr>fw_disk = d, fw_currentFile = None, fw_currentIndex = 0, fw_writer = None,
      fw_segmentSize = SegmentSizeBytes\<rparr>"

definition NewWAL :: "u64 disk \<Rightarrow> FileWAL \<times> (wal_error + unit)" where
  "NewWAL d =
     io_then (on_disk os_mkdirall) (\<lambda>_.
     io_then listSegments (\<lambda>segments.
     if segments \<noteq> []
     then io_then (io_modify (fw_currentIndex_update (\<lambda>_. last segments))) (\<lambda>_. openSegment (last segments))
     else createSegment 0)) (closed_wal d)"


section \<open>The entries a log holds\<close>

text \<open>
  The abstraction: every segment holds the records of a list of entries, the last one together
  with what its writer has buffered; the log is their concatenation. Timestamps are not part of
  it.
\<close>

definition payload :: "WALEntry \<Rightarrow> WALEntryType \<times> u64 \<times> u64 \<times> bytes" where
  "payload e = (we_Type e, we_Index e, we_Term e, we_Data e)"

definition records :: "WALEntry list \<Rightarrow> bytes" where
  "records es = concat (map serializeEntry es)"

abbreviation segments :: "FileWAL \<Rightarrow> u64 set" where
  "segments w \<equiv> dom (dk_files (fw_disk w))"

definition segments_hold :: "(u64 \<Rightarrow> WALEntry list) \<Rightarrow> FileWAL \<Rightarrow> bool" where
  "segments_hold recs w \<longleftrightarrow>
     finite (segments w) \<and> fw_currentFile w = Some (fw_currentIndex w) \<and> fw_currentIndex w \<in> segments w \<and>
     (\<exists>wr. fw_writer w = Some wr \<and> wr_file wr = fw_currentIndex w \<and> \<not> wr_failed wr \<and>
        length (wr_buf wr) \<le> bufio_size \<and>
        contents (fw_currentIndex w) (fw_disk w) @ wr_buf wr = records (recs (fw_currentIndex w))) \<and>
     (\<forall>s \<in> segments w. s \<le> fw_currentIndex w \<and> (\<forall>e \<in> set (recs s). checked e) \<and>
        (s \<noteq> fw_currentIndex w \<longrightarrow> contents s (fw_disk w) = records (recs s)))"

definition entries_of :: "(u64 \<Rightarrow> WALEntry list) \<Rightarrow> FileWAL \<Rightarrow> WALEntry list" where
  "entries_of recs w = concat (map recs (sorted_list_of_set (segments w)))"

definition wal_holds :: "FileWAL \<Rightarrow> (WALEntryType \<times> u64 \<times> u64 \<times> bytes) list \<Rightarrow> bool" where
  "wal_holds w ps \<longleftrightarrow>
     (\<exists>recs. segments_hold recs w \<and> ps = map payload (entries_of recs w)) \<and>
     unat (fw_currentIndex w) \<le> length ps"

definition flushed :: "FileWAL \<Rightarrow> bool" where
  "flushed w \<longleftrightarrow> (\<exists>wr. fw_writer w = Some wr \<and> wr_buf wr = [])"

text \<open>The records of the segments in order are one sequence: only the last one grows.\<close>

lemma sorted_segments:
  assumes "segments_hold recs w"
  obtains ss where "sorted_list_of_set (segments w) = ss @ [fw_currentIndex w]"
    "set ss = segments w - {fw_currentIndex w}" "fw_currentIndex w \<notin> set ss"
proof -
  let ?A = "segments w - {fw_currentIndex w}"
  have fin: "finite ?A" and cur: "fw_currentIndex w \<in> segments w"
    and max: "\<forall>s \<in> ?A. s \<le> fw_currentIndex w" using assms by (auto simp: segments_hold_def)
  have "segments w = insert (fw_currentIndex w) ?A" using cur by blast
  also have "sorted_list_of_set (insert (fw_currentIndex w) ?A) = insort (fw_currentIndex w) (sorted_list_of_set ?A)"
    using fin by (intro sorted_list_of_set_insert) simp_all
  also have "insort (fw_currentIndex w) (sorted_list_of_set ?A) = sorted_list_of_set ?A @ [fw_currentIndex w]"
    using max fin by (intro sorted_insort_is_snoc) simp_all
  finally show thesis using fin by (intro that [of "sorted_list_of_set ?A"]) auto
qed

lemma entries_of_last:
  assumes "segments_hold recs w" "sorted_list_of_set (segments w) = ss @ [fw_currentIndex w]"
  shows "entries_of recs w = concat (map recs ss) @ recs (fw_currentIndex w)"
  using assms by (simp add: entries_of_def)

lemma dom_eq_at: "\<forall>f. f \<noteq> c \<longrightarrow> g f = h f \<Longrightarrow> g c \<noteq> None \<Longrightarrow> h c \<noteq> None \<Longrightarrow> dom g = dom h"
  by (rule set_eqI) (metis domIff)

text \<open>Only the contents of the files matter of a disk.\<close>

lemma segments_hold_disk:
  "dk_files d = dk_files (fw_disk w) \<Longrightarrow>
     segments_hold recs (w\<lparr>fw_disk := d\<rparr>) = segments_hold recs w \<and>
     entries_of recs (w\<lparr>fw_disk := d\<rparr>) = entries_of recs w"
  by (simp add: segments_hold_def entries_of_def contents_def)

lemma shouldRotate_frame:
  "shouldRotate n w = (w', r) \<Longrightarrow> \<exists>b d. r = Inr b \<and> w' = w\<lparr>fw_disk := d\<rparr> \<and> dk_files d = dk_files (fw_disk w)"
  by (auto simp: shouldRotate_def os_size_def os_call_def syscall_def split: option.splits prod.splits sum.splits)
    (metis FileWAL.surjective FileWAL.update_convs(1))+

lemma records_snoc: "records (es @ [e]) = records es @ serializeEntry e"
  by (simp add: records_def)

lemma write_record_holds:
  assumes "segments_hold recs w" "write_record (serializeEntry e) w = (w', Inr ())" "checked e"
  shows "segments_hold (recs(fw_currentIndex w := recs (fw_currentIndex w) @ [e])) w'"
    and "entries_of (recs(fw_currentIndex w := recs (fw_currentIndex w) @ [e])) w' = entries_of recs w @ [e]"
    and "fw_currentIndex w' = fw_currentIndex w"
proof -
  let ?cur = "fw_currentIndex w" and ?recs = "recs(fw_currentIndex w := recs (fw_currentIndex w) @ [e])"
  obtain wr where wr: "fw_writer w = Some wr" "wr_file wr = ?cur" "length (wr_buf wr) \<le> bufio_size"
    "contents ?cur (fw_disk w) @ wr_buf wr = records (recs ?cur)"
    using assms(1) by (auto simp: segments_hold_def)
  obtain d' wr' where b: "bufio_write (serializeEntry e) wr (fw_disk w) = (d', wr', True)"
    and w': "w' = w\<lparr>fw_disk := d', fw_writer := Some wr'\<rparr>"
    using assms(2) wr(1) by (auto simp: write_record_def split: prod.splits if_splits)
  note ok = bufio_write_ok [OF b wr(3), unfolded wr(2)]
  have dom: "dom (dk_files d') = segments w"
    using ok assms(1) by (intro dom_eq_at [of ?cur]) (auto simp: segments_hold_def)
  have "contents ?cur d' @ wr_buf wr' = records (?recs ?cur)"
    using ok wr(4) by (simp add: records_snoc)
  then show "segments_hold ?recs w'"
    using assms(1,3) ok dom unfolding segments_hold_def w' by (auto simp: contents_def)
  obtain ss where ss: "sorted_list_of_set (segments w) = ss @ [?cur]" "?cur \<notin> set ss"
    by (rule sorted_segments [OF assms(1)])
  then have m: "map ?recs ss = map recs ss" by (intro map_cong) auto
  show "entries_of ?recs w' = entries_of recs w @ [e]"
    by (simp add: entries_of_def w' dom ss(1) m)
  show "fw_currentIndex w' = ?cur" by (simp add: w')
qed

text \<open>A closed log: every segment holds whole records.\<close>

definition closed_holds :: "(u64 \<Rightarrow> WALEntry list) \<Rightarrow> FileWAL \<Rightarrow> bool" where
  "closed_holds recs w \<longleftrightarrow>
     finite (segments w) \<and>
     (\<forall>s \<in> segments w. (\<forall>e \<in> set (recs s). checked e) \<and> contents s (fw_disk w) = records (recs s))"

lemma on_disk_Inr [io_simps]:
  "on_disk m w = (w', Inr x) \<longleftrightarrow> (\<exists>d. m (fw_disk w) = (d, Inr x) \<and> w' = w\<lparr>fw_disk := d\<rparr>)"
  by (auto simp: on_disk_def split: prod.splits sum.splits)

lemma os_noop_Inr [io_simps]:
  "os_noop d = (d', Inr ()) \<longleftrightarrow> dk_faults d (dk_calls d) = None \<and> d' = d\<lparr>dk_calls := Suc (dk_calls d)\<rparr>"
  by (auto simp: os_noop_def os_call_Inr)

lemma flush_holds:
  assumes "segments_hold recs w" "flush_writer w = (w', Inr ())"
  shows "segments_hold recs w' \<and> entries_of recs w' = entries_of recs w \<and> flushed w' \<and>
     segments w' = segments w \<and> fw_currentIndex w' = fw_currentIndex w"
proof -
  let ?cur = "fw_currentIndex w"
  obtain wr where wr: "fw_writer w = Some wr" "wr_file wr = ?cur"
    "contents ?cur (fw_disk w) @ wr_buf wr = records (recs ?cur)"
    using assms(1) by (auto simp: segments_hold_def)
  obtain d' wr' where b: "bufio_flush wr (fw_disk w) = (d', wr', True)"
    and w': "w' = w\<lparr>fw_disk := d', fw_writer := Some wr'\<rparr>"
    using assms(2) wr(1) by (auto simp: flush_writer_def split: prod.splits if_splits)
  note ok = bufio_flush_ok [OF b, unfolded wr(2)]
  have dom: "dom (dk_files d') = segments w"
    using ok assms(1) by (intro dom_eq_at [of ?cur]) (auto simp: segments_hold_def)
  have "segments_hold recs w'"
    using assms(1) ok dom wr(3) unfolding segments_hold_def w' by (auto simp: contents_def)
  then show ?thesis using dom ok by (simp add: w' flushed_def entries_of_def)
qed

lemma closeCurrentFile_Inr:
  assumes "closeCurrentFile w = (w', Inr ())"
  obtains w1 where "flush_writer w = (w1, Inr ())" "dk_files (fw_disk w') = dk_files (fw_disk w1)"
    "fw_currentIndex w' = fw_currentIndex w1"
proof -
  have none: "flush_writer w = (w, Inr ())" if "fw_writer w = None" using that by (simp add: flush_writer_def)
  obtain w1 where f: "flush_writer w = (w1, Inr ())"
    and c: "io_then (io_get fw_currentFile) (\<lambda>file. if file \<noteq> None
       then io_then (on_disk os_close) (\<lambda>_. io_modify (fw_currentFile_update (\<lambda>_. None))) else io_return ())
       (w1\<lparr>fw_writer := None\<rparr>) = (w', Inr ())"
  proof (cases "fw_writer w")
    case None
    then have eq: "w\<lparr>fw_writer := None\<rparr> = w" by simp
    show thesis
    proof (rule that [of w])
      show "flush_writer w = (w, Inr ())" using None by (rule none)
    qed (use None assms in \<open>unfold eq, simp add: closeCurrentFile_def io_then_def io_get_def io_return_def\<close>)
  next
    case Some
    then obtain w1 where "flush_writer w = (w1, Inr ())" using assms
      by (auto simp: closeCurrentFile_def io_then_def io_get_def split: prod.splits sum.splits)
    with Some assms show thesis
      by (intro that [of w1]) (simp_all add: closeCurrentFile_def io_then_def io_get_def io_modify_def)
  qed
  have "dk_files (fw_disk w') = dk_files (fw_disk w1) \<and> fw_currentIndex w' = fw_currentIndex w1"
    using c by (cases "fw_currentFile w1") (auto simp: io_simps)
  with f show thesis by (intro that [of w1]) simp_all
qed

lemma close_finite:
  assumes "closeCurrentFile w = (w', Inr ())" "finite (segments w)"
  shows "finite (segments w')"
proof -
  obtain w1 where f: "flush_writer w = (w1, Inr ())" and w': "segments w' = segments w1"
    by (rule closeCurrentFile_Inr [OF assms(1)]) simp
  have "segments w1 \<subseteq> segments w \<union> wr_file ` set_option (fw_writer w)"
  proof (cases "fw_writer w")
    case (Some wr)
    then obtain d wr' where "bufio_flush wr (fw_disk w) = (d, wr', True)" "fw_disk w1 = d"
      using f by (auto simp: flush_writer_def split: prod.splits if_splits)
    then show ?thesis using bufio_flush_ok Some by (force simp: dom_def)
  qed (use f in \<open>auto simp: flush_writer_def\<close>)
  then show ?thesis using assms(2) w' by (auto intro: finite_subset)
qed

lemma close_holds:
  assumes "segments_hold recs w" "closeCurrentFile w = (w', Inr ())"
  shows "closed_holds recs w' \<and> segments w' = segments w \<and> fw_currentIndex w' = fw_currentIndex w"
proof -
  obtain w1 where f: "flush_writer w = (w1, Inr ())" and
    w': "dk_files (fw_disk w') = dk_files (fw_disk w1)" "fw_currentIndex w' = fw_currentIndex w1"
    using closeCurrentFile_Inr [OF assms(2)] assms(1) by (auto simp: segments_hold_def)
  note h = flush_holds [OF assms(1) f]
  have "contents s (fw_disk w1) = records (recs s)" if "s \<in> segments w1" for s
    using h that by (cases "s = fw_currentIndex w1") (auto simp: segments_hold_def flushed_def)
  then have "closed_holds recs w1" using h by (simp add: segments_hold_def closed_holds_def)
  then show ?thesis using h w' by (auto simp: closed_holds_def contents_def)
qed

lemma create_holds:
  assumes "closed_holds recs w" "createSegment i w = (w', Inr ())" "\<forall>s \<in> segments w. s < i"
  shows "segments_hold (recs(i := [])) w'"
    and "entries_of (recs(i := [])) w' = entries_of recs w" "fw_currentIndex w' = i" "flushed w'"
proof -
  have i: "i \<notin> segments w" "dk_files (fw_disk w) i = None" using assms(3) by auto
  define d where "d = (fw_disk w)\<lparr>dk_calls := Suc (dk_calls (fw_disk w)), dk_files := (dk_files (fw_disk w))(i \<mapsto> [])\<rparr>"
  have w': "w' = w\<lparr>fw_disk := d, fw_currentFile := Some i, fw_currentIndex := i, fw_writer := Some (NewWriter i)\<rparr>"
    using assms(2) i(2) by (auto simp: createSegment_def use_segment_def io_simps os_create_append_def os_call_Inr d_def)
  have d: "dk_files d = (dk_files (fw_disk w))(i \<mapsto> [])" by (simp add: d_def)
  have fin: "finite (segments w)" using assms(1) by (simp add: closed_holds_def)
  show "segments_hold (recs(i := [])) w'"
    using assms(1,3) i unfolding segments_hold_def closed_holds_def w'
    by (auto simp: d NewWriter_def contents_def records_def less_imp_le)
  have "sorted_list_of_set (insert i (segments w)) = sorted_list_of_set (segments w) @ [i]"
    using fin i(1) assms(3) by (simp add: sorted_list_of_set_insert sorted_insort_is_snoc less_imp_le)
  then have "entries_of (recs(i := [])) w' = concat (map (recs(i := [])) (sorted_list_of_set (segments w)))"
    by (simp add: entries_of_def w' d)
  also have "map (recs(i := [])) (sorted_list_of_set (segments w)) = map recs (sorted_list_of_set (segments w))"
    using i(1) fin by (intro map_cong) auto
  finally show "entries_of (recs(i := [])) w' = entries_of recs w" unfolding entries_of_def [of recs w] .
qed (use assms(2) in \<open>auto simp: createSegment_def use_segment_def io_simps flushed_def NewWriter_def\<close>)

lemma rotate_holds:
  assumes "segments_hold recs w" "rotateSegment w = (w', Inr ())" "fw_currentIndex w \<noteq> - 1"
  shows "segments_hold (recs(fw_currentIndex w + 1 := [])) w'"
    and "entries_of (recs(fw_currentIndex w + 1 := [])) w' = entries_of recs w"
    and "fw_currentIndex w' = fw_currentIndex w + 1"
proof -
  let ?i = "fw_currentIndex w + 1"
  obtain w1 where c: "closeCurrentFile w = (w1, Inr ())"
    and n: "createSegment (fw_currentIndex w1 + 1) (w1\<lparr>fw_currentIndex := fw_currentIndex w1 + 1\<rparr>) = (w', Inr ())"
    using assms(2) by (auto simp: rotateSegment_def io_simps)
  note h = close_holds [OF assms(1) c]
  have "s < ?i" if "s \<in> segments w" for s
    using assms(1) that u64_less_add_one [OF assms(3)] by (auto simp: segments_hold_def intro: le_less_trans)
  moreover have "closed_holds recs (w1\<lparr>fw_currentIndex := fw_currentIndex w1 + 1\<rparr>)"
    using h by (simp add: closed_holds_def)
  moreover have "entries_of recs (w1\<lparr>fw_currentIndex := fw_currentIndex w1 + 1\<rparr>) = entries_of recs w"
    using h by (simp add: entries_of_def)
  ultimately show "segments_hold (recs(?i := [])) w'" "entries_of (recs(?i := [])) w' = entries_of recs w"
    "fw_currentIndex w' = ?i"
    using create_holds [of recs _ ?i w'] n h by simp_all
qed

text \<open>Appending a record, with or without a new segment.\<close>

lemma payload_stamp [simp]: "payload (stamp now e) = payload e"
  by (simp add: payload_def stamp_def)

lemma payload_to_seconds [simp]: "payload (to_seconds e) = payload e"
  by (simp add: payload_def to_seconds_def)

definition stampable :: "time \<times> WALEntry \<Rightarrow> bool" where
  "stampable te \<longleftrightarrow> length (we_Data (snd te)) + 33 < 2 ^ 32 \<and>
     - (2 ^ 63) \<le> fst te div Second \<and> fst te div Second < 2 ^ 63"

lemma stamp_checked: "stampable te \<Longrightarrow> checked (stamp (fst te) (snd te))"
  by (simp add: stampable_def checked_def entry_fits_def ValidateChecksum_def CalculateChecksum_def stamp_def)

lemma appendEntry_holds:
  assumes "segments_hold recs w" "appendEntry te w = (w', Inr ())" "stampable te" "fw_currentIndex w \<noteq> - 1"
  shows "\<exists>recs'. segments_hold recs' w' \<and> entries_of recs' w' = entries_of recs w @ [stamp (fst te) (snd te)] \<and>
     fw_currentIndex w' \<in> {fw_currentIndex w, fw_currentIndex w + 1}"
proof -
  let ?e = "stamp (fst te) (snd te)"
  obtain w1 rotate w2 where r: "shouldRotate (int (length (serializeEntry ?e))) w = (w1, Inr rotate)"
    and s: "(if rotate then rotateSegment else io_return ()) w1 = (w2, Inr ())"
    and wr: "write_record (serializeEntry ?e) w2 = (w', Inr ())"
    using assms(2) by (auto simp: appendEntry_def Let_def io_simps)
  obtain d where d: "w1 = w\<lparr>fw_disk := d\<rparr>" "dk_files d = dk_files (fw_disk w)"
    using shouldRotate_frame [OF r] by blast
  have h1: "segments_hold recs w1" "entries_of recs w1 = entries_of recs w" "fw_currentIndex w1 = fw_currentIndex w"
    using segments_hold_disk [OF d(2)] assms(1) d(1) by auto
  obtain recs2 where h2: "segments_hold recs2 w2" "entries_of recs2 w2 = entries_of recs w"
    "fw_currentIndex w2 \<in> {fw_currentIndex w, fw_currentIndex w + 1}"
  proof (cases rotate)
    case True
    then show thesis using rotate_holds [OF h1(1), of w2] s h1 assms(4) that by simp
  next
    case False
    then show thesis using s h1 that [of recs] by (simp add: io_simps)
  qed
  show ?thesis
    using write_record_holds [OF h2(1) wr stamp_checked [OF assms(3)]] h2 by auto
qed

lemma appendEntries_holds:
  assumes "segments_hold recs w" "io_each appendEntry tes w = (w', Inr ())" "\<forall>te \<in> set tes. stampable te"
    and "unat (fw_currentIndex w) + length tes < 2 ^ 64"
  shows "\<exists>recs'. segments_hold recs' w' \<and>
     entries_of recs' w' = entries_of recs w @ map (\<lambda>te. stamp (fst te) (snd te)) tes \<and>
     unat (fw_currentIndex w') \<le> unat (fw_currentIndex w) + length tes"
  using assms
proof (induction tes arbitrary: recs w)
  case Nil
  then show ?case by (auto simp: io_simps)
next
  case (Cons te tes)
  obtain w1 where a: "appendEntry te w = (w1, Inr ())" and rest: "io_each appendEntry tes w1 = (w', Inr ())"
    using Cons.prems(2) by (auto simp: io_simps)
  have max: "fw_currentIndex w \<noteq> - 1"
    using Cons.prems(4) by (auto simp: unsigned_minus_1_eq_mask mask_eq_exp_minus_1)
  obtain recs1 where h: "segments_hold recs1 w1"
    "entries_of recs1 w1 = entries_of recs w @ [stamp (fst te) (snd te)]"
    "fw_currentIndex w1 \<in> {fw_currentIndex w, fw_currentIndex w + 1}"
    using appendEntry_holds [OF Cons.prems(1) a _ max] Cons.prems(3) by auto
  then have i: "unat (fw_currentIndex w1) \<le> Suc (unat (fw_currentIndex w))"
    using unat_not_max_u64 [OF max] by (auto simp: unat_Suc_u64)
  have "\<exists>recs'. segments_hold recs' w' \<and>
      entries_of recs' w' = entries_of recs1 w1 @ map (\<lambda>te. stamp (fst te) (snd te)) tes \<and>
      unat (fw_currentIndex w') \<le> unat (fw_currentIndex w1) + length tes"
    by (rule Cons.IH [OF h(1) rest]) (use Cons.prems(3,4) i in auto)
  then show ?case using h(2) i by (auto intro: le_trans)
qed

lemma wal_sync_holds:
  assumes "segments_hold recs w" "wal_sync w = (w', Inr ())"
  shows "segments_hold recs w' \<and> entries_of recs w' = entries_of recs w \<and> flushed w' \<and>
     fw_currentIndex w' = fw_currentIndex w"
proof -
  obtain w1 where f: "flush_writer w = (w1, Inr ())" and
    w': "dk_files (fw_disk w') = dk_files (fw_disk w1)" "w' = w1\<lparr>fw_disk := fw_disk w'\<rparr>"
    using assms(2) by (auto simp: wal_sync_def io_simps split: if_splits)
  have "flushed w' = flushed w1" "fw_currentIndex w' = fw_currentIndex w1"
    by (subst w'(2), simp add: flushed_def)+
  with flush_holds [OF assms(1) f] segments_hold_disk [OF w'(1), of recs] w'(2) show ?thesis by simp
qed

section \<open>Reading and truncating\<close>

text \<open>Operations that read change nothing but the count of system calls.\<close>

definition same_files :: "FileWAL \<Rightarrow> FileWAL \<Rightarrow> bool" where
  "same_files w w' \<longleftrightarrow> dk_files (fw_disk w') = dk_files (fw_disk w) \<and> w' = w\<lparr>fw_disk := fw_disk w'\<rparr>"

lemma same_files_trans: "same_files a b \<Longrightarrow> same_files b c \<Longrightarrow> same_files a c"
  unfolding same_files_def by (metis FileWAL.update_convs(1) FileWAL.surjective FileWAL.select_convs(1))

lemma same_files_hold:
  "same_files w w' \<Longrightarrow> segments_hold recs w' = segments_hold recs w \<and> entries_of recs w' = entries_of recs w \<and>
     flushed w' = flushed w \<and> fw_currentIndex w' = fw_currentIndex w"
  unfolding same_files_def
  using segments_hold_disk [of "fw_disk w'" w recs]
  by (metis FileWAL.select_convs(3,4) FileWAL.surjective FileWAL.update_convs(1) flushed_def)

lemma listSegments_Inr:
  "listSegments w = (w', Inr ss) \<Longrightarrow> same_files w w' \<and> ss = sorted_list_of_set (segments w)"
  by (auto simp: listSegments_def io_simps os_readdir_def os_call_Inr same_files_def)

lemma readSegment_Inr:
  "readSegment i w = (w', Inr es) \<Longrightarrow>
     same_files w w' \<and> read_entries (contents i (fw_disk w)) = Inr es"
  by (cases "dk_files (fw_disk w) i"; cases "read_entries (contents i (fw_disk w))")
    (auto simp: readSegment_def io_simps os_readfile_def os_call_Inr same_files_def contents_def)

lemma readSegments_Inr:
  assumes "io_collect readSegment ss w = (w', Inr ess)"
  shows "same_files w w' \<and> map Inr ess = map (\<lambda>s. read_entries (contents s (fw_disk w))) ss"
  using assms
proof (induction ss arbitrary: w ess)
  case Nil
  then show ?case by (auto simp: io_simps same_files_def)
next
  case (Cons s ss)
  obtain w1 es ess' where r: "readSegment s w = (w1, Inr es)" "io_collect readSegment ss w1 = (w', Inr ess')"
    "ess = es # ess'" using Cons.prems by (auto simp: io_simps)
  note h = readSegment_Inr [OF r(1)]
  then have "contents t (fw_disk w1) = contents t (fw_disk w)" for t by (simp add: contents_def same_files_def)
  then show ?case using Cons.IH [OF r(2)] h r(3) by (auto intro: same_files_trans)
qed

lemma flushed_closed: "segments_hold recs w \<Longrightarrow> flushed w \<Longrightarrow> closed_holds recs w"
proof -
  assume a: "segments_hold recs w" "flushed w"
  have "contents s (fw_disk w) = records (recs s)" if "s \<in> segments w" for s
    using a that by (cases "s = fw_currentIndex w") (auto simp: segments_hold_def flushed_def)
  with a(1) show ?thesis by (simp add: closed_holds_def segments_hold_def)
qed

lemma closed_contents:
  "closed_holds recs w \<Longrightarrow> s \<in> segments w \<Longrightarrow>
     read_entries (contents s (fw_disk w)) = Inr (map to_seconds (recs s))"
  using read_entries_records [of "recs s"] by (auto simp: closed_holds_def records_def)

lemma read_all_segments:
  assumes "closed_holds recs w" "listSegments w = (w1, Inr ss)" "io_collect readSegment ss w1 = (w2, Inr ess)"
  shows "same_files w w2 \<and> concat ess = map to_seconds (entries_of recs w)"
proof -
  note l = listSegments_Inr [OF assms(2)] and r = readSegments_Inr [OF assms(3)]
  have fin: "finite (segments w)" using assms(1) by (simp add: closed_holds_def)
  have "map Inr ess = map (\<lambda>s. read_entries (contents s (fw_disk w))) ss"
    using l r by (simp add: contents_def same_files_def)
  also have "\<dots> = map (\<lambda>s. Inr (map to_seconds (recs s))) ss"
    using l fin by (intro map_cong) (auto simp: closed_contents [OF assms(1)])
  finally have "map Inr ess = (map Inr (map (\<lambda>s. map to_seconds (recs s)) ss) :: (read_error + WALEntry list) list)"
    by (simp add: comp_def)
  then have "ess = map (\<lambda>s. map to_seconds (recs s)) ss"
    by (rule map_injective) (simp add: inj_def)
  then show ?thesis using l r by (auto simp: entries_of_def map_concat comp_def intro: same_files_trans)
qed

lemma WAL_Read_Inr:
  assumes "closed_holds recs w" "WAL_Read i w = (w', Inr es)"
  shows "same_files w w' \<and> es = filter (\<lambda>e. we_Index e \<ge> i) (map to_seconds (entries_of recs w))"
proof -
  obtain w1 ss ess where l: "listSegments w = (w1, Inr ss)" "io_collect readSegment ss w1 = (w', Inr ess)"
    and es: "es = concat (map (filter (\<lambda>e. we_Index e \<ge> i)) ess)"
    using assms(2) by (auto simp: WAL_Read_def io_simps)
  show ?thesis using read_all_segments [OF assms(1) l] by (simp add: es filter_concat [symmetric])
qed

lemma removeSegments_Inr:
  assumes "io_each removeSegment ss w = (w', Inr ())"
  shows "segments w' = segments w - set ss"
  using assms
proof (induction ss arbitrary: w)
  case (Cons s ss)
  obtain w1 where r: "removeSegment s w = (w1, Inr ())" "io_each removeSegment ss w1 = (w', Inr ())"
    using Cons.prems by (auto simp: io_simps)
  have "segments w1 = segments w - {s}"
    using r(1) by (auto simp: removeSegment_def os_remove_def os_call_def syscall_def split: option.splits if_splits)
  then show ?case using Cons.IH [OF r(2)] by auto
qed (simp add: io_simps)

lemma WAL_Truncate_Inr:
  assumes "closed_holds recs w" "WAL_Truncate clock i w = (w', Inr ())"
    and "length (entries_of recs w) < 2 ^ 64"
    and "\<forall>k. - (2 ^ 63) \<le> clock k div Second \<and> clock k div Second < 2 ^ 63"
  shows "wal_holds w' (map payload (filter (\<lambda>e. we_Index e \<le> i) (entries_of recs w))) \<and> flushed w'"
proof -
  define keep where "keep = filter (\<lambda>e. we_Index e \<le> i) (map to_seconds (entries_of recs w))"
  define tes where "tes = map2 (\<lambda>k e. (clock k, e)) [0..<length keep] keep"
  obtain w1 ss ess w2 w3 w4 ss' w5 w6 w7 where
    l: "listSegments w = (w1, Inr ss)" "io_collect readSegment ss w1 = (w2, Inr ess)"
    and c: "closeCurrentFile w2 = (w3, Inr ())" "listSegments w3 = (w4, Inr ss')"
    and r: "io_each removeSegment ss' w4 = (w5, Inr ())" "createSegment 0 w5 = (w6, Inr ())"
    and a: "io_each appendEntry (map2 (\<lambda>k e. (clock k, e)) [0..<length (filter (\<lambda>e. we_Index e \<le> i) (concat ess))]
        (filter (\<lambda>e. we_Index e \<le> i) (concat ess))) w6 = (w7, Inr ())" "wal_sync w7 = (w', Inr ())"
    using assms(2) by (auto simp: WAL_Truncate_def Let_def io_then_Inr)
  have fin: "finite (segments w3)"
  proof -
    have "finite (segments w2)"
      using read_all_segments [OF assms(1) l] assms(1) by (simp add: same_files_def closed_holds_def)
    then show ?thesis by (rule close_finite [OF c(1)])
  qed
  have "segments w5 = {}"
    using removeSegments_Inr [OF r(1)] listSegments_Inr [OF c(2)] fin by (auto simp: same_files_def)
  then have h6: "segments_hold ((\<lambda>_. [])(0 := [])) w6" "entries_of ((\<lambda>_. [])(0 := [])) w6 = []" "fw_currentIndex w6 = 0"
    using create_holds [OF _ r(2), of "\<lambda>_. []"] by (auto simp: closed_holds_def entries_of_def)
  have keep: "filter (\<lambda>e. we_Index e \<le> i) (concat ess) = keep"
    using read_all_segments [OF assms(1) l] by (simp add: keep_def)
  have len: "length tes = length keep" "map snd tes = keep"
    by (simp_all add: tes_def comp_def case_prod_beta)
  have "stampable te" if t: "te \<in> set tes" for te
  proof -
    obtain k e where te: "te = (clock k, e)" "(k, e) \<in> set (zip [0..<length keep] keep)"
      using t by (auto simp: tes_def)
    then have "e \<in> set keep" by (blast dest: set_zip_rightD)
    then obtain e' where "e = to_seconds e'" "e' \<in> set (entries_of recs w)" by (auto simp: keep_def)
    then have "length (we_Data e) + 33 < 2 ^ 32"
      using assms(1) by (auto simp: closed_holds_def entries_of_def checked_def entry_fits_def to_seconds_def)
    then show ?thesis using assms(4) te(1) by (simp add: stampable_def)
  qed
  then have "\<forall>te \<in> set tes. stampable te" by blast
  moreover have "length keep \<le> length (entries_of recs w)" by (simp add: keep_def)
  ultimately obtain recs' where h7: "segments_hold recs' w7"
    "entries_of recs' w7 = map (\<lambda>te. stamp (fst te) (snd te)) tes"
    "unat (fw_currentIndex w7) \<le> length tes"
    using appendEntries_holds [OF h6(1) a(1) [unfolded keep, folded tes_def]] h6(2,3) len(1) assms(3) by auto
  have n: "length tes = length (filter (\<lambda>e. we_Index e \<le> i) (entries_of recs w))"
    by (simp add: len(1) keep_def filter_map comp_def to_seconds_def)
  have "map payload (map (\<lambda>te. stamp (fst te) (snd te)) tes) = map payload (map snd tes)" by simp
  also have "\<dots> = map payload (filter (\<lambda>e. we_Index e \<le> i) (entries_of recs w))"
    by (simp add: len(2) keep_def filter_map comp_def to_seconds_def payload_def)
  finally show ?thesis using wal_sync_holds [OF h7(1) a(2)] h7(2,3) n by (auto simp: wal_holds_def)
qed

text \<open>
  Opening a directory: its last segment becomes the current one, and whole records are found
  again; an empty one gets segment 0.
\<close>

lemma openSegment_Inr:
  "openSegment i w = (w', Inr ()) \<Longrightarrow>
     dk_files (fw_disk w') = dk_files (fw_disk w) \<and> fw_currentFile w' = Some i \<and> fw_currentIndex w' = i \<and>
     fw_writer w' = Some (NewWriter i) \<and> i \<in> segments w"
  by (auto simp: openSegment_def use_segment_def io_simps os_open_def os_call_Inr split: if_splits)

lemma sorted_le_last: "sorted xs \<Longrightarrow> x \<in> set xs \<Longrightarrow> x \<le> last xs"
  by (induction xs) (auto split: if_splits)

lemma NewWAL_existing:
  assumes "closed_holds recs (closed_wal d)" "dom (dk_files d) \<noteq> {}" "NewWAL d = (w, Inr ())"
  shows "segments_hold recs w \<and> entries_of recs w = entries_of recs (closed_wal d) \<and> flushed w \<and>
     fw_currentIndex w = last (sorted_list_of_set (dom (dk_files d)))"
proof -
  have fin: "finite (dom (dk_files d))" using assms(1) by (simp add: closed_holds_def closed_wal_def)
  then have ss: "sorted_list_of_set (dom (dk_files d)) \<noteq> []" using assms(2) by simp
  obtain w1 w2 where m: "on_disk os_mkdirall (closed_wal d) = (w1, Inr ())"
    and l: "listSegments w1 = (w2, Inr (sorted_list_of_set (dom (dk_files d))))"
    and o: "openSegment (last (sorted_list_of_set (dom (dk_files d))))
        (w2\<lparr>fw_currentIndex := last (sorted_list_of_set (dom (dk_files d)))\<rparr>) = (w, Inr ())"
    using assms(3) ss
    by (auto simp: NewWAL_def io_simps listSegments_def os_readdir_def os_call_Inr closed_wal_def split: if_splits)
  have files: "dk_files (fw_disk w2) = dk_files d"
    using m listSegments_Inr [OF l] by (auto simp: io_simps same_files_def closed_wal_def)
  have max: "s \<le> last (sorted_list_of_set (dom (dk_files d)))" if "s \<in> dom (dk_files d)" for s
    using sorted_le_last [of "sorted_list_of_set (dom (dk_files d))" s] that fin by simp
  show ?thesis
    using openSegment_Inr [OF o] files max assms(1) fin
    by (auto simp: segments_hold_def closed_holds_def closed_wal_def entries_of_def flushed_def contents_def NewWriter_def)
qed

section \<open>The log as a list\<close>

text \<open>A log that holds a list of payloads, all of it in its files.\<close>

definition wal_durable :: "FileWAL \<Rightarrow> (WALEntryType \<times> u64 \<times> u64 \<times> bytes) list \<Rightarrow> bool" where
  "wal_durable w ps \<longleftrightarrow> wal_holds w ps \<and> flushed w"

lemma NewWAL_empty:
  assumes "dk_files d = Map.empty" "NewWAL d = (w, Inr ())"
  shows "wal_durable w []"
proof -
  define w1 where "w1 = (closed_wal d)\<lparr>fw_disk := d\<lparr>dk_calls := Suc (Suc (dk_calls d))\<rparr>\<rparr>"
  have w1: "dk_files (fw_disk w1) = Map.empty" using assms(1) by (simp add: w1_def)
  moreover have c: "createSegment 0 w1 = (w, Inr ())"
    using assms by (auto simp: w1_def NewWAL_def io_simps listSegments_def os_readdir_def os_call_Inr closed_wal_def
        split: if_splits)
  ultimately have "closed_holds (\<lambda>_. []) w1" "entries_of (\<lambda>_. []) w1 = []" by (simp_all add: closed_holds_def entries_of_def)
  then show ?thesis using create_holds [of "\<lambda>_. []" w1 0 w] c w1 by (auto simp: wal_durable_def wal_holds_def)
qed

lemma WAL_AppendBatch_durable:
  assumes "wal_holds w ps" "WAL_AppendBatch tes w = (w', Inr ())" "\<forall>te \<in> set tes. stampable te"
    and "length ps + length tes < 2 ^ 64"
  shows "wal_durable w' (ps @ map (payload \<circ> snd) tes)"
proof -
  obtain recs where h: "segments_hold recs w" "ps = map payload (entries_of recs w)"
    "unat (fw_currentIndex w) \<le> length ps" using assms(1) by (auto simp: wal_holds_def)
  obtain w1 where a: "io_each appendEntry tes w = (w1, Inr ())" and s: "wal_sync w1 = (w', Inr ())"
    using assms(2) by (auto simp: WAL_AppendBatch_def io_simps)
  obtain recs' where h': "segments_hold recs' w1"
    "entries_of recs' w1 = entries_of recs w @ map (\<lambda>te. stamp (fst te) (snd te)) tes"
    "unat (fw_currentIndex w1) \<le> unat (fw_currentIndex w) + length tes"
    using appendEntries_holds [OF h(1) a assms(3)] h(3) assms(4) by auto
  have "map payload (entries_of recs' w1) = ps @ map (payload \<circ> snd) tes" using h'(2) h(2) by simp
  then show ?thesis
    using wal_sync_holds [OF h'(1) s] h'(3) h(3) by (auto simp: wal_durable_def wal_holds_def)
qed

lemma WAL_ReadAll_durable:
  assumes "wal_durable w ps" "WAL_ReadAll w = (w', Inr es)"
  shows "map payload es = ps \<and> wal_durable w' ps"
proof -
  obtain recs where h: "segments_hold recs w" "flushed w" "ps = map payload (entries_of recs w)"
    "unat (fw_currentIndex w) \<le> length ps" using assms(1) by (auto simp: wal_durable_def wal_holds_def)
  note r = WAL_Read_Inr [OF flushed_closed [OF h(1,2)] assms(2) [unfolded WAL_ReadAll_def]]
  then have "map payload es = ps" using h(3) by (simp add: comp_def)
  then show ?thesis using r h same_files_hold [of w w' recs] by (auto simp: wal_durable_def wal_holds_def)
qed

lemma WAL_Truncate_durable:
  assumes "wal_durable w ps" "WAL_Truncate clock i w = (w', Inr ())" "length ps < 2 ^ 64"
    and "\<forall>k. - (2 ^ 63) \<le> clock k div Second \<and> clock k div Second < 2 ^ 63"
  shows "wal_durable w' (filter (\<lambda>p. fst (snd p) \<le> i) ps)"
proof -
  obtain recs where h: "segments_hold recs w" "flushed w" "ps = map payload (entries_of recs w)"
    using assms(1) by (auto simp: wal_durable_def wal_holds_def)
  have "filter (\<lambda>p. fst (snd p) \<le> i) ps = map payload (filter (\<lambda>e. we_Index e \<le> i) (entries_of recs w))"
    by (simp add: h(3) filter_map comp_def payload_def)
  then show ?thesis
    using WAL_Truncate_Inr [OF flushed_closed [OF h(1,2)] assms(2) _ assms(4)] assms(3) h(3)
    by (simp add: wal_durable_def)
qed

text \<open>Closing the log and opening its directory again.\<close>

definition WAL_reopen :: "unit wal" where
  "WAL_reopen = io_then WAL_Close (\<lambda>_ w. NewWAL (fw_disk w))"

lemma WAL_reopen_durable:
  assumes "wal_holds w ps" "WAL_reopen w = (w', Inr ())"
  shows "wal_durable w' ps"
proof -
  obtain recs where h: "segments_hold recs w" "ps = map payload (entries_of recs w)"
    "unat (fw_currentIndex w) \<le> length ps" using assms(1) by (auto simp: wal_holds_def)
  obtain w1 where c: "closeCurrentFile w = (w1, Inr ())" and n: "NewWAL (fw_disk w1) = (w', Inr ())"
    using assms(2) by (auto simp: WAL_reopen_def WAL_Close_def io_simps)
  note cl = close_holds [OF h(1) c]
  have ch: "closed_holds recs (closed_wal (fw_disk w1))" and
    e: "entries_of recs (closed_wal (fw_disk w1)) = entries_of recs w"
    using cl by (simp_all add: closed_holds_def closed_wal_def entries_of_def)
  have "fw_currentIndex w \<in> segments w1" using cl h(1) by (simp add: segments_hold_def)
  then have ne: "segments w1 \<noteq> {}" by blast
  obtain ss where "sorted_list_of_set (segments w) = ss @ [fw_currentIndex w]"
    by (rule sorted_segments [OF h(1)])
  then have "last (sorted_list_of_set (segments w1)) = fw_currentIndex w" using cl by simp
  then show ?thesis
    using NewWAL_existing [OF ch ne n] e h(2,3) by (auto simp: wal_durable_def wal_holds_def)
qed


section \<open>Refinement of a list\<close>

text \<open>
  A store of a list: its operations implement functions on the list it holds, and reading gives
  the list. Then any run that reports no error does.
\<close>

fun specified :: "('o \<Rightarrow> 'p list \<Rightarrow> 'p list) \<Rightarrow> ('o \<Rightarrow> 'p list \<Rightarrow> bool) \<Rightarrow> 'o list \<Rightarrow> 'p list \<Rightarrow> bool" where
  "specified spec ok [] ps = True"
| "specified spec ok (op # ops) ps \<longleftrightarrow> ok op ps \<and> specified spec ok ops (spec op ps)"

locale list_store =
  fixes holds :: "'w \<Rightarrow> 'p list \<Rightarrow> bool"
    and exec :: "'o \<Rightarrow> ('w, 'e, unit) io"
    and spec :: "'o \<Rightarrow> 'p list \<Rightarrow> 'p list"
    and ok :: "'o \<Rightarrow> 'p list \<Rightarrow> bool"
    and read_all :: "('w, 'e, 'r list) io"
    and view :: "'r \<Rightarrow> 'p"
  assumes exec_refines: "holds w ps \<Longrightarrow> ok op ps \<Longrightarrow> exec op w = (w', Inr ()) \<Longrightarrow> holds w' (spec op ps)"
    and read_refines: "holds w ps \<Longrightarrow> read_all w = (w', Inr rs) \<Longrightarrow> map view rs = ps"
begin

lemma run_refines:
  "holds w ps \<Longrightarrow> specified spec ok ops ps \<Longrightarrow> io_each exec ops w = (w', Inr ()) \<Longrightarrow>
     holds w' (fold spec ops ps)"
proof (induction ops arbitrary: w ps)
  case (Cons op ops)
  obtain w1 where "exec op w = (w1, Inr ())" "io_each exec ops w1 = (w', Inr ())"
    using Cons.prems(3) by (auto simp: io_then_Inr)
  then show ?case using Cons.IH [of w1 "spec op ps"] Cons.prems(1,2) exec_refines [of w ps op w1] by simp
qed (simp add: io_primitives)

lemma run_read_back:
  assumes "holds w ps" "specified spec ok ops ps"
    and "io_then (io_each exec ops) (\<lambda>_. read_all) w = (w', Inr rs)"
  shows "map view rs = fold spec ops ps"
proof -
  obtain w1 where "io_each exec ops w = (w1, Inr ())" "read_all w1 = (w', Inr rs)"
    using assms(3) by (auto simp: io_then_Inr)
  then show ?thesis using run_refines [OF assms(1,2)] read_refines by blast
qed

end

text \<open>The write-ahead log stores a list of payloads.\<close>

datatype wal_op =
    AppendBatch "(time \<times> WALEntry) list"
  | Truncate "nat \<Rightarrow> time" u64
  | Reopen

definition wal_exec :: "wal_op \<Rightarrow> unit wal" where
  "wal_exec op =
     (case op of AppendBatch tes \<Rightarrow> WAL_AppendBatch tes | Truncate clock i \<Rightarrow> WAL_Truncate clock i
      | Reopen \<Rightarrow> WAL_reopen)"

definition wal_spec ::
  "wal_op \<Rightarrow> (WALEntryType \<times> u64 \<times> u64 \<times> bytes) list \<Rightarrow> (WALEntryType \<times> u64 \<times> u64 \<times> bytes) list" where
  "wal_spec op ps =
     (case op of AppendBatch tes \<Rightarrow> ps @ map (payload \<circ> snd) tes
      | Truncate clock i \<Rightarrow> filter (\<lambda>p. fst (snd p) \<le> i) ps
      | Reopen \<Rightarrow> ps)"

definition wal_op_ok :: "wal_op \<Rightarrow> 'p list \<Rightarrow> bool" where
  "wal_op_ok op ps \<longleftrightarrow>
     (case op of
        AppendBatch tes \<Rightarrow> (\<forall>te \<in> set tes. stampable te) \<and> length ps + length tes < 2 ^ 64
      | Truncate clock i \<Rightarrow>
          length ps < 2 ^ 64 \<and> (\<forall>k. - (2 ^ 63) \<le> clock k div Second \<and> clock k div Second < 2 ^ 63)
      | Reopen \<Rightarrow> True)"

interpretation wal: list_store wal_durable wal_exec wal_spec wal_op_ok WAL_ReadAll payload
proof
  show "wal_durable w' (wal_spec op ps)"
    if "wal_durable w ps" "wal_op_ok op ps" "wal_exec op w = (w', Inr ())" for w ps op w'
  proof (cases op)
    case (AppendBatch tes)
    then show ?thesis
      using that WAL_AppendBatch_durable [of w ps tes w']
      by (simp add: wal_exec_def wal_spec_def wal_op_ok_def wal_durable_def)
  next
    case (Truncate clock i)
    then show ?thesis
      using that WAL_Truncate_durable [of w ps clock i w'] by (simp add: wal_exec_def wal_spec_def wal_op_ok_def)
  next
    case Reopen
    then show ?thesis
      using that WAL_reopen_durable [of w ps w'] by (simp add: wal_exec_def wal_spec_def wal_durable_def)
  qed
  show "map payload rs = ps" if "wal_durable w ps" "WAL_ReadAll w = (w', Inr rs)" for w ps w' rs
    using that WAL_ReadAll_durable by blast
qed

end
