(* ===== verification/WalGuarantees.thy ===== *)
theory WalGuarantees
  imports FileWAL
begin

text \<open>
  Progress of the write-ahead log: on a disk without faults no operation of an open log reports
  an error. With the refinement of \<open>FileWAL\<close>, whatever is appended, truncated and
  reopened is what is read. The last sections treat what a crash and a faulty disk leave.
\<close>

section \<open>The log on a disk without faults\<close>

definition unfailed :: "FileWAL \<Rightarrow> bool" where
  "unfailed w \<longleftrightarrow> fault_free (fw_disk w) \<and> (\<forall>wr. fw_writer w = Some wr \<longrightarrow> \<not> wr_failed wr)"

definition ready :: "FileWAL \<Rightarrow> bool" where
  "ready w \<longleftrightarrow> unfailed w \<and> fw_writer w \<noteq> None"

lemma flush_progress:
  "succeeds unfailed flush_writer (\<lambda>_. unfailed)" "succeeds ready flush_writer (\<lambda>_. ready)"
proof -
  have p: "\<exists>w'. flush_writer w = (w', Inr ()) \<and> unfailed w' \<and> (fw_writer w \<noteq> None \<longrightarrow> fw_writer w' \<noteq> None)"
    if u: "unfailed w" for w
  proof (cases "fw_writer w")
    case (Some wr)
    then obtain d wr' where b: "bufio_flush wr (fw_disk w) = (d, wr', True)" "fault_free d"
      using bufio_flush_fault_free [of "fw_disk w" wr] u unfolding unfailed_def by blast
    then have "\<not> wr_failed wr'" using bufio_flush_ok by blast
    then show ?thesis using Some b by (simp add: flush_writer_def unfailed_def)
  qed (use u in \<open>simp add: flush_writer_def\<close>)
  show "succeeds unfailed flush_writer (\<lambda>_. unfailed)"
    by (rule succeedsI) (use p in blast)
  show "succeeds ready flush_writer (\<lambda>_. ready)"
    by (rule succeedsI) (unfold ready_def, use p in blast)
qed

lemma noop_progress:
  "succeeds ready (on_disk os_noop) (\<lambda>_. ready)" "succeeds unfailed (on_disk os_noop) (\<lambda>_. unfailed)"
  by (auto simp: succeeds_def on_disk_def os_noop_def os_call_fault_free ready_def unfailed_def)

lemma sync_progress: "succeeds ready wal_sync (\<lambda>_. ready)"
  unfolding wal_sync_def
  by (intro succeeds_then [OF flush_progress(2)] succeeds_then [where Q = "\<lambda>_. ready"] succeeds_if
      succeeds_primitives noop_progress)

lemma close_progress: "succeeds unfailed closeCurrentFile (\<lambda>_. unfailed)"
  unfolding closeCurrentFile_def
  by (intro succeeds_then [where Q = "\<lambda>_. unfailed"] succeeds_if succeeds_primitives noop_progress flush_progress)
    (simp_all add: unfailed_def)

lemma use_segment_progress: "succeeds unfailed (use_segment i) (\<lambda>_. ready)"
  unfolding use_segment_def by (intro succeeds_primitives) (simp add: unfailed_def ready_def NewWriter_def)

lemma create_progress: "succeeds unfailed (createSegment i) (\<lambda>_. ready)"
  unfolding createSegment_def
  by (rule succeeds_then [where Q = "\<lambda>_. unfailed", OF _ use_segment_progress])
    (auto simp: succeeds_def on_disk_def os_create_append_def os_call_fault_free unfailed_def split: option.split)

lemma rotate_progress: "succeeds unfailed rotateSegment (\<lambda>_. ready)"
  unfolding rotateSegment_def
  by (intro succeeds_then [where Q = "\<lambda>_. unfailed"] succeeds_primitives close_progress create_progress)
    (simp_all add: unfailed_def)

lemma shouldRotate_progress: "succeeds ready (shouldRotate n) (\<lambda>_. ready)"
  by (auto simp: succeeds_def shouldRotate_def os_size_def os_call_fault_free ready_def unfailed_def split: option.split)

lemma write_progress: "succeeds ready (write_record p) (\<lambda>_. ready)"
proof (rule succeedsI)
  fix w assume "ready w"
  then obtain wr where wr: "fw_writer w = Some wr" "\<not> wr_failed wr" "fault_free (fw_disk w)"
    by (auto simp: ready_def unfailed_def)
  obtain d wr' where "bufio_write p wr (fw_disk w) = (d, wr', True)" "fault_free d"
    using bufio_write_fault_free [OF wr(3,2), of p] by blast
  then show "\<exists>w' x. write_record p w = (w', Inr x) \<and> ready w'"
    using wr(1) bufio_write_unfailed by (fastforce simp: write_record_def ready_def unfailed_def)
qed

lemma ready_unfailed: "ready w \<Longrightarrow> unfailed w"
  by (simp add: ready_def)

lemma appendEntry_progress: "succeeds ready (appendEntry te) (\<lambda>_. ready)"
  unfolding appendEntry_def Let_def
  by (intro succeeds_then [where Q = "\<lambda>_. ready"] succeeds_if shouldRotate_progress write_progress
      succeeds_weaken [OF rotate_progress ready_unfailed] succeeds_primitives)

lemma AppendBatch_progress: "succeeds ready (WAL_AppendBatch tes) (\<lambda>_. ready)"
  unfolding WAL_AppendBatch_def
  by (intro succeeds_then [where Q = "\<lambda>_. ready"] succeeds_each appendEntry_progress sync_progress)


text \<open>Reading needs whole records in every segment.\<close>

definition readable :: "(u64 \<Rightarrow> WALEntry list) \<Rightarrow> u64 set \<Rightarrow> FileWAL \<Rightarrow> bool" where
  "readable recs S w \<longleftrightarrow> closed_holds recs w \<and> ready w \<and> segments w = S"

lemma on_disk_readable:
  "readable recs S w \<Longrightarrow> readable recs S (w\<lparr>fw_disk := (fw_disk w)\<lparr>dk_calls := n\<rparr>\<rparr>)"
  by (simp add: readable_def closed_holds_def ready_def unfailed_def contents_def)

lemma listSegments_progress:
  "succeeds (readable recs S) listSegments (\<lambda>ss w. set ss = S \<and> readable recs S w)"
proof (rule succeedsI)
  fix w assume r: "readable recs S w"
  let ?w = "w\<lparr>fw_disk := (fw_disk w)\<lparr>dk_calls := Suc (dk_calls (fw_disk w))\<rparr>\<rparr>"
  have "listSegments w = (?w, Inr (sorted_list_of_set S))" "finite S"
    using r by (auto simp: listSegments_def on_disk_def os_readdir_def os_call_fault_free readable_def ready_def
        unfailed_def closed_holds_def)
  then show "\<exists>w' ss. listSegments w = (w', Inr ss) \<and> set ss = S \<and> readable recs S w'"
    using on_disk_readable [OF r] by auto
qed

lemma readSegment_progress:
  assumes "i \<in> S"
  shows "succeeds (readable recs S) (readSegment i) (\<lambda>_. readable recs S)"
proof (rule succeedsI)
  fix w assume r: "readable recs S w"
  let ?w = "w\<lparr>fw_disk := (fw_disk w)\<lparr>dk_calls := Suc (dk_calls (fw_disk w))\<rparr>\<rparr>"
  obtain c where c: "dk_files (fw_disk w) i = Some c" using r assms by (auto simp: readable_def)
  have "read_entries c = Inr (map to_seconds (recs i))"
    using closed_contents [of recs w i] r assms c by (simp add: readable_def contents_def)
  then have "readSegment i w = (?w, Inr (map to_seconds (recs i)))"
    using r c by (simp add: readSegment_def io_then_def on_disk_def os_readfile_def os_call_fault_free readable_def
        ready_def unfailed_def io_return_def)
  then show "\<exists>w' es. readSegment i w = (w', Inr es) \<and> readable recs S w'"
    using on_disk_readable [OF r] by auto
qed

lemma readSegments_progress:
  "set ss \<subseteq> S \<Longrightarrow> succeeds (readable recs S) (io_collect readSegment ss) (\<lambda>_. readable recs S)"
  by (rule succeeds_collect) (auto intro: readSegment_progress)

lemma Read_progress: "succeeds (readable recs S) (WAL_Read i) (\<lambda>_. ready)"
  unfolding WAL_Read_def
proof (intro succeeds_then [OF listSegments_progress] succeeds_assuming)
  fix ss :: "u64 list" assume "set ss = S"
  then show "succeeds (readable recs S) (io_then (io_collect readSegment ss)
      (\<lambda>es. io_return (concat (map (filter (\<lambda>e. i \<le> we_Index e)) es)))) (\<lambda>_. ready)"
    by (intro succeeds_then [where Q = "\<lambda>_. readable recs S"] succeeds_return readSegments_progress)
      (simp_all add: readable_def)
qed

lemma list_progress: "succeeds unfailed listSegments (\<lambda>_. unfailed)"
  by (auto simp: succeeds_def listSegments_def on_disk_def os_readdir_def os_call_fault_free unfailed_def)

lemma remove_progress: "succeeds unfailed (removeSegment i) (\<lambda>_. unfailed)"
  by (auto simp: succeeds_def removeSegment_def os_remove_def os_call_fault_free unfailed_def)

lemma Truncate_progress: "succeeds (readable recs S) (WAL_Truncate clock i) (\<lambda>_. ready)"
  unfolding WAL_Truncate_def
proof (intro succeeds_then [OF listSegments_progress] succeeds_assuming)
  fix ss :: "u64 list" assume ss: "set ss = S"
  have rest: "succeeds unfailed (io_then closeCurrentFile (\<lambda>_. io_then listSegments (\<lambda>ss.
      io_then (io_each removeSegment ss) (\<lambda>_. io_then (createSegment 0) (\<lambda>_.
      io_then (io_each appendEntry tes) (\<lambda>_. wal_sync)))))) (\<lambda>_. ready)" for tes
    by (intro succeeds_then [OF close_progress] succeeds_then [OF list_progress]
        succeeds_then [OF succeeds_each [OF remove_progress]] succeeds_then [OF create_progress]
        succeeds_then [OF succeeds_each [OF appendEntry_progress]] sync_progress)
  show "succeeds (readable recs S) (io_then (io_collect readSegment ss) (\<lambda>entries.
      let keepEntries = filter (\<lambda>e. we_Index e \<le> i) (concat entries) in
      io_then closeCurrentFile (\<lambda>_. io_then listSegments (\<lambda>segments.
      io_then (io_each removeSegment segments) (\<lambda>_. io_then (createSegment 0) (\<lambda>_.
      io_then (io_each appendEntry (map2 (\<lambda>i e. (clock i, e)) [0..<length keepEntries] keepEntries))
      (\<lambda>_. wal_sync))))))) (\<lambda>_. ready)"
    unfolding Let_def using ss
    by (intro succeeds_then [where Q = "\<lambda>_. readable recs S"] readSegments_progress
        succeeds_weaken [OF rest]) (simp_all add: readable_def ready_def)
qed

lemma NewWAL_progress:
  assumes "fault_free d" "finite (dom (dk_files d))"
  shows "\<exists>w. NewWAL d = (w, Inr ()) \<and> ready w"
proof -
  let ?P = "\<lambda>w. unfailed w \<and> dk_files (fw_disk w) = dk_files d"
  have m: "succeeds ?P (on_disk os_mkdirall) (\<lambda>_. ?P)"
    by (auto simp: succeeds_def on_disk_def os_noop_def os_call_fault_free unfailed_def)
  have l: "succeeds ?P listSegments (\<lambda>ss w. ss = sorted_list_of_set (dom (dk_files d)) \<and> ?P w)"
    by (auto simp: succeeds_def listSegments_def on_disk_def os_readdir_def os_call_fault_free unfailed_def)
  have o: "succeeds ?P (openSegment i) (\<lambda>_. ready)" if "i \<in> dom (dk_files d)" for i
    unfolding openSegment_def
    by (rule succeeds_then [where Q = "\<lambda>_. unfailed", OF _ use_segment_progress])
      (use that in \<open>auto simp: succeeds_def on_disk_def os_open_def os_call_fault_free unfailed_def\<close>)
  have last: "last ss \<in> dom (dk_files d)" if "ss = sorted_list_of_set (dom (dk_files d))" "ss \<noteq> []" for ss
    using last_in_set [OF that(2)] that(1) assms(2) by simp
  have u: "succeeds ?P (io_modify (fw_currentIndex_update (\<lambda>_. i))) (\<lambda>_. ?P)" for i
    by (intro succeeds_modify) (simp add: unfailed_def)
  have "succeeds ?P (io_then (on_disk os_mkdirall) (\<lambda>_. io_then listSegments (\<lambda>segments.
      if segments \<noteq> []
      then io_then (io_modify (fw_currentIndex_update (\<lambda>_. last segments))) (\<lambda>_. openSegment (last segments))
      else createSegment 0))) (\<lambda>_. ready)"
    by (intro succeeds_then [OF m] succeeds_then [OF l] succeeds_assuming succeeds_if succeeds_then [OF u] o last
        succeeds_weaken [OF create_progress]) auto
  moreover have "?P (closed_wal d)" using assms(1) by (simp add: closed_wal_def unfailed_def)
  ultimately show ?thesis unfolding NewWAL_def by (elim succeedsE) auto
qed

lemma close_fault_free: "succeeds unfailed closeCurrentFile (\<lambda>_ w. fault_free (fw_disk w))"
  by (rule succeeds_weaken [OF close_progress]) (simp_all add: unfailed_def)

lemma reopen_progress: "succeeds (\<lambda>w. ready w \<and> finite (segments w)) WAL_reopen (\<lambda>_. ready)"
proof (rule succeedsI)
  fix w assume w: "ready w \<and> finite (segments w)"
  then obtain w1 where c: "closeCurrentFile w = (w1, Inr ())" "fault_free (fw_disk w1)"
    using succeedsE [OF close_fault_free, of w] by (auto simp: ready_def)
  obtain w2 where "NewWAL (fw_disk w1) = (w2, Inr ())" "ready w2"
    using NewWAL_progress [OF c(2) close_finite [OF c(1)]] w by blast
  then show "\<exists>w' x. WAL_reopen w = (w', Inr x) \<and> ready w'"
    using c(1) by (simp add: WAL_reopen_def WAL_Close_def io_then_def)
qed



section \<open>What was stored is read\<close>

text \<open>
  A list store whose operations, in a state that is \<open>live\<close>, return without an error and
  leave a live state: every run returns the list.
\<close>

locale live_list_store = list_store +
  fixes live :: "'a \<Rightarrow> bool"
  assumes exec_returns: "ok op ps \<Longrightarrow> succeeds (\<lambda>w. holds w ps \<and> live w) (exec op) (\<lambda>_. live)"
    and read_returns: "succeeds (\<lambda>w. holds w ps \<and> live w) read_all (\<lambda>_. live)"
begin

lemma run_returns:
  "specified spec ok ops ps \<Longrightarrow>
     succeeds (\<lambda>w. holds w ps \<and> live w) (io_each exec ops) (\<lambda>_ w. holds w (fold spec ops ps) \<and> live w)"
proof (induction ops arbitrary: ps)
  case (Cons op ops)
  have "succeeds (\<lambda>w. holds w ps \<and> live w) (exec op) (\<lambda>_ w. holds w (spec op ps) \<and> live w)"
  proof (rule succeedsI)
    fix w assume w: "holds w ps \<and> live w"
    have ok: "ok op ps" using Cons.prems by simp
    obtain w' x where e: "exec op w = (w', Inr x)" "live w'" by (rule succeedsE [OF exec_returns [OF ok] w])
    then show "\<exists>w' x. exec op w = (w', Inr x) \<and> holds w' (spec op ps) \<and> live w'"
      using exec_refines [of w ps op w'] w ok by simp
  qed
  then show ?case using Cons.IH [of "spec op ps"] Cons.prems by (auto intro: succeeds_then)
qed auto

lemma run_read_returns:
  assumes "holds w ps" "live w" "specified spec ok ops ps"
  shows "\<exists>w' rs. io_then (io_each exec ops) (\<lambda>_. read_all) w = (w', Inr rs) \<and> map view rs = fold spec ops ps"
proof -
  have "succeeds (\<lambda>w. holds w ps \<and> live w) (io_then (io_each exec ops) (\<lambda>_. read_all)) (\<lambda>_. live)"
    by (rule succeeds_then [OF run_returns [OF assms(3)] read_returns])
  then obtain w' rs where "io_then (io_each exec ops) (\<lambda>_. read_all) w = (w', Inr rs)"
    using assms(1,2) by (elim succeedsE [where s = w]) auto
  then show ?thesis using run_read_back [OF assms(1,3)] by blast
qed

end

lemma wal_durable_readable:
  assumes "wal_durable w ps" "ready w"
  obtains recs where "readable recs (segments w) w"
proof -
  obtain recs where "segments_hold recs w" "flushed w" using assms(1) by (auto simp: wal_durable_def wal_holds_def)
  then show thesis using assms(2) flushed_closed by (intro that) (auto simp: readable_def)
qed

lemma durable_succeeds:
  assumes "\<And>recs S. succeeds (readable recs S) m Q"
  shows "succeeds (\<lambda>w. wal_durable w ps \<and> ready w) m Q"
proof (rule succeedsI)
  fix w assume "wal_durable w ps \<and> ready w"
  then obtain recs where "readable recs (segments w) w" using wal_durable_readable by blast
  then show "\<exists>s' x. m w = (s', Inr x) \<and> Q x s'" using assms unfolding succeeds_def by blast
qed

interpretation wal: live_list_store wal_durable wal_exec wal_spec wal_op_ok WAL_ReadAll payload ready
proof
  show "succeeds (\<lambda>w. wal_durable w ps \<and> ready w) WAL_ReadAll (\<lambda>_. ready)" for ps
    unfolding WAL_ReadAll_def by (rule durable_succeeds [OF Read_progress])
  show "succeeds (\<lambda>w. wal_durable w ps \<and> ready w) (wal_exec op) (\<lambda>_. ready)" if "wal_op_ok op ps" for op and ps
  proof (cases op)
    case (AppendBatch tes)
    then show ?thesis by (simp add: wal_exec_def) (rule succeeds_weaken [OF AppendBatch_progress], simp_all)
  next
    case (Truncate clock i)
    then show ?thesis using durable_succeeds [OF Truncate_progress] by (simp add: wal_exec_def)
  next
    case Reopen
    have "finite (segments w)" if "wal_durable w ps" for w
      using that by (auto simp: wal_durable_def wal_holds_def segments_hold_def)
    then show ?thesis
      unfolding Reopen wal_exec_def wal_op.case by (intro succeeds_weaken [OF reopen_progress]) simp_all
  qed
qed

text \<open>C11: On a disk without faults and with an empty directory, the log opens, every sequence of
  batch appends, truncations and reopenings (closing the log and opening its directory again)
  returns without an error, and reading the log returns exactly the entries that the sequence
  leaves in a list: appended at the end, dropped by a truncation when their index is greater,
  kept by reopening. Type, index, term and data of every entry come back.\<close>

theorem wal_returns_what_was_stored:
  assumes "fault_free d" "dk_files d = Map.empty" "specified wal_spec wal_op_ok ops []"
  shows "\<exists>w w' es. NewWAL d = (w, Inr ()) \<and>
     io_then (io_each wal_exec ops) (\<lambda>_. WAL_ReadAll) w = (w', Inr es) \<and>
     map payload es = fold wal_spec ops []"
proof -
  obtain w where n: "NewWAL d = (w, Inr ())" "ready w" using NewWAL_progress [OF assms(1)] assms(2) by auto
  obtain w' es where "io_then (io_each wal_exec ops) (\<lambda>_. WAL_ReadAll) w = (w', Inr es)"
    "map payload es = fold wal_spec ops []"
    using wal.run_read_returns [OF NewWAL_empty [OF assms(2) n(1)] n(2) assms(3)] by blast
  with n(1) show ?thesis by blast
qed

definition empty_disk :: "u64 disk" where
  "empty_disk = \<lparr>dk_files = Map.empty, dk_faults = \<lambda>_. None, dk_calls = 0\<rparr>"

definition wal_entry :: "u64 \<Rightarrow> u64 \<Rightarrow> bytes \<Rightarrow> WALEntry" where
  "wal_entry index trm data =
     \<lparr>we_Type = WALEntryLog, we_Index = index, we_Term = trm, we_Timestamp = 0, we_Data = data, we_Checksum = 0\<rparr>"

definition wal_example :: "wal_op list" where
  "wal_example =
     [AppendBatch [(0, wal_entry 1 1 [7]), (Second, wal_entry 2 1 [8, 9])], Reopen, Truncate (\<lambda>_. 0) 1,
      AppendBatch [(0, wal_entry 2 3 [])], Reopen]"

lemma wal_example_spec:
  "fold wal_spec wal_example [] = [(WALEntryLog, 1, 1, [7]), (WALEntryLog, 2, 3, [])]"
  "specified wal_spec wal_op_ok wal_example []"
proof -
  have le: "\<not> (2 :: u64) \<le> 1" by (simp add: word_le_nat_alt)
  show "fold wal_spec wal_example [] = [(WALEntryLog, 1, 1, [7]), (WALEntryLog, 2, 3, [])]"
    "specified wal_spec wal_op_ok wal_example []"
    by (simp_all add: wal_example_def wal_op_ok_def wal_spec_def stampable_def wal_entry_def payload_def le)
qed

lemma wal_returns_what_was_stored_witness:
  "\<exists>w w' es. NewWAL empty_disk = (w, Inr ()) \<and>
     io_then (io_each wal_exec wal_example) (\<lambda>_. WAL_ReadAll) w = (w', Inr es) \<and>
     map payload es = [(WALEntryLog, 1, 1, [7]), (WALEntryLog, 2, 3, [])]"
  using wal_returns_what_was_stored [of empty_disk wal_example, OF _ _ wal_example_spec(2)]
  by (simp add: empty_disk_def fault_free_def wal_example_spec(1))



section \<open>Crashes and damage\<close>



text \<open>C31: If one byte of the data of a stored record is damaged, reading its segment reports the
  failed checksum of that record, whatever the records around it.\<close>

theorem damaged_byte_is_detected:
  assumes "\<forall>e \<in> set es. checked e" "checked e" "i < length (we_Data e)" "b \<noteq> we_Data e ! i"
  shows "read_entries (records es @ serializeEntry (e\<lparr>we_Data := (we_Data e)[i := b]\<rparr>) @ rest) =
     Inl (ChecksumFailed (we_Index e))"
proof -
  let ?e = "e\<lparr>we_Data := (we_Data e)[i := b]\<rparr>"
  have fits: "entry_fits ?e" using assms(2) by (simp add: checked_def entry_fits_def)
  have "CalculateChecksum ?e \<noteq> CalculateChecksum e"
  proof -
    let ?pre = "we_Type e # uint64ToBytes (we_Index e) @ uint64ToBytes (we_Term e) @ take i (we_Data e)"
    have old: "CalculateChecksum e = crc32 (?pre @ we_Data e ! i # drop (Suc i) (we_Data e))"
      using id_take_nth_drop [OF assms(3)] by (simp add: CalculateChecksum_def)
    have new: "CalculateChecksum ?e = crc32 (?pre @ b # drop (Suc i) (we_Data e))"
      using assms(3) by (simp add: CalculateChecksum_def upd_conv_take_nth_drop)
    show ?thesis unfolding old new using assms(4) by (simp only: crc32_single_byte not_False_eq_True)
  qed
  then have "\<not> ValidateChecksum ?e"
    using assms(2) by (simp add: checked_def ValidateChecksum_def)
  moreover have "we_Index (to_seconds ?e) = we_Index e" by (simp add: to_seconds_def)
  ultimately have "read_entries (serializeEntry ?e @ rest) = Inl (ChecksumFailed (we_Index e))"
    by (subst read_entries.simps) (simp add: deserialize_serialize [OF fits])
  then show ?thesis unfolding records_def using read_entries_append [OF assms(1)] by simp
qed

lemma damaged_byte_is_detected_witness:
  "read_entries (records [] @ serializeEntry ((stamp 0 (wal_entry 1 1 [7, 8]))\<lparr>we_Data := [7, 9]\<rparr>) @ []) =
     Inl (ChecksumFailed 1)"
  using damaged_byte_is_detected [of "[]" "stamp 0 (wal_entry 1 1 [7, 8])" 1 9 "[]"]
    stamp_checked [of "(0, wal_entry 1 1 [7, 8])"]
  by (simp add: stampable_def wal_entry_def stamp_def)

text \<open>\<open>Append\<close> only puts the record into the buffer of the writer, and \<open>Truncate\<close>
  reads the files: an entry that was appended and acknowledged, but not yet synced, is gone after a
  truncation to an index at or beyond its own.\<close>

theorem truncate_loses_unsynced_entry:
  assumes "wal_durable w ps" "stampable te"
    and "length (serializeEntry (snd te)) \<le> bufio_size"
    and "int (length (contents (fw_currentIndex w) (fw_disk w))) + int bufio_size \<le> fw_segmentSize w"
    and "WAL_Append te w = (w1, Inr ())" "WAL_Truncate clock i w1 = (w2, Inr ())" "length ps < 2 ^ 64"
    and "\<forall>k. - (2 ^ 63) \<le> clock k div Second \<and> clock k div Second < 2 ^ 63"
  shows "wal_durable w2 (filter (\<lambda>p. fst (snd p) \<le> i) ps)"
proof -
  obtain recs where h: "segments_hold recs w" "flushed w" "ps = map payload (entries_of recs w)"
    using assms(1) by (auto simp: wal_durable_def wal_holds_def)
  obtain wr where wr: "fw_writer w = Some wr" "wr_buf wr = []" "\<not> wr_failed wr"
    using h(1,2) by (auto simp: segments_hold_def flushed_def)
  obtain wa rotate wb where r: "shouldRotate (int (length (serializeEntry (stamp (fst te) (snd te))))) w = (wa, Inr rotate)"
    and s: "(if rotate then rotateSegment else io_return ()) wa = (wb, Inr ())"
    and a: "write_record (serializeEntry (stamp (fst te) (snd te))) wb = (w1, Inr ())"
    using assms(5) by (auto simp: WAL_Append_def appendEntry_def Let_def io_simps)
  have len: "length (serializeEntry (stamp (fst te) (snd te))) \<le> bufio_size"
    using assms(3) by (simp add: length_serializeEntry stamp_def)
  have "\<not> rotate"
    using r assms(4) len h(1)
    by (auto simp: shouldRotate_def os_size_def os_call_def syscall_def segments_hold_def contents_def
        split: option.splits prod.splits sum.splits)
  then obtain d where d: "wb = w\<lparr>fw_disk := d\<rparr>" "dk_files d = dk_files (fw_disk w)"
    using shouldRotate_frame [OF r] s by (auto simp: io_simps)
  then have files: "dk_files (fw_disk w1) = dk_files (fw_disk w)"
    using a wr len by (simp add: write_record_def bufio_write_def) auto
  then have "closed_holds recs w1" "entries_of recs w1 = entries_of recs w"
    using flushed_closed [OF h(1,2)] by (simp_all add: closed_holds_def contents_def entries_of_def)
  then show ?thesis
    using WAL_Truncate_Inr [OF _ assms(6) _ assms(8), of recs] assms(7) h(3)
    by (simp add: wal_durable_def filter_map comp_def payload_def)
qed

lemma truncate_loses_unsynced_entry_witness:
  "\<exists>w w1 w2. NewWAL empty_disk = (w, Inr ()) \<and> WAL_Append (0, wal_entry 1 1 [7]) w = (w1, Inr ()) \<and>
     WAL_Truncate (\<lambda>_. 0) 1 w1 = (w2, Inr ()) \<and> wal_durable w2 []"
proof -
  obtain w where n: "NewWAL empty_disk = (w, Inr ())"
    and w: "dk_files (fw_disk w) = [0 \<mapsto> []]" "fw_currentFile w = Some 0" "fw_currentIndex w = 0"
      "fw_writer w = Some (NewWriter 0)" "fw_segmentSize w = SegmentSizeBytes" "fault_free (fw_disk w)"
    by (simp add: NewWAL_def closed_wal_def empty_disk_def io_then_def on_disk_def os_noop_def os_call_def syscall_def
        listSegments_def os_readdir_def createSegment_def use_segment_def os_create_append_def io_modify_def fault_free_def)
  obtain w1 where a: "WAL_Append (0, wal_entry 1 1 [7]) w = (w1, Inr ())"
    and w1: "dk_files (fw_disk w1) = [0 \<mapsto> []]" "ready w1"
    using w
    by (simp add: WAL_Append_def appendEntry_def Let_def io_then_def shouldRotate_def os_size_def os_call_fault_free
        length_serializeEntry stamp_def wal_entry_def io_return_def write_record_def bufio_write_def NewWriter_def
        unfailed_def ready_def)
  have ok: "wal_durable w []" using NewWAL_empty [OF _ n] by (simp add: empty_disk_def)
  have "succeeds (\<lambda>w. w = w1) (WAL_Truncate (\<lambda>_. 0) 1) (\<lambda>_. ready)"
    using Truncate_progress [of "\<lambda>_. []" "{0}" "\<lambda>_. 0" 1] w1
    by (elim succeeds_weaken) (auto simp: readable_def closed_holds_def contents_def records_def)
  then obtain w2 where t: "WAL_Truncate (\<lambda>_. 0) 1 w1 = (w2, Inr ())" by (auto simp: succeeds_def)
  have "wal_durable w2 (filter (\<lambda>p. fst (snd p) \<le> 1) [])"
    by (rule truncate_loses_unsynced_entry [OF ok _ _ _ a t])
      (simp_all add: stampable_def wal_entry_def length_serializeEntry w contents_def)
  then show ?thesis using n a t by auto
qed

end
