(* ===== verification/StorageJson.thy ===== *)
theory StorageJson
  imports WalCodec GoJson
begin

text \<open>
  The JSON coding of the structs the storage package keeps: \<open>LogEntry\<close> and
  \<open>SnapshotMetadata\<close> of \<open>src/pkg/storage/types.go\<close>, by the rules of
  \<open>GoJson\<close>. A time is printed by its own \<open>MarshalJSON\<close>, in RFC 3339 with
  nanoseconds: printing and parsing it is a pair of functions. Encoding does not fail.
\<close>

section \<open>Integers and times\<close>

definition decode_u64 :: "json \<Rightarrow> u64 \<Rightarrow> u64 option" where
  "decode_u64 j old =
     (case j of JNull \<Rightarrow> Some old | JInt i \<Rightarrow> if 0 \<le> i \<and> i < 2 ^ 64 then Some (word_of_int i) else None | _ \<Rightarrow> None)"

definition decode_u32 :: "json \<Rightarrow> u32 \<Rightarrow> u32 option" where
  "decode_u32 j old =
     (case j of JNull \<Rightarrow> Some old | JInt i \<Rightarrow> if 0 \<le> i \<and> i < 2 ^ 32 then Some (word_of_int i) else None | _ \<Rightarrow> None)"

record time_codec =
  time_print :: "time \<Rightarrow> string"
  time_parse :: "string \<Rightarrow> time option"

definition time_ok :: "time_codec \<Rightarrow> time \<Rightarrow> bool" where
  "time_ok tc t \<longleftrightarrow> time_parse tc (time_print tc t) = Some t"

definition decode_time :: "time_codec \<Rightarrow> json \<Rightarrow> time \<Rightarrow> time option" where
  "decode_time tc j old = (case j of JNull \<Rightarrow> Some old | JString s \<Rightarrow> time_parse tc s | _ \<Rightarrow> None)"

lemma decode_u64_uint [simp]: "decode_u64 (JInt (uint v)) old = Some v"
  using unsigned_less [of v] by (simp add: decode_u64_def)

lemma decode_u32_uint [simp]: "decode_u32 (JInt (uint v)) old = Some v"
  using unsigned_less [of v] by (simp add: decode_u32_def)

section \<open>Log entries\<close>

definition entry_json :: "codec \<Rightarrow> StorageLogEntry \<Rightarrow> json" where
  "entry_json c e =
     JObject [(''Term'', JInt (uint (sl_Term e))), (''Index'', JInt (uint (sl_Index e))),
              (''Data'', bytes_json c (sl_Data e)), (''Type'', JInt (sl_Type e))]"

definition marshal_entry :: "codec \<Rightarrow> StorageLogEntry \<Rightarrow> bytes" where
  "marshal_entry c e = json_print c (entry_json c e)"

fun entry_fields :: "codec \<Rightarrow> (string \<times> json) list \<Rightarrow> StorageLogEntry \<Rightarrow> StorageLogEntry option" where
  "entry_fields c [] e = Some e"
| "entry_fields c ((name, j) # rest) e =
     (if same_name name ''Term'' then
        Option.bind (decode_u64 j (sl_Term e)) (\<lambda>v. entry_fields c rest (e\<lparr>sl_Term := v\<rparr>))
      else if same_name name ''Index'' then
        Option.bind (decode_u64 j (sl_Index e)) (\<lambda>v. entry_fields c rest (e\<lparr>sl_Index := v\<rparr>))
      else if same_name name ''Data'' then
        Option.bind (decode_bytes c j) (\<lambda>v. entry_fields c rest (e\<lparr>sl_Data := v\<rparr>))
      else if same_name name ''Type'' then
        Option.bind (decode_int j (sl_Type e)) (\<lambda>v. entry_fields c rest (e\<lparr>sl_Type := v\<rparr>))
      else entry_fields c rest e)"

definition unmarshal_entry :: "codec \<Rightarrow> bytes \<Rightarrow> StorageLogEntry option" where
  "unmarshal_entry c data =
     (let zero = \<lparr>sl_Term = 0, sl_Index = 0, sl_Data = None, sl_Type = 0\<rparr> in
      case json_parse c data of
        Some (JObject kvs) \<Rightarrow> entry_fields c kvs zero
      | Some JNull \<Rightarrow> Some zero
      | _ \<Rightarrow> None)"

text \<open>What the coding of an entry relies on: the codec decodes its text and its data.\<close>

definition entry_ok :: "codec \<Rightarrow> StorageLogEntry \<Rightarrow> bool" where
  "entry_ok c e \<longleftrightarrow> text_ok c (entry_json c e) \<and> b64_ok c (go_slice (sl_Data e)) \<and>
     - (2 ^ 63) \<le> sl_Type e \<and> sl_Type e < 2 ^ 63"

lemma entry_names:
  "same_name ''Term'' ''Term''" "\<not> same_name ''Index'' ''Term''" "same_name ''Index'' ''Index''"
  "\<not> same_name ''Data'' ''Term''" "\<not> same_name ''Data'' ''Index''" "same_name ''Data'' ''Data''"
  "\<not> same_name ''Type'' ''Term''" "\<not> same_name ''Type'' ''Index''" "\<not> same_name ''Type'' ''Data''"
  "same_name ''Type'' ''Type''"
  by code_simp+

lemma unmarshal_marshal_entry: "entry_ok c e \<Longrightarrow> unmarshal_entry c (marshal_entry c e) = Some e"
  by (simp add: unmarshal_entry_def marshal_entry_def entry_json_def entry_ok_def text_ok_def entry_names
      decode_bytes_json decode_int_def)

section \<open>Snapshot metadata\<close>

record SnapshotMetadata =
  sn_Index :: u64
  sn_Term :: u64
  sn_Configuration :: "bytes option"
  sn_Size :: int
  sn_Checksum :: string
  sn_ChecksumCRC32 :: u32
  sn_CreatedAt :: time

text \<open>An empty configuration and a zero CRC-32 are omitted.\<close>

definition snapshot_json :: "codec \<Rightarrow> time_codec \<Rightarrow> SnapshotMetadata \<Rightarrow> json" where
  "snapshot_json c tc m =
     JObject ([(''index'', JInt (uint (sn_Index m))), (''term'', JInt (uint (sn_Term m)))] @
       (if go_slice (sn_Configuration m) = [] then []
        else [(''configuration'', bytes_json c (sn_Configuration m))]) @
       [(''size'', JInt (sn_Size m)), (''checksum'', JString (sn_Checksum m))] @
       (if sn_ChecksumCRC32 m = 0 then [] else [(''checksum_crc32'', JInt (uint (sn_ChecksumCRC32 m)))]) @
       [(''created_at'', JString (time_print tc (sn_CreatedAt m)))])"

definition marshal_snapshot :: "codec \<Rightarrow> time_codec \<Rightarrow> SnapshotMetadata \<Rightarrow> bytes" where
  "marshal_snapshot c tc m = json_print c (snapshot_json c tc m)"

fun snapshot_fields ::
  "codec \<Rightarrow> time_codec \<Rightarrow> (string \<times> json) list \<Rightarrow> SnapshotMetadata \<Rightarrow> SnapshotMetadata option" where
  "snapshot_fields c tc [] m = Some m"
| "snapshot_fields c tc ((name, j) # rest) m =
     (if same_name name ''index'' then
        Option.bind (decode_u64 j (sn_Index m)) (\<lambda>v. snapshot_fields c tc rest (m\<lparr>sn_Index := v\<rparr>))
      else if same_name name ''term'' then
        Option.bind (decode_u64 j (sn_Term m)) (\<lambda>v. snapshot_fields c tc rest (m\<lparr>sn_Term := v\<rparr>))
      else if same_name name ''configuration'' then
        Option.bind (decode_bytes c j) (\<lambda>v. snapshot_fields c tc rest (m\<lparr>sn_Configuration := v\<rparr>))
      else if same_name name ''size'' then
        Option.bind (decode_int j (sn_Size m)) (\<lambda>v. snapshot_fields c tc rest (m\<lparr>sn_Size := v\<rparr>))
      else if same_name name ''checksum'' then
        Option.bind (decode_string j (sn_Checksum m)) (\<lambda>v. snapshot_fields c tc rest (m\<lparr>sn_Checksum := v\<rparr>))
      else if same_name name ''checksum_crc32'' then
        Option.bind (decode_u32 j (sn_ChecksumCRC32 m)) (\<lambda>v. snapshot_fields c tc rest (m\<lparr>sn_ChecksumCRC32 := v\<rparr>))
      else if same_name name ''created_at'' then
        Option.bind (decode_time tc j (sn_CreatedAt m)) (\<lambda>v. snapshot_fields c tc rest (m\<lparr>sn_CreatedAt := v\<rparr>))
      else snapshot_fields c tc rest m)"

text \<open>The zero value of \<open>time.Time\<close> lies before the epoch, in the year 1.\<close>

definition zero_time :: time where
  "zero_time = - 62135596800 * Second"

definition zero_SnapshotMetadata :: SnapshotMetadata where
  "zero_SnapshotMetadata =
     \<lparr>sn_Index = 0, sn_Term = 0, sn_Configuration = None, sn_Size = 0, sn_Checksum = '''',
      sn_ChecksumCRC32 = 0, sn_CreatedAt = zero_time\<rparr>"

definition unmarshal_snapshot :: "codec \<Rightarrow> time_codec \<Rightarrow> bytes \<Rightarrow> SnapshotMetadata option" where
  "unmarshal_snapshot c tc data =
     (case json_parse c data of
        Some (JObject kvs) \<Rightarrow> snapshot_fields c tc kvs zero_SnapshotMetadata
      | Some JNull \<Rightarrow> Some zero_SnapshotMetadata
      | _ \<Rightarrow> None)"

definition snapshot_ok :: "codec \<Rightarrow> time_codec \<Rightarrow> SnapshotMetadata \<Rightarrow> bool" where
  "snapshot_ok c tc m \<longleftrightarrow> text_ok c (snapshot_json c tc m) \<and> b64_ok c (go_slice (sn_Configuration m)) \<and>
     time_ok tc (sn_CreatedAt m) \<and> - (2 ^ 63) \<le> sn_Size m \<and> sn_Size m < 2 ^ 63"

text \<open>An empty configuration comes back as a nil one.\<close>

definition normal_snapshot :: "SnapshotMetadata \<Rightarrow> SnapshotMetadata" where
  "normal_snapshot m =
     m\<lparr>sn_Configuration := (if go_slice (sn_Configuration m) = [] then None else sn_Configuration m)\<rparr>"

lemma snapshot_names:
  "same_name ''index'' ''index''" "\<not> same_name ''term'' ''index''" "same_name ''term'' ''term''"
  "\<not> same_name ''configuration'' ''index''" "\<not> same_name ''configuration'' ''term''"
  "same_name ''configuration'' ''configuration''"
  "\<not> same_name ''size'' ''index''" "\<not> same_name ''size'' ''term''" "\<not> same_name ''size'' ''configuration''"
  "same_name ''size'' ''size''"
  "\<not> same_name ''checksum'' ''index''" "\<not> same_name ''checksum'' ''term''"
  "\<not> same_name ''checksum'' ''configuration''" "\<not> same_name ''checksum'' ''size''"
  "same_name ''checksum'' ''checksum''"
  by code_simp+

lemma snapshot_names':
  "\<not> same_name ''checksum_crc32'' ''index''" "\<not> same_name ''checksum_crc32'' ''term''"
  "\<not> same_name ''checksum_crc32'' ''configuration''" "\<not> same_name ''checksum_crc32'' ''size''"
  "\<not> same_name ''checksum_crc32'' ''checksum''" "same_name ''checksum_crc32'' ''checksum_crc32''"
  "\<not> same_name ''created_at'' ''index''" "\<not> same_name ''created_at'' ''term''"
  "\<not> same_name ''created_at'' ''configuration''" "\<not> same_name ''created_at'' ''size''"
  "\<not> same_name ''created_at'' ''checksum''" "\<not> same_name ''created_at'' ''checksum_crc32''"
  "same_name ''created_at'' ''created_at''"
  by code_simp+

lemma unmarshal_marshal_snapshot:
  "snapshot_ok c tc m \<Longrightarrow> unmarshal_snapshot c tc (marshal_snapshot c tc m) = Some (normal_snapshot m)"
  by (simp add: unmarshal_snapshot_def marshal_snapshot_def snapshot_json_def snapshot_ok_def text_ok_def
      snapshot_names snapshot_names' decode_bytes_json decode_int_def decode_string_def decode_time_def time_ok_def
      zero_SnapshotMetadata_def normal_snapshot_def)

text \<open>Times of no interest, for concrete runs.\<close>

definition epoch_codec :: time_codec where
  "epoch_codec = \<lparr>time_print = (\<lambda>_. ''''), time_parse = (\<lambda>_. Some 0)\<rparr>"

end
