(* ===== verification/BoltStore.thy ===== *)
theory BoltStore
  imports StorageJson "HOL-Library.List_Lexorder"
begin

text \<open>
  The BoltDB-based store of \<open>src/pkg/storage/store.go\<close>. The database \<open>bbolt\<close>
  is a third-party package and a parameter; what the store relies on is its documented
  behaviour, \<open>bolt_laws\<close>. The three buckets exist once \<open>NewBoltStore\<close> has
  returned. Every method runs under the lock of the store. The loops over a cursor end only if
  the cursor moves on, so they are partial functions: \<open>None\<close> is a loop that does not end.
\<close>

section \<open>Keys in byte order\<close>

fun be_value :: "bytes \<Rightarrow> nat" where
  "be_value [] = 0"
| "be_value (b # bs) = unat b * 256 ^ length bs + be_value bs"

lemma be_value_less: "be_value bs < 256 ^ length bs"
proof (induction bs)
  case (Cons b bs)
  have "unat b < 2 ^ 8" using unsigned_less [of b] by simp
  then have "unat b \<le> 255" by simp
  then have "unat b * 256 ^ length bs \<le> 255 * 256 ^ length bs" by (rule mult_le_mono1)
  with Cons show ?case unfolding be_value.simps length_Cons power_Suc by linarith
qed simp

lemma be_value_order: "length xs = length ys \<Longrightarrow> xs < ys \<longleftrightarrow> be_value xs < be_value ys"
proof (induction xs ys rule: list_induct2)
  case (Cons x xs y ys)
  have less: "be_value xs < 256 ^ length ys" "be_value ys < 256 ^ length ys"
    using be_value_less [of xs] be_value_less [of ys] Cons.hyps by simp_all
  have cmp: "unat a * 256 ^ length ys + m < unat b * 256 ^ length ys + n"
    if "a < b" "m < 256 ^ length ys" for a b :: byte and m n
  proof -
    have "Suc (unat a) \<le> unat b" using that(1) by (simp add: word_less_nat_alt)
    then have "Suc (unat a) * 256 ^ length ys \<le> unat b * 256 ^ length ys" by (rule mult_le_mono1)
    then show ?thesis using that(2) by simp
  qed
  consider "x < y" | "x = y" | "y < x" by fastforce
  then show ?case
  proof cases
    case 1
    then show ?thesis using cmp [OF _ less(1)] Cons.hyps by (simp add: Cons_less_Cons)
  next
    case 2
    then show ?thesis using Cons by (simp add: Cons_less_Cons)
  next
    case 3
    then show ?thesis using cmp [OF _ less(2), of y x "be_value xs"] Cons.hyps by (fastforce simp: Cons_less_Cons)
  qed
qed simp

lemma be_value_put_u64: "be_value (put_u64 v) = unat v"
proof -
  let ?n = "unat v"
  have byte: "unat (ucast (drop_bit k v) :: byte) = (?n div 2 ^ k) mod 256" for k
    by (subst unsigned_ucast_eq, subst unat_drop_bit_eq, simp add: drop_bit_eq_div take_bit_eq_mod)
  have low: "unat (ucast v :: byte) = ?n mod 256" using byte [of 0] by simp
  have step: "m = m div 256 * 256 + m mod 256" for m :: nat by simp
  have d: "?n div 2 ^ 8 = ?n div 256" "?n div 2 ^ 16 = ?n div 256 div 256"
    "?n div 2 ^ 24 = ?n div 256 div 256 div 256" "?n div 2 ^ 32 = ?n div 256 div 256 div 256 div 256"
    "?n div 2 ^ 40 = ?n div 256 div 256 div 256 div 256 div 256"
    "?n div 2 ^ 48 = ?n div 256 div 256 div 256 div 256 div 256 div 256"
    "?n div 2 ^ 56 = ?n div 256 div 256 div 256 div 256 div 256 div 256 div 256"
    by (simp_all add: div_mult2_eq [symmetric])
  have "?n < 2 ^ 64" using unsigned_less [of v] by simp
  then have "?n < 256 * 2 ^ 56" by simp
  then have "?n div 2 ^ 56 < 256" by (rule less_mult_imp_div_less)
  then have top: "?n div 256 div 256 div 256 div 256 div 256 div 256 div 256 < 256" unfolding d .
  define a where "a = ?n div 256"
  define b where "b = a div 256"
  define c where "c = b div 256"
  define e where "e = c div 256"
  define f where "f = e div 256"
  define g where "g = f div 256"
  define h where "h = g div 256"
  have eqs: "?n = a * 256 + ?n mod 256" "a = b * 256 + a mod 256" "b = c * 256 + b mod 256" "c = e * 256 + c mod 256"
    "e = f * 256 + e mod 256" "f = g * 256 + f mod 256" "g = h * 256 + g mod 256" "h mod 256 = h"
    using top unfolding a_def b_def c_def e_def f_def g_def h_def by simp_all
  show ?thesis
    unfolding put_u64_def be_value.simps byte low d a_def [symmetric] b_def [symmetric] c_def [symmetric]
      e_def [symmetric] f_def [symmetric] g_def [symmetric] h_def [symmetric]
    using eqs by simp
qed

lemma put_u64_less: "put_u64 v < put_u64 w \<longleftrightarrow> v < w"
  using be_value_order [of "put_u64 v" "put_u64 w"] by (simp add: be_value_put_u64 word_less_nat_alt)

lemma put_u64_le: "put_u64 v \<le> put_u64 w \<longleftrightarrow> v \<le> w"
  by (metis linorder_not_less put_u64_less)


section \<open>The database\<close>

text \<open>
  The database is the third-party package \<open>bbolt\<close>, a parameter: the type \<open>'d\<close>
  of an open database, the type \<open>'t\<close> of what a transaction sees, and the calls the
  store makes. A function given to \<open>Update\<close> that does not return makes \<open>Update\<close>
  not return: \<open>None\<close>.
\<close>

record ('d, 't) bolt =
  bt_view :: "'d \<Rightarrow> string + 't"
  bt_update :: "('t \<Rightarrow> (string + 't) option) \<Rightarrow> 'd \<Rightarrow> ('d \<times> (string + unit)) option"
  bt_create :: "bytes \<Rightarrow> 't \<Rightarrow> string + 't"
  bt_get :: "bytes \<Rightarrow> bytes \<Rightarrow> 't \<Rightarrow> bytes option"
  bt_put :: "bytes \<Rightarrow> bytes \<Rightarrow> bytes \<Rightarrow> 't \<Rightarrow> string + 't"
  bt_delete :: "bytes \<Rightarrow> bytes \<Rightarrow> 't \<Rightarrow> string + 't"
  bt_first :: "bytes \<Rightarrow> 't \<Rightarrow> (bytes \<times> bytes) option"
  bt_last :: "bytes \<Rightarrow> 't \<Rightarrow> (bytes \<times> bytes) option"
  bt_seek :: "bytes \<Rightarrow> bytes \<Rightarrow> 't \<Rightarrow> (bytes \<times> bytes) option"
  bt_next :: "bytes \<Rightarrow> bytes \<Rightarrow> 't \<Rightarrow> (bytes \<times> bytes) option"
  bt_close :: "'d \<Rightarrow> 'd \<times> (string + unit)"

text \<open>
  Its documented behaviour, for the entries \<open>ents t b\<close> of a bucket in a transaction and
  \<open>dents d b\<close> of the committed database, in the order of their keys: reading and the
  cursors agree with the entries, a put or a delete that succeeds changes one key,
  \<open>Update\<close> commits all of what its function did or, if it returns an error, nothing, and
  a transaction sees what was committed.
\<close>

definition bolt_reads :: "('d, 't) bolt \<Rightarrow> ('t \<Rightarrow> bytes \<Rightarrow> (bytes \<times> bytes) list) \<Rightarrow> bool" where
  "bolt_reads B ents \<longleftrightarrow>
     (\<forall>t b. sorted_wrt (<) (map fst (ents t b)) \<and>
        (\<forall>k. bt_get B b k t = map_of (ents t b) k) \<and>
        bt_first B b t = (case ents t b of [] \<Rightarrow> None | e # es \<Rightarrow> Some e) \<and>
        bt_last B b t = (if ents t b = [] then None else Some (last (ents t b))) \<and>
        (\<forall>k. bt_seek B b k t = find (\<lambda>e. k \<le> fst e) (ents t b)) \<and>
        (\<forall>k. bt_next B b k t = find (\<lambda>e. k < fst e) (ents t b)))"

definition bolt_writes :: "('d, 't) bolt \<Rightarrow> ('t \<Rightarrow> bytes \<Rightarrow> (bytes \<times> bytes) list) \<Rightarrow> bool" where
  "bolt_writes B ents \<longleftrightarrow>
     (\<forall>b t t'. bt_create B b t = Inr t' \<longrightarrow> ents t' = ents t) \<and>
     (\<forall>b k v t t'. bt_put B b k v t = Inr t' \<longrightarrow>
        map_of (ents t' b) = (map_of (ents t b))(k \<mapsto> v) \<and> (\<forall>b'. b' \<noteq> b \<longrightarrow> ents t' b' = ents t b')) \<and>
     (\<forall>b k t t'. bt_delete B b k t = Inr t' \<longrightarrow>
        map_of (ents t' b) = (map_of (ents t b))(k := None) \<and> (\<forall>b'. b' \<noteq> b \<longrightarrow> ents t' b' = ents t b'))"

definition bolt_transactions ::
  "('d, 't) bolt \<Rightarrow> ('t \<Rightarrow> bytes \<Rightarrow> (bytes \<times> bytes) list) \<Rightarrow> ('d \<Rightarrow> bytes \<Rightarrow> (bytes \<times> bytes) list) \<Rightarrow> bool" where
  "bolt_transactions B ents dents \<longleftrightarrow>
     (\<forall>d t. bt_view B d = Inr t \<longrightarrow> ents t = dents d) \<and>
     (\<forall>f d. (\<forall>t. ents t = dents d \<longrightarrow> f t \<noteq> None) \<longrightarrow> bt_update B f d \<noteq> None) \<and>
     (\<forall>f d d'. bt_update B f d = Some (d', Inr ()) \<longrightarrow>
        (\<exists>t t'. ents t = dents d \<and> f t = Some (Inr t') \<and> dents d' = ents t')) \<and>
     (\<forall>f d d' e. bt_update B f d = Some (d', Inl e) \<longrightarrow> dents d' = dents d)"

definition bolt_laws ::
  "('d, 't) bolt \<Rightarrow> ('t \<Rightarrow> bytes \<Rightarrow> (bytes \<times> bytes) list) \<Rightarrow> ('d \<Rightarrow> bytes \<Rightarrow> (bytes \<times> bytes) list) \<Rightarrow> bool" where
  "bolt_laws B ents dents \<longleftrightarrow> bolt_reads B ents \<and> bolt_writes B ents \<and> bolt_transactions B ents dents"


section \<open>The store\<close>

record 'd BoltStore =
  bs_db :: 'd

datatype store_error = StoreBolt string | EntryNotFound u64 | UnmarshalFailed | StorePanic go_panic

text \<open>The bytes of a Go string.\<close>

definition string_bytes :: "string \<Rightarrow> bytes" where
  "string_bytes s = map (\<lambda>c. of_nat (of_char c)) s"

definition bytes_string :: "bytes \<Rightarrow> string" where
  "bytes_string b = map (\<lambda>x. char_of (unat x)) b"

definition metadataBucket :: bytes where "metadataBucket = string_bytes ''metadata''"
definition logBucket :: bytes where "logBucket = string_bytes ''log''"
definition snapshotBucket :: bytes where "snapshotBucket = string_bytes ''snapshot''"
definition currentTermKey :: bytes where "currentTermKey = string_bytes ''currentTerm''"
definition votedForKey :: bytes where "votedForKey = string_bytes ''votedFor''"
definition latestKey :: bytes where "latestKey = string_bytes ''latest''"

definition then_do :: "('e + 'a) \<Rightarrow> ('a \<Rightarrow> 'e + 'b) \<Rightarrow> 'e + 'b" where
  "then_do r f = (case r of Inl e \<Rightarrow> Inl e | Inr x \<Rightarrow> f x)"

lemma then_do_simps [simp]: "then_do (Inl e) f = Inl e" "then_do (Inr x) f = f x"
  by (simp_all add: then_do_def)

lemma then_do_Inr: "then_do r f = Inr y \<longleftrightarrow> (\<exists>x. r = Inr x \<and> f x = Inr y)"
  by (cases r) auto

definition store_update ::
  "('d, 't) bolt \<Rightarrow> ('t \<Rightarrow> (string + 't) option) \<Rightarrow> 'd BoltStore \<Rightarrow> ('d BoltStore \<times> (store_error + unit)) option" where
  "store_update B f s =
     (case bt_update B f (bs_db s) of
        None \<Rightarrow> None
      | Some (d, Inl e) \<Rightarrow> Some (s\<lparr>bs_db := d\<rparr>, Inl (StoreBolt e))
      | Some (d, Inr x) \<Rightarrow> Some (s\<lparr>bs_db := d\<rparr>, Inr x))"

definition store_view ::
  "('d, 't) bolt \<Rightarrow> ('t \<Rightarrow> (store_error + 'a) option) \<Rightarrow> 'd BoltStore \<Rightarrow> (store_error + 'a) option" where
  "store_view B f s = (case bt_view B (bs_db s) of Inl e \<Rightarrow> Some (Inl (StoreBolt e)) | Inr t \<Rightarrow> f t)"

text \<open>\<open>opened\<close> is the result of \<open>bolt.Open\<close>; a failed set-up closes the database.\<close>

definition NewBoltStore :: "('d, 't) bolt \<Rightarrow> string + 'd \<Rightarrow> (store_error + 'd BoltStore) option" where
  "NewBoltStore B opened =
     (case opened of
        Inl e \<Rightarrow> Some (Inl (StoreBolt e))
      | Inr db \<Rightarrow>
          (case bt_update B (\<lambda>t. Some (
               then_do (bt_create B metadataBucket t) (\<lambda>t.
               then_do (bt_create B logBucket t) (\<lambda>t.
               bt_create B snapshotBucket t)))) db of
             None \<Rightarrow> None
           | Some (db, Inl e) \<Rightarrow> Some (Inl (StoreBolt e))
           | Some (db, Inr _) \<Rightarrow> Some (Inr \<lparr>bs_db = db\<rparr>)))"

definition SaveMetadata ::
  "('d, 't) bolt \<Rightarrow> Metadata \<Rightarrow> 'd BoltStore \<Rightarrow> ('d BoltStore \<times> (store_error + unit)) option" where
  "SaveMetadata B meta = store_update B (\<lambda>t. Some (
     then_do (bt_put B metadataBucket currentTermKey (put_u64 (md_CurrentTerm meta)) t) (\<lambda>t.
     bt_put B metadataBucket votedForKey (string_bytes (md_VotedFor meta)) t)))"

definition LoadMetadata :: "('d, 't) bolt \<Rightarrow> 'd BoltStore \<Rightarrow> (store_error + Metadata) option" where
  "LoadMetadata B = store_view B (\<lambda>t. Some (
     then_do (case bt_get B metadataBucket currentTermKey t of
                None \<Rightarrow> Inr 0
              | Some termBytes \<Rightarrow>
                  if length termBytes < 8 then Inl (StorePanic IndexOutOfRange) else Inr (get_u64 termBytes))
       (\<lambda>currentTerm.
     let votedFor = (case bt_get B metadataBucket votedForKey t of None \<Rightarrow> '''' | Some b \<Rightarrow> bytes_string b)
     in Inr \<lparr>md_CurrentTerm = currentTerm, md_VotedFor = votedFor\<rparr>)))"

fun put_entries :: "('d, 't) bolt \<Rightarrow> codec \<Rightarrow> StorageLogEntry list \<Rightarrow> 't \<Rightarrow> string + 't" where
  "put_entries B c [] t = Inr t"
| "put_entries B c (entry # entries) t =
     then_do (bt_put B logBucket (uint64ToBytes (sl_Index entry)) (marshal_entry c entry) t)
       (put_entries B c entries)"

definition SaveLogEntries ::
  "('d, 't) bolt \<Rightarrow> codec \<Rightarrow> StorageLogEntry list \<Rightarrow> 'd BoltStore \<Rightarrow>
     ('d BoltStore \<times> (store_error + unit)) option" where
  "SaveLogEntries B c entries = store_update B (\<lambda>t. Some (put_entries B c entries t))"

definition SaveLogEntry ::
  "('d, 't) bolt \<Rightarrow> codec \<Rightarrow> StorageLogEntry \<Rightarrow> 'd BoltStore \<Rightarrow> ('d BoltStore \<times> (store_error + unit)) option" where
  "SaveLogEntry B c entry = SaveLogEntries B c [entry]"

definition LoadLogEntry ::
  "('d, 't) bolt \<Rightarrow> codec \<Rightarrow> u64 \<Rightarrow> 'd BoltStore \<Rightarrow> (store_error + StorageLogEntry) option" where
  "LoadLogEntry B c index = store_view B (\<lambda>t. Some (
     case bt_get B logBucket (uint64ToBytes index) t of
       None \<Rightarrow> Inl (EntryNotFound index)
     | Some data \<Rightarrow>
         (case unmarshal_entry c data of None \<Rightarrow> Inl UnmarshalFailed | Some entry \<Rightarrow> Inr entry)))"

text \<open>
  The loop of the two functions that load several entries. \<open>LoadAllLogEntries\<close> ends with
  the entries; \<open>LoadLogEntries\<close> also at the first key beyond \<open>end\<close>, reading every
  key as an integer.
\<close>

definition past_end :: "u64 option \<Rightarrow> bytes \<Rightarrow> store_error + bool" where
  "past_end bound key =
     (case bound of
        None \<Rightarrow> Inr False
      | Some e \<Rightarrow> if length key < 8 then Inl (StorePanic IndexOutOfRange) else Inr (get_u64 key > e))"

partial_function (option) load_loop ::
  "('d, 't) bolt \<Rightarrow> codec \<Rightarrow> u64 option \<Rightarrow> 't \<Rightarrow> (bytes \<times> bytes) option \<Rightarrow>
     (store_error + StorageLogEntry list) option" where
  "load_loop B c bound t kv =
     (case kv of
        None \<Rightarrow> Some (Inr [])
      | Some (k, v) \<Rightarrow>
          (case past_end bound k of
             Inl e \<Rightarrow> Some (Inl e)
           | Inr past \<Rightarrow>
               if past then Some (Inr [])
               else
                 (case unmarshal_entry c v of
                    None \<Rightarrow> Some (Inl UnmarshalFailed)
                  | Some entry \<Rightarrow>
                      Option.bind (load_loop B c bound t (bt_next B logBucket k t))
                        (\<lambda>r. Some (map_sum id ((#) entry) r)))))"

definition LoadLogEntries ::
  "('d, 't) bolt \<Rightarrow> codec \<Rightarrow> u64 \<Rightarrow> u64 \<Rightarrow> 'd BoltStore \<Rightarrow> (store_error + StorageLogEntry list) option" where
  "LoadLogEntries B c startIndex endIndex = store_view B (\<lambda>t.
     load_loop B c (Some endIndex) t (bt_seek B logBucket (uint64ToBytes startIndex) t))"

definition LoadAllLogEntries ::
  "('d, 't) bolt \<Rightarrow> codec \<Rightarrow> 'd BoltStore \<Rightarrow> (store_error + StorageLogEntry list) option" where
  "LoadAllLogEntries B c = store_view B (\<lambda>t. load_loop B c None t (bt_first B logBucket t))"

partial_function (option) collect_keys ::
  "('d, 't) bolt \<Rightarrow> 't \<Rightarrow> (bytes \<times> bytes) option \<Rightarrow> bytes list option" where
  "collect_keys B t kv =
     (case kv of
        None \<Rightarrow> Some []
      | Some (k, _) \<Rightarrow>
          Option.bind (collect_keys B t (bt_next B logBucket k t)) (\<lambda>keys. Some (k # keys)))"

fun delete_keys :: "('d, 't) bolt \<Rightarrow> bytes list \<Rightarrow> 't \<Rightarrow> string + 't" where
  "delete_keys B [] t = Inr t"
| "delete_keys B (key # keys) t = then_do (bt_delete B logBucket key t) (delete_keys B keys)"

definition DeleteLogEntriesFrom ::
  "('d, 't) bolt \<Rightarrow> u64 \<Rightarrow> 'd BoltStore \<Rightarrow> ('d BoltStore \<times> (store_error + unit)) option" where
  "DeleteLogEntriesFrom B index = store_update B (\<lambda>t.
     Option.bind (collect_keys B t (bt_seek B logBucket (uint64ToBytes index) t))
       (\<lambda>keysToDelete. Some (delete_keys B keysToDelete t)))"

definition key_index :: "(bytes \<times> bytes) option \<Rightarrow> store_error + u64" where
  "key_index kv =
     (case kv of
        None \<Rightarrow> Inr 0
      | Some (k, _) \<Rightarrow> if length k < 8 then Inl (StorePanic IndexOutOfRange) else Inr (get_u64 k))"

definition FirstIndex :: "('d, 't) bolt \<Rightarrow> 'd BoltStore \<Rightarrow> (store_error + u64) option" where
  "FirstIndex B = store_view B (\<lambda>t. Some (key_index (bt_first B logBucket t)))"

definition LastIndex :: "('d, 't) bolt \<Rightarrow> 'd BoltStore \<Rightarrow> (store_error + u64) option" where
  "LastIndex B = store_view B (\<lambda>t. Some (key_index (bt_last B logBucket t)))"

definition SaveSnapshot ::
  "('d, 't) bolt \<Rightarrow> codec \<Rightarrow> time_codec \<Rightarrow> SnapshotMetadata \<Rightarrow> 'd BoltStore \<Rightarrow>
     ('d BoltStore \<times> (store_error + unit)) option" where
  "SaveSnapshot B c tc meta = store_update B (\<lambda>t. Some (
     bt_put B snapshotBucket latestKey (marshal_snapshot c tc meta) t))"

definition LoadSnapshot ::
  "('d, 't) bolt \<Rightarrow> codec \<Rightarrow> time_codec \<Rightarrow> 'd BoltStore \<Rightarrow> (store_error + SnapshotMetadata option) option" where
  "LoadSnapshot B c tc = store_view B (\<lambda>t. Some (
     case bt_get B snapshotBucket latestKey t of
       None \<Rightarrow> Inr None
     | Some data \<Rightarrow>
         (case unmarshal_snapshot c tc data of None \<Rightarrow> Inl UnmarshalFailed | Some meta \<Rightarrow> Inr (Some meta))))"

definition BoltStore_Close :: "('d, 't) bolt \<Rightarrow> 'd BoltStore \<Rightarrow> 'd BoltStore \<times> (store_error + unit)" where
  "BoltStore_Close B s =
     (case bt_close B (bs_db s) of
        (d, Inl e) \<Rightarrow> (s\<lparr>bs_db := d\<rparr>, Inl (StoreBolt e))
      | (d, Inr x) \<Rightarrow> (s\<lparr>bs_db := d\<rparr>, Inr x))"

end
