(* ===== verification/StableStore.thy ===== *)
theory StableStore
  imports BoltStore "HOL-Library.Finite_Map"
begin

text \<open>
  The store as a list of log entries in the order of their indices, the metadata and the
  snapshot: every method that writes changes all of what it should or, when it reports an
  error, nothing, and every method that reads gives what is there. This is the contract
  \<open>atomic_store\<close> and its extension \<open>recoverable_store\<close>, of which the store
  is an interpretation for every database that behaves as documented.
\<close>

section \<open>Cursors\<close>

lemma sorted_keys_unique:
  "sorted_wrt (<) (map fst xs) \<Longrightarrow> sorted_wrt (<) (map fst ys) \<Longrightarrow> map_of xs = map_of ys \<Longrightarrow> xs = ys"
  for xs ys :: "('k :: linorder \<times> 'v) list"
proof -
  assume s: "sorted_wrt (<) (map fst xs)" "sorted_wrt (<) (map fst ys)" and m: "map_of xs = map_of ys"
  have d: "distinct (map fst xs)" "distinct (map fst ys)" using s by (simp_all add: strict_sorted_iff)
  have "set (map fst xs) = set (map fst ys)" using m by (metis dom_map_of_conv_image_fst set_map)
  then have k: "map fst xs = map fst ys" using s by (intro strict_sorted_equal)
  have "map snd xs = map (\<lambda>k. the (map_of xs k)) (map fst xs)"
    "map snd ys = map (\<lambda>k. the (map_of ys k)) (map fst ys)"
    using d by (auto simp: comp_def intro!: map_cong)
  then have "map snd xs = map snd ys" using m k by simp
  with k show "xs = ys" by (metis zip_map_fst_snd)
qed

definition first_of :: "'a list \<Rightarrow> 'a option" where
  "first_of xs = (case xs of [] \<Rightarrow> None | x # _ \<Rightarrow> Some x)"

lemma first_of_simps [simp]: "first_of [] = None" "first_of (x # xs) = Some x"
  by (simp_all add: first_of_def)

lemma find_next:
  "sorted_wrt (<) (map fst (pre @ (k, v) # post)) \<Longrightarrow>
     find (\<lambda>e. k < fst e) (pre @ (k, v) # post) = first_of post"
  for pre post :: "('k :: linorder \<times> 'v) list"
  by (induction pre) (cases post; auto simp: sorted_wrt_append)+

lemma find_seek:
  "sorted_wrt (<) (map fst es) \<Longrightarrow>
     \<exists>pre post. es = pre @ post \<and> find (\<lambda>e. k \<le> fst e) es = first_of post \<and>
       post = filter (\<lambda>e. k \<le> fst e) es"
  for es :: "('k :: linorder \<times> 'v) list"
proof (induction es)
  case (Cons e es)
  show ?case
  proof (cases "k \<le> fst e")
    case True
    then have "filter (\<lambda>e. k \<le> fst e) (e # es) = e # es" using Cons.prems by (fastforce simp: filter_id_conv)
    then show ?thesis using True by (intro exI [of _ "[]"] exI [of _ "e # es"]) simp
  next
    case False
    then obtain pre post where "es = pre @ post" "find (\<lambda>e. k \<le> fst e) es = first_of post"
      "post = filter (\<lambda>e. k \<le> fst e) es" using Cons by auto
    then show ?thesis using False by (intro exI [of _ "e # pre"] exI [of _ post]) simp
  qed
qed simp

section \<open>The content of a store\<close>

record store_content =
  sc_log :: "StorageLogEntry list"
  sc_meta :: Metadata
  sc_snapshot :: "SnapshotMetadata option"

definition stored :: "codec \<Rightarrow> StorageLogEntry \<Rightarrow> bytes \<times> bytes" where
  "stored c e = (put_u64 (sl_Index e), marshal_entry c e)"

definition log_content :: "codec \<Rightarrow> StorageLogEntry list \<Rightarrow> (bytes \<times> bytes) list \<Rightarrow> bool" where
  "log_content c es kvs \<longleftrightarrow>
     kvs = map (stored c) es \<and> sorted_wrt (<) (map sl_Index es) \<and> (\<forall>e \<in> set es. entry_ok c e)"

definition meta_content :: "Metadata \<Rightarrow> (bytes \<times> bytes) list \<Rightarrow> bool" where
  "meta_content m kvs \<longleftrightarrow>
     (map_of kvs currentTermKey = Some (put_u64 (md_CurrentTerm m)) \<and>
      map_of kvs votedForKey = Some (string_bytes (md_VotedFor m))) \<or>
     (map_of kvs currentTermKey = None \<and> map_of kvs votedForKey = None \<and>
      m = \<lparr>md_CurrentTerm = 0, md_VotedFor = ''''\<rparr>)"

definition snapshot_content :: "codec \<Rightarrow> time_codec \<Rightarrow> SnapshotMetadata option \<Rightarrow> (bytes \<times> bytes) list \<Rightarrow> bool" where
  "snapshot_content c tc sn kvs \<longleftrightarrow>
     map_of kvs latestKey = map_option (marshal_snapshot c tc) sn \<and> (\<forall>m. sn = Some m \<longrightarrow> snapshot_ok c tc m)"

definition db_content :: "codec \<Rightarrow> time_codec \<Rightarrow> store_content \<Rightarrow> (bytes \<Rightarrow> (bytes \<times> bytes) list) \<Rightarrow> bool" where
  "db_content c tc a buckets \<longleftrightarrow>
     log_content c (sc_log a) (buckets logBucket) \<and> meta_content (sc_meta a) (buckets metadataBucket) \<and>
     snapshot_content c tc (sc_snapshot a) (buckets snapshotBucket)"

definition store_holds ::
  "('d, 't) bolt \<Rightarrow> ('t \<Rightarrow> bytes \<Rightarrow> (bytes \<times> bytes) list) \<Rightarrow> ('d \<Rightarrow> bytes \<Rightarrow> (bytes \<times> bytes) list) \<Rightarrow>
     codec \<Rightarrow> time_codec \<Rightarrow> 'd BoltStore \<Rightarrow> store_content \<Rightarrow> bool" where
  "store_holds B ents dents c tc s a \<longleftrightarrow> bolt_laws B ents dents \<and> db_content c tc a (dents (bs_db s))"

lemma bucket_names [simp]:
  "logBucket \<noteq> metadataBucket" "logBucket \<noteq> snapshotBucket" "metadataBucket \<noteq> logBucket"
  "metadataBucket \<noteq> snapshotBucket" "snapshotBucket \<noteq> logBucket" "snapshotBucket \<noteq> metadataBucket"
  "votedForKey \<noteq> currentTermKey" "currentTermKey \<noteq> votedForKey"
  by code_simp+

lemma bytes_string_bytes [simp]: "bytes_string (string_bytes s) = s"
proof -
  have "char_of (unat (of_nat (of_char c) :: byte)) = c" for c :: char
    by (simp add: unat_of_nat)
  then show ?thesis by (simp add: bytes_string_def string_bytes_def comp_def)
qed

text \<open>Storing an entry replaces the one of its index.\<close>

fun put_entry :: "StorageLogEntry \<Rightarrow> StorageLogEntry list \<Rightarrow> StorageLogEntry list" where
  "put_entry x [] = [x]"
| "put_entry x (e # es) =
     (if sl_Index x < sl_Index e then x # e # es
      else if sl_Index x = sl_Index e then x # es
      else e # put_entry x es)"

lemma set_put_entry: "set (put_entry x es) \<subseteq> insert x (set es)"
  by (induction es) auto

lemma sorted_put_entry: "sorted_wrt (<) (map sl_Index es) \<Longrightarrow> sorted_wrt (<) (map sl_Index (put_entry x es))"
proof (induction es)
  case (Cons e es)
  have "sl_Index e < sl_Index y" if "sl_Index e \<le> sl_Index x" "sl_Index x \<noteq> sl_Index e" "y \<in> set (put_entry x es)" for y
    using Cons.prems that set_put_entry [of x es] by fastforce
  then show ?case using Cons by (auto simp: not_less)
qed simp

lemma sorted_stored: "sorted_wrt (<) (map fst (map (stored c) es)) = sorted_wrt (<) (map sl_Index es)"
  by (simp add: stored_def sorted_wrt_map put_u64_less comp_def)

lemma map_of_put_entry:
  "sorted_wrt (<) (map sl_Index es) \<Longrightarrow>
     map_of (map (stored c) (put_entry x es)) = (map_of (map (stored c) es))(put_u64 (sl_Index x) \<mapsto> marshal_entry c x)"
proof (induction es)
  case (Cons e es)
  then show ?case by (auto simp: stored_def fun_upd_twist)
qed (simp add: stored_def)

lemma log_content_put:
  assumes "log_content c es kvs" "entry_ok c x" "sorted_wrt (<) (map fst kvs')"
    and "map_of kvs' = (map_of kvs)(put_u64 (sl_Index x) \<mapsto> marshal_entry c x)"
  shows "log_content c (put_entry x es) kvs'"
proof -
  have s: "sorted_wrt (<) (map sl_Index es)" "kvs = map (stored c) es" using assms(1) by (simp_all add: log_content_def)
  have "kvs' = map (stored c) (put_entry x es)"
    by (rule sorted_keys_unique) (use assms(3,4) s in \<open>simp_all only: sorted_stored sorted_put_entry map_of_put_entry\<close>)
  then show ?thesis
    using assms(1,2) sorted_put_entry [OF s(1)] set_put_entry [of x es] by (auto simp: log_content_def)
qed


section \<open>Transactions\<close>

lemma bolt_lawsD:
  assumes "bolt_laws B ents dents"
  shows "\<forall>d t. bt_view B d = Inr t \<longrightarrow> ents t = dents d"
    and "\<forall>f d. (\<forall>t. ents t = dents d \<longrightarrow> f t \<noteq> None) \<longrightarrow> bt_update B f d \<noteq> None"
    and "\<forall>f d d'. bt_update B f d = Some (d', Inr ()) \<longrightarrow>
        (\<exists>t t'. ents t = dents d \<and> f t = Some (Inr t') \<and> dents d' = ents t')"
    and "\<forall>f d d' e. bt_update B f d = Some (d', Inl e) \<longrightarrow> dents d' = dents d"
    and "\<forall>b t t'. bt_create B b t = Inr t' \<longrightarrow> ents t' = ents t"
    and "\<forall>b k v t t'. bt_put B b k v t = Inr t' \<longrightarrow>
        map_of (ents t' b) = (map_of (ents t b))(k \<mapsto> v) \<and> (\<forall>b'. b' \<noteq> b \<longrightarrow> ents t' b' = ents t b')"
    and "\<forall>b k t t'. bt_delete B b k t = Inr t' \<longrightarrow>
        map_of (ents t' b) = (map_of (ents t b))(k := None) \<and> (\<forall>b'. b' \<noteq> b \<longrightarrow> ents t' b' = ents t b')"
  using assms unfolding bolt_laws_def bolt_transactions_def bolt_writes_def by - (elim conjE, assumption)+

lemma store_update_eq:
  "store_update B f s =
     map_option (\<lambda>r. (s\<lparr>bs_db := fst r\<rparr>, map_sum StoreBolt id (snd r))) (bt_update B f (bs_db s))"
proof (cases "bt_update B f (bs_db s)")
  case (Some r)
  obtain d x where "r = (d, x)" by (cases r)
  with Some show ?thesis by (cases x) (simp_all add: store_update_def)
qed (simp add: store_update_def)

lemma store_update_Inr:
  assumes "bolt_laws B ents dents" "store_update B f s = Some (s', Inr ())"
  shows "\<exists>t t'. ents t = dents (bs_db s) \<and> f t = Some (Inr t') \<and> dents (bs_db s') = ents t'"
proof -
  obtain d x where r: "bt_update B f (bs_db s) = Some (d, x)" "s' = s\<lparr>bs_db := d\<rparr>" "map_sum StoreBolt id x = Inr ()"
    using assms(2) unfolding store_update_eq by (cases "bt_update B f (bs_db s)") auto
  then have d: "bt_update B f (bs_db s) = Some (d, Inr ())" by (cases x) simp_all
  then show ?thesis using bolt_lawsD(3) [OF assms(1), rule_format, OF d] r(2) by simp
qed

lemma store_update_Inl:
  assumes "bolt_laws B ents dents" "store_update B f s = Some (s', Inl e)"
  shows "dents (bs_db s') = dents (bs_db s)"
proof -
  obtain d x where r: "bt_update B f (bs_db s) = Some (d, x)" "s' = s\<lparr>bs_db := d\<rparr>" "map_sum StoreBolt id x = Inl e"
    using assms(2) unfolding store_update_eq by (cases "bt_update B f (bs_db s)") auto
  then obtain e' where d: "bt_update B f (bs_db s) = Some (d, Inl e')" by (cases x) simp_all
  show ?thesis using bolt_lawsD(4) [OF assms(1), rule_format, OF d] r(2) by simp
qed

lemma store_update_returns:
  assumes "bolt_laws B ents dents" "\<And>t. ents t = dents (bs_db s) \<Longrightarrow> f t \<noteq> None"
  shows "store_update B f s \<noteq> None"
proof -
  have "bt_update B f (bs_db s) \<noteq> None" by (rule bolt_lawsD(2) [OF assms(1), rule_format]) (rule assms(2))
  then show ?thesis by (simp add: store_update_eq)
qed

lemma store_view_result:
  assumes "bolt_laws B ents dents" "\<And>t. ents t = dents (bs_db s) \<Longrightarrow> f t = r"
  shows "store_view B f s = r \<or> (\<exists>e. store_view B f s = Some (Inl (StoreBolt e)))"
proof (cases "bt_view B (bs_db s)")
  case (Inr t)
  then have "ents t = dents (bs_db s)" by (rule bolt_lawsD(1) [OF assms(1), rule_format])
  with Inr show ?thesis using assms(2) by (simp add: store_view_def)
qed (simp add: store_view_def)

text \<open>What the calls of the database do with its entries.\<close>

lemma bolt_readsD:
  assumes "bolt_laws B ents dents"
  shows "sorted_wrt (<) (map fst (ents t b))" "bt_get B b k t = map_of (ents t b) k"
    "bt_first B b t = first_of (ents t b)" "bt_last B b t = (if ents t b = [] then None else Some (last (ents t b)))"
    "bt_seek B b k t = find (\<lambda>e. k \<le> fst e) (ents t b)" "bt_next B b k t = find (\<lambda>e. k < fst e) (ents t b)"
proof -
  have "bolt_reads B ents" using assms unfolding bolt_laws_def by (elim conjE)
  then show "sorted_wrt (<) (map fst (ents t b))" "bt_get B b k t = map_of (ents t b) k"
    "bt_first B b t = first_of (ents t b)" "bt_last B b t = (if ents t b = [] then None else Some (last (ents t b)))"
    "bt_seek B b k t = find (\<lambda>e. k \<le> fst e) (ents t b)" "bt_next B b k t = find (\<lambda>e. k < fst e) (ents t b)"
    unfolding bolt_reads_def first_of_def by simp_all
qed

lemma bolt_putD:
  assumes "bolt_laws B ents dents" "bt_put B b k v t = Inr t'"
  shows "map_of (ents t' b) = (map_of (ents t b))(k \<mapsto> v)" "b' \<noteq> b \<Longrightarrow> ents t' b' = ents t b'"
  using bolt_lawsD(6) [OF assms(1), rule_format, OF assms(2)] by simp_all

lemma bolt_deleteD:
  assumes "bolt_laws B ents dents" "bt_delete B b k t = Inr t'"
  shows "map_of (ents t' b) = (map_of (ents t b))(k := None)" "b' \<noteq> b \<Longrightarrow> ents t' b' = ents t b'"
  using bolt_lawsD(7) [OF assms(1), rule_format, OF assms(2)] by simp_all

section \<open>Writing\<close>

lemma put_entries_content:
  assumes "bolt_laws B ents dents"
  shows "log_content c es (ents t logBucket) \<Longrightarrow> \<forall>x \<in> set xs. entry_ok c x \<Longrightarrow> put_entries B c xs t = Inr t' \<Longrightarrow>
     log_content c (fold put_entry xs es) (ents t' logBucket) \<and> (\<forall>b. b \<noteq> logBucket \<longrightarrow> ents t' b = ents t b)"
proof (induction xs arbitrary: t es)
  case (Cons x xs)
  obtain t1 where p: "bt_put B logBucket (put_u64 (sl_Index x)) (marshal_entry c x) t = Inr t1"
    "put_entries B c xs t1 = Inr t'"
    using Cons.prems(3) by (auto simp: then_do_Inr uint64ToBytes_eq)
  have "log_content c (put_entry x es) (ents t1 logBucket)"
    using Cons.prems(1,2) bolt_putD(1) [OF assms p(1)] bolt_readsD(1) [OF assms]
    by (intro log_content_put [of c es "ents t logBucket"]) simp_all
  then show ?case using Cons.IH [of "put_entry x es" t1] Cons.prems(2) p(2) bolt_putD(2) [OF assms p(1)] by simp
qed simp

lemma collect_keys_content:
  fixes B :: "('d, 't) bolt"
  assumes "bolt_laws B ents dents" "ents t logBucket = pre @ post"
  shows "collect_keys B t (first_of post) = Some (map fst post)"
  using assms(2)
proof (induction post arbitrary: pre)
  case Nil
  then show ?case by (simp add: collect_keys.simps)
next
  case (Cons e post)
  have "bt_next B logBucket (fst e) t = first_of post"
    using bolt_readsD(1,6) [OF assms(1), where t = t and b = logBucket] find_next [of pre "fst e" "snd e" post] Cons.prems by simp
  moreover have "collect_keys B t (first_of post) = Some (map fst post)"
    using Cons.IH [of "pre @ [e]"] Cons.prems by simp
  ultimately show ?case by (cases e) (simp add: collect_keys.simps [of B t "Some e" for e])
qed

lemma delete_keys_content:
  assumes "bolt_laws B ents dents"
  shows "delete_keys B keys t = Inr t' \<Longrightarrow>
     map_of (ents t' logBucket) = (map_of (ents t logBucket)) |` (- set keys) \<and>
     (\<forall>b. b \<noteq> logBucket \<longrightarrow> ents t' b = ents t b)"
proof (induction keys arbitrary: t)
  case (Cons k keys)
  obtain t1 where p: "bt_delete B logBucket k t = Inr t1" "delete_keys B keys t1 = Inr t'"
    using Cons.prems by (auto simp: then_do_Inr)
  have "map_of (ents t' logBucket) = (map_of (ents t logBucket))(k := None) |` (- set keys)"
    using Cons.IH [OF p(2)] by (simp only: bolt_deleteD(1) [OF assms p(1)])
  also have "\<dots> = (map_of (ents t logBucket)) |` (- set (k # keys))"
    by (rule ext) (simp add: restrict_map_def)
  finally have m: "map_of (ents t' logBucket) = (map_of (ents t logBucket)) |` (- set (k # keys))" .
  have "ents t' b = ents t b" if "b \<noteq> logBucket" for b
    using Cons.IH [OF p(2)] bolt_deleteD(2) [OF assms p(1) that] that by simp
  with m show ?case by blast
qed (simp add: restrict_map_def)

lemma log_content_delete:
  assumes "log_content c es kvs" "sorted_wrt (<) (map fst kvs')"
    and "map_of kvs' = (map_of kvs) |` (- {k. k \<in> fst ` set kvs \<and> put_u64 i \<le> k})"
  shows "log_content c (filter (\<lambda>e. sl_Index e < i) es) kvs'"
proof -
  have s: "sorted_wrt (<) (map sl_Index es)" and kvs: "kvs = map (stored c) es"
    using assms(1) by (simp_all add: log_content_def)
  have f: "sorted_wrt (<) (map sl_Index (filter P es))" for P
    using s by (simp add: sorted_wrt_map sorted_wrt_filter)
  have "map_of (map (stored c) (filter (\<lambda>e. sl_Index e < i) es)) k = map_of kvs' k" for k
  proof -
    have "map_of (map (stored c) (filter (\<lambda>e. sl_Index e < i) es)) k =
        (if k < put_u64 i then map_of (map (stored c) es) k else None)"
      by (induction es) (auto simp: stored_def [abs_def] put_u64_less)
    also have "\<dots> = map_of kvs' k"
    proof (cases "k < put_u64 i")
      case False
      then have "map_of kvs' k = None"
        using assms(3) by (cases "k \<in> fst ` set kvs") (auto simp: restrict_map_def map_of_eq_None_iff not_less)
      with False show ?thesis by simp
    qed (simp add: assms(3) restrict_map_def kvs not_le)
    finally show ?thesis .
  qed
  then have "kvs' = map (stored c) (filter (\<lambda>e. sl_Index e < i) es)"
    by (intro sorted_keys_unique assms(2)) (auto simp: sorted_stored f simp del: map_map)
  then show ?thesis using assms(1) f by (simp add: log_content_def)
qed


section \<open>Reading\<close>

lemma unmarshal_stored: "entry_ok c e \<Longrightarrow> unmarshal_entry c (snd (stored c e)) = Some e"
  by (simp add: stored_def unmarshal_marshal_entry)

definition within :: "u64 option \<Rightarrow> StorageLogEntry \<Rightarrow> bool" where
  "within bound e \<longleftrightarrow> (case bound of None \<Rightarrow> True | Some b \<Rightarrow> sl_Index e \<le> b)"

lemma past_end_stored: "past_end bound (fst (stored c e)) = Inr (\<not> within bound e)"
  by (cases bound) (simp_all add: past_end_def stored_def within_def not_le)

lemma load_loop_content:
  fixes B :: "('d, 't) bolt"
  assumes "bolt_laws B ents dents" "log_content c (pre @ post) (ents t logBucket)"
  shows "load_loop B c bound t (first_of (map (stored c) post)) = Some (Inr (filter (within bound) post))"
  using assms(2)
proof (induction post arbitrary: pre)
  case Nil
  then show ?case by (simp add: load_loop.simps)
next
  case (Cons e post)
  have kvs: "ents t logBucket = map (stored c) pre @ (fst (stored c e), snd (stored c e)) # map (stored c) post"
    and s: "sorted_wrt (<) (map sl_Index (pre @ e # post))" and ok: "entry_ok c e"
    using Cons.prems by (simp_all add: log_content_def)
  have nxt: "bt_next B logBucket (fst (stored c e)) t = first_of (map (stored c) post)"
    using bolt_readsD(1,6) [OF assms(1), where t = t and b = logBucket]
      find_next [of "map (stored c) pre" "fst (stored c e)" "snd (stored c e)" "map (stored c) post"]
    unfolding kvs by simp
  have rest: "load_loop B c bound t (first_of (map (stored c) post)) = Some (Inr (filter (within bound) post))"
    using Cons.IH [of "pre @ [e]"] Cons.prems by simp
  have out: "filter (within bound) post = []" if "\<not> within bound e"
    using s that by (cases bound) (auto simp: within_def filter_empty_conv sorted_wrt_append)
  obtain k v where kv: "stored c e = (k, v)" by (cases "stored c e")
  show ?case
    using nxt rest out unmarshal_stored [OF ok] past_end_stored [of bound c e]
    by (subst load_loop.simps) (auto simp: kv)
qed

lemma load_all_content:
  assumes "bolt_laws B ents dents" "log_content c es (dents (bs_db s) logBucket)"
  shows "LoadAllLogEntries B c s = Some (Inr es) \<or> (\<exists>e. LoadAllLogEntries B c s = Some (Inl (StoreBolt e)))"
  unfolding LoadAllLogEntries_def
proof (rule store_view_result [OF assms(1)])
  fix t assume t: "ents t = dents (bs_db s)"
  have "bt_first B logBucket t = first_of (map (stored c) es)"
    using bolt_readsD(3) [OF assms(1), where t = t and b = logBucket] assms(2) by (simp add: t log_content_def)
  then show "load_loop B c None t (bt_first B logBucket t) = Some (Inr es)"
    using load_loop_content [OF assms(1), of c "[]" es t None] assms(2) by (simp add: t within_def)
qed

lemma load_range_content:
  assumes "bolt_laws B ents dents" "log_content c es (dents (bs_db s) logBucket)"
  shows "LoadLogEntries B c i j s = Some (Inr (filter (\<lambda>e. i \<le> sl_Index e \<and> sl_Index e \<le> j) es)) \<or>
     (\<exists>e. LoadLogEntries B c i j s = Some (Inl (StoreBolt e)))"
  unfolding LoadLogEntries_def
proof (rule store_view_result [OF assms(1)])
  fix t assume t: "ents t = dents (bs_db s)"
  have kvs: "ents t logBucket = map (stored c) es" using assms(2) by (simp add: t log_content_def)
  obtain pre post where p: "map (stored c) es = pre @ post" "find (\<lambda>e. put_u64 i \<le> fst e) (map (stored c) es) = first_of post"
    "post = filter (\<lambda>e. put_u64 i \<le> fst e) (map (stored c) es)"
    using find_seek [of "map (stored c) es" "put_u64 i"] bolt_readsD(1) [OF assms(1), where t = t and b = logBucket] kvs by auto
  obtain es1 es2 where es: "es = es1 @ es2" "post = map (stored c) es2"
    using p(1) by (auto simp: map_eq_append_conv)
  have "length post = length (filter (\<lambda>e. i \<le> sl_Index e) es)"
    by (simp add: p(3) filter_map comp_def stored_def put_u64_le)
  moreover have "filter (\<lambda>e. i \<le> sl_Index e) es2 = es2"
  proof -
    have "\<forall>kv \<in> set post. put_u64 i \<le> fst kv" using p(3) by simp
    then show ?thesis by (simp add: es(2) filter_id_conv stored_def put_u64_le)
  qed
  ultimately have es2: "filter (\<lambda>e. i \<le> sl_Index e) es = es2" by (simp add: es)
  have "bt_seek B logBucket (uint64ToBytes i) t = first_of (map (stored c) es2)"
    using bolt_readsD(5) [OF assms(1), where t = t and b = logBucket] p(2) es(2) by (simp add: kvs uint64ToBytes_eq)
  moreover have "filter (within (Some j)) es2 = filter (\<lambda>e. i \<le> sl_Index e \<and> sl_Index e \<le> j) es"
    by (simp add: es2 [symmetric] within_def conj_commute)
  ultimately show "load_loop B c (Some j) t (bt_seek B logBucket (uint64ToBytes i) t) =
      Some (Inr (filter (\<lambda>e. i \<le> sl_Index e \<and> sl_Index e \<le> j) es))"
    using load_loop_content [OF assms(1), of c es1 es2 t "Some j"] assms(2) by (simp add: t es(1))
qed


text \<open>What a reading method returns: what is there, or an error of the database.\<close>

definition gives :: "(store_error + 'a) option \<Rightarrow> 'a \<Rightarrow> bool" where
  "gives r x \<longleftrightarrow> r = Some (Inr x) \<or> (\<exists>e. r = Some (Inl (StoreBolt e)))"

lemma load_metadata_content:
  assumes "bolt_laws B ents dents" "meta_content m (dents (bs_db s) metadataBucket)"
  shows "gives (LoadMetadata B s) m"
  unfolding gives_def LoadMetadata_def
proof (rule store_view_result [OF assms(1)])
  fix t assume t: "ents t = dents (bs_db s)"
  have g: "bt_get B metadataBucket k t = map_of (dents (bs_db s) metadataBucket) k" for k
    using bolt_readsD(2) [OF assms(1), where t = t and b = metadataBucket] by (simp add: t)
  show "Some (then_do (case bt_get B metadataBucket currentTermKey t of
                None \<Rightarrow> Inr 0
              | Some termBytes \<Rightarrow>
                  if length termBytes < 8 then Inl (StorePanic IndexOutOfRange) else Inr (get_u64 termBytes))
       (\<lambda>currentTerm.
     let votedFor = (case bt_get B metadataBucket votedForKey t of None \<Rightarrow> '''' | Some b \<Rightarrow> bytes_string b)
     in Inr \<lparr>md_CurrentTerm = currentTerm, md_VotedFor = votedFor\<rparr>)) = Some (Inr m)"
    using assms(2) unfolding g meta_content_def by auto
qed

lemma load_snapshot_content:
  assumes "bolt_laws B ents dents" "snapshot_content c tc sn (dents (bs_db s) snapshotBucket)"
  shows "gives (LoadSnapshot B c tc s) (map_option normal_snapshot sn)"
  unfolding gives_def LoadSnapshot_def
proof (rule store_view_result [OF assms(1)])
  fix t assume t: "ents t = dents (bs_db s)"
  have g: "bt_get B snapshotBucket latestKey t = map_option (marshal_snapshot c tc) sn"
    using bolt_readsD(2) [OF assms(1), where t = t and b = snapshotBucket] assms(2) by (simp add: t snapshot_content_def)
  show "Some (case bt_get B snapshotBucket latestKey t of
       None \<Rightarrow> Inr None
     | Some data \<Rightarrow>
         (case unmarshal_snapshot c tc data of None \<Rightarrow> Inl UnmarshalFailed | Some meta \<Rightarrow> Inr (Some meta))) =
     Some (Inr (map_option normal_snapshot sn))"
    using assms(2) unmarshal_marshal_snapshot [of c tc] unfolding g snapshot_content_def by (cases sn) auto
qed

lemma last_index_content:
  assumes "bolt_laws B ents dents" "log_content c es (dents (bs_db s) logBucket)"
  shows "gives (LastIndex B s) (if es = [] then 0 else sl_Index (last es))"
    and "gives (FirstIndex B s) (if es = [] then 0 else sl_Index (hd es))"
proof -
  have kvs: "dents (bs_db s) logBucket = map (stored c) es" using assms(2) by (simp add: log_content_def)
  have "Some (key_index (bt_last B logBucket t)) = Some (Inr (if es = [] then 0 else sl_Index (last es)))"
    if "ents t = dents (bs_db s)" for t
    using bolt_readsD(4) [OF assms(1), where t = t and b = logBucket]
    by (simp add: that kvs key_index_def last_map stored_def)
  then show "gives (LastIndex B s) (if es = [] then 0 else sl_Index (last es))"
    unfolding gives_def LastIndex_def by (rule store_view_result [OF assms(1)])
  have "Some (key_index (bt_first B logBucket t)) = Some (Inr (if es = [] then 0 else sl_Index (hd es)))"
    if "ents t = dents (bs_db s)" for t
    using bolt_readsD(3) [OF assms(1), where t = t and b = logBucket]
    by (cases es) (simp_all add: that kvs key_index_def stored_def)
  then show "gives (FirstIndex B s) (if es = [] then 0 else sl_Index (hd es))"
    unfolding gives_def FirstIndex_def by (rule store_view_result [OF assms(1)])
qed


section \<open>The contract\<close>

text \<open>
  A store of a content: every writing operation returns; without an error it has done what it
  should, with one it has done nothing.
\<close>

fun run_ops :: "('o \<Rightarrow> 's \<Rightarrow> ('s \<times> ('e + unit)) option) \<Rightarrow> 'o list \<Rightarrow> 's \<Rightarrow> ('s \<times> 'o list) option" where
  "run_ops exec [] s = Some (s, [])"
| "run_ops exec (op # ops) s =
     Option.bind (exec op s) (\<lambda>(s, r).
     Option.bind (run_ops exec ops s) (\<lambda>(s, succeeded).
     Some (s, (case r of Inl _ \<Rightarrow> succeeded | Inr _ \<Rightarrow> op # succeeded))))"

locale atomic_store =
  fixes holds :: "'s \<Rightarrow> 'a \<Rightarrow> bool"
    and exec :: "'o \<Rightarrow> 's \<Rightarrow> ('s \<times> ('e + unit)) option"
    and spec :: "'o \<Rightarrow> 'a \<Rightarrow> 'a"
    and ok :: "'o \<Rightarrow> bool"
  assumes returns: "holds s a \<Longrightarrow> exec op s \<noteq> None"
    and commits: "holds s a \<Longrightarrow> ok op \<Longrightarrow> exec op s = Some (s', Inr ()) \<Longrightarrow> holds s' (spec op a)"
    and rolls_back: "holds s a \<Longrightarrow> exec op s = Some (s', Inl e) \<Longrightarrow> holds s' a"
begin

lemma run_is_atomic:
  "holds s a \<Longrightarrow> \<forall>op \<in> set ops. ok op \<Longrightarrow>
     \<exists>s' succeeded. run_ops exec ops s = Some (s', succeeded) \<and> holds s' (fold spec succeeded a)"
proof (induction ops arbitrary: s a)
  case (Cons op ops)
  obtain s1 r where e: "exec op s = Some (s1, r)" using returns [OF Cons.prems(1), of op] by auto
  show ?case
  proof (cases r)
    case (Inl x)
    then have "holds s1 a" using rolls_back [OF Cons.prems(1)] e by simp
    then show ?thesis using Cons.IH [of s1 a] Cons.prems(2) e Inl by auto
  next
    case (Inr x)
    then have "holds s1 (spec op a)" using commits [OF Cons.prems(1)] Cons.prems(2) e by simp
    then show ?thesis using Cons.IH [of s1 "spec op a"] Cons.prems(2) e Inr by fastforce
  qed
qed simp

end

text \<open>A store whose content can be loaded.\<close>

locale recoverable_store = atomic_store holds exec spec ok
  for holds :: "'s \<Rightarrow> store_content \<Rightarrow> bool"
    and exec :: "'o \<Rightarrow> 's \<Rightarrow> ('s \<times> (store_error + unit)) option"
    and spec :: "'o \<Rightarrow> store_content \<Rightarrow> store_content"
    and ok :: "'o \<Rightarrow> bool" +
  fixes load_log :: "'s \<Rightarrow> (store_error + StorageLogEntry list) option"
    and load_metadata :: "'s \<Rightarrow> (store_error + Metadata) option"
    and load_snapshot :: "'s \<Rightarrow> (store_error + SnapshotMetadata option) option"
  assumes loads: "holds s a \<Longrightarrow> gives (load_log s) (sc_log a) \<and> gives (load_metadata s) (sc_meta a) \<and>
     gives (load_snapshot s) (map_option normal_snapshot (sc_snapshot a))"
begin

lemma run_is_loaded:
  assumes "holds s a" "\<forall>op \<in> set ops. ok op"
  shows "\<exists>s' succeeded. run_ops exec ops s = Some (s', succeeded) \<and>
     gives (load_log s') (sc_log (fold spec succeeded a)) \<and>
     gives (load_metadata s') (sc_meta (fold spec succeeded a)) \<and>
     gives (load_snapshot s') (map_option normal_snapshot (sc_snapshot (fold spec succeeded a)))"
  using run_is_atomic [OF assms] loads by blast

end

datatype store_op =
    OpMetadata Metadata
  | OpEntries "StorageLogEntry list"
  | OpDeleteFrom u64
  | OpSnapshot SnapshotMetadata

definition store_exec ::
  "('d, 't) bolt \<Rightarrow> codec \<Rightarrow> time_codec \<Rightarrow> store_op \<Rightarrow> 'd BoltStore \<Rightarrow>
     ('d BoltStore \<times> (store_error + unit)) option" where
  "store_exec B c tc op =
     (case op of
        OpMetadata m \<Rightarrow> SaveMetadata B m
      | OpEntries es \<Rightarrow> SaveLogEntries B c es
      | OpDeleteFrom i \<Rightarrow> DeleteLogEntriesFrom B i
      | OpSnapshot m \<Rightarrow> SaveSnapshot B c tc m)"

definition store_spec :: "store_op \<Rightarrow> store_content \<Rightarrow> store_content" where
  "store_spec op a =
     (case op of
        OpMetadata m \<Rightarrow> a\<lparr>sc_meta := m\<rparr>
      | OpEntries es \<Rightarrow> a\<lparr>sc_log := fold put_entry es (sc_log a)\<rparr>
      | OpDeleteFrom i \<Rightarrow> a\<lparr>sc_log := filter (\<lambda>e. sl_Index e < i) (sc_log a)\<rparr>
      | OpSnapshot m \<Rightarrow> a\<lparr>sc_snapshot := Some m\<rparr>)"

definition store_op_ok :: "codec \<Rightarrow> time_codec \<Rightarrow> store_op \<Rightarrow> bool" where
  "store_op_ok c tc op \<longleftrightarrow>
     (case op of
        OpEntries es \<Rightarrow> (\<forall>e \<in> set es. entry_ok c e)
      | OpSnapshot m \<Rightarrow> snapshot_ok c tc m
      | _ \<Rightarrow> True)"

lemma SaveMetadata_content:
  assumes "store_holds B ents dents c tc s a" "SaveMetadata B m s = Some (s', Inr ())"
  shows "store_holds B ents dents c tc s' (a\<lparr>sc_meta := m\<rparr>)"
proof -
  have l: "bolt_laws B ents dents" using assms(1) by (simp add: store_holds_def)
  obtain t t' where t: "ents t = dents (bs_db s)" "dents (bs_db s') = ents t'"
    and f: "then_do (bt_put B metadataBucket currentTermKey (put_u64 (md_CurrentTerm m)) t) (\<lambda>t.
        bt_put B metadataBucket votedForKey (string_bytes (md_VotedFor m)) t) = Inr t'"
    using store_update_Inr [OF l assms(2) [unfolded SaveMetadata_def]] by auto
  obtain t1 where p: "bt_put B metadataBucket currentTermKey (put_u64 (md_CurrentTerm m)) t = Inr t1"
    "bt_put B metadataBucket votedForKey (string_bytes (md_VotedFor m)) t1 = Inr t'"
    using f by (auto simp: then_do_Inr)
  have "meta_content m (ents t' metadataBucket)"
    using bolt_putD(1) [OF l p(1)] bolt_putD(1) [OF l p(2)] by (simp add: meta_content_def)
  then show ?thesis
    using assms(1) t bolt_putD(2) [OF l p(1)] bolt_putD(2) [OF l p(2)] by (simp add: store_holds_def db_content_def)
qed

lemma SaveLogEntries_content:
  assumes "store_holds B ents dents c tc s a" "\<forall>e \<in> set es. entry_ok c e" "SaveLogEntries B c es s = Some (s', Inr ())"
  shows "store_holds B ents dents c tc s' (a\<lparr>sc_log := fold put_entry es (sc_log a)\<rparr>)"
proof -
  have l: "bolt_laws B ents dents" using assms(1) by (simp add: store_holds_def)
  obtain t t' where t: "ents t = dents (bs_db s)" "dents (bs_db s') = ents t'" and f: "put_entries B c es t = Inr t'"
    using store_update_Inr [OF l assms(3) [unfolded SaveLogEntries_def]] by auto
  have "log_content c (sc_log a) (ents t logBucket)" using assms(1) t(1) by (simp add: store_holds_def db_content_def)
  then show ?thesis
    using put_entries_content [OF l _ assms(2) f] assms(1) t by (simp add: store_holds_def db_content_def)
qed

lemma DeleteLogEntriesFrom_content:
  assumes "store_holds B ents dents c tc s a" "DeleteLogEntriesFrom B i s = Some (s', Inr ())"
  shows "store_holds B ents dents c tc s' (a\<lparr>sc_log := filter (\<lambda>e. sl_Index e < i) (sc_log a)\<rparr>)"
proof -
  have l: "bolt_laws B ents dents" using assms(1) by (simp add: store_holds_def)
  obtain t t' where t: "ents t = dents (bs_db s)" "dents (bs_db s') = ents t'"
    and f: "Option.bind (collect_keys B t (bt_seek B logBucket (uint64ToBytes i) t))
        (\<lambda>keys. Some (delete_keys B keys t)) = Some (Inr t')"
    using store_update_Inr [OF l assms(2) [unfolded DeleteLogEntriesFrom_def]] by blast
  let ?kvs = "ents t logBucket"
  obtain pre post where p: "?kvs = pre @ post" "bt_seek B logBucket (put_u64 i) t = first_of post"
    "post = filter (\<lambda>e. put_u64 i \<le> fst e) ?kvs"
    using find_seek [of ?kvs "put_u64 i"] bolt_readsD(1,5) [OF l, where t = t and b = logBucket] by auto
  have d: "delete_keys B (map fst post) t = Inr t'"
    using f collect_keys_content [OF l p(1)] p(2) by (simp add: uint64ToBytes_eq)
  have "set (map fst post) = {k. k \<in> fst ` set ?kvs \<and> put_u64 i \<le> k}" by (subst p(3)) auto
  then have "log_content c (filter (\<lambda>e. sl_Index e < i) (sc_log a)) (ents t' logBucket)"
    using assms(1) t(1) delete_keys_content [OF l d] bolt_readsD(1) [OF l, where t = t' and b = logBucket]
    by (intro log_content_delete [of c _ ?kvs]) (simp_all add: store_holds_def db_content_def)
  then show ?thesis
    using assms(1) t delete_keys_content [OF l d] by (simp add: store_holds_def db_content_def)
qed

lemma SaveSnapshot_content:
  assumes "store_holds B ents dents c tc s a" "snapshot_ok c tc m" "SaveSnapshot B c tc m s = Some (s', Inr ())"
  shows "store_holds B ents dents c tc s' (a\<lparr>sc_snapshot := Some m\<rparr>)"
proof -
  have l: "bolt_laws B ents dents" using assms(1) by (simp add: store_holds_def)
  obtain t t' where t: "ents t = dents (bs_db s)" "dents (bs_db s') = ents t'"
    and p: "bt_put B snapshotBucket latestKey (marshal_snapshot c tc m) t = Inr t'"
    using store_update_Inr [OF l assms(3) [unfolded SaveSnapshot_def]] by auto
  have "snapshot_content c tc (Some m) (ents t' snapshotBucket)"
    using bolt_putD(1) [OF l p] assms(2) by (simp add: snapshot_content_def)
  then show ?thesis
    using assms(1) t bolt_putD(2) [OF l p] by (simp add: store_holds_def db_content_def)
qed

lemma store_exec_returns:
  assumes "bolt_laws B ents dents"
  shows "store_exec B c tc op s \<noteq> None"
proof (cases op)
  case (OpDeleteFrom i)
  have "collect_keys B t (bt_seek B logBucket (uint64ToBytes i) t) \<noteq> None" for t
  proof -
    obtain pre post where "ents t logBucket = pre @ post" "bt_seek B logBucket (put_u64 i) t = first_of post"
      using find_seek [of "ents t logBucket" "put_u64 i"] bolt_readsD(1,5) [OF assms, where t = t and b = logBucket]
      by auto
    then show ?thesis using collect_keys_content [OF assms] by (simp add: uint64ToBytes_eq)
  qed
  then show ?thesis
    unfolding OpDeleteFrom store_exec_def DeleteLogEntriesFrom_def store_op.case
    by (intro store_update_returns [OF assms]) (auto simp: bind_eq_None_conv)
qed (unfold store_exec_def SaveMetadata_def SaveLogEntries_def SaveSnapshot_def,
    simp_all only: store_op.case, (rule store_update_returns [OF assms], simp)+)

interpretation bolt: recoverable_store "store_holds B ents dents c tc" "store_exec B c tc" store_spec
  "store_op_ok c tc" "LoadAllLogEntries B c" "LoadMetadata B" "LoadSnapshot B c tc"
  for B :: "('d, 't) bolt" and ents dents c tc
proof
  show "store_exec B c tc op s \<noteq> None" if "store_holds B ents dents c tc s a" for s a op
    using that store_exec_returns [of B ents dents] by (simp add: store_holds_def)
  show "store_holds B ents dents c tc s' (store_spec op a)"
    if "store_holds B ents dents c tc s a" "store_op_ok c tc op" "store_exec B c tc op s = Some (s', Inr ())" for s a op s'
    using that SaveMetadata_content [OF that(1)] SaveLogEntries_content [OF that(1)]
      DeleteLogEntriesFrom_content [OF that(1)] SaveSnapshot_content [OF that(1)]
    by (cases op) (simp_all add: store_exec_def store_spec_def store_op_ok_def)
  show "store_holds B ents dents c tc s' a"
    if h: "store_holds B ents dents c tc s a" and e: "store_exec B c tc op s = Some (s', Inl e)" for s a op s' e
  proof -
    have "bolt_laws B ents dents" using h by (simp add: store_holds_def)
    then have "dents (bs_db s') = dents (bs_db s)"
      using e unfolding store_exec_def SaveMetadata_def SaveLogEntries_def DeleteLogEntriesFrom_def SaveSnapshot_def
      by (cases op) (simp_all add: store_update_Inl)
    then show ?thesis using h by (simp add: store_holds_def)
  qed
  show "gives (LoadAllLogEntries B c s) (sc_log a) \<and> gives (LoadMetadata B s) (sc_meta a) \<and>
      gives (LoadSnapshot B c tc s) (map_option normal_snapshot (sc_snapshot a))"
    if "store_holds B ents dents c tc s a" for s a
    using that load_all_content [of B ents dents c "sc_log a" s] load_metadata_content [of B ents dents "sc_meta a" s]
      load_snapshot_content [of B ents dents c tc "sc_snapshot a" s]
    by (simp add: store_holds_def db_content_def gives_def)
qed


section \<open>What the store promises\<close>

definition empty_content :: store_content where
  "empty_content = \<lparr>sc_log = [], sc_meta = \<lparr>md_CurrentTerm = 0, md_VotedFor = ''''\<rparr>, sc_snapshot = None\<rparr>"

lemma NewBoltStore_content:
  assumes "bolt_laws B ents dents" "dents d = (\<lambda>_. [])" "NewBoltStore B (Inr d) = Some (Inr s)"
  shows "store_holds B ents dents c tc s empty_content"
proof -
  let ?f = "\<lambda>t. Some (then_do (bt_create B metadataBucket t) (\<lambda>t. then_do (bt_create B logBucket t) (\<lambda>t.
      bt_create B snapshotBucket t)))"
  obtain d' x where u: "bt_update B ?f d = Some (d', Inr x)" "s = \<lparr>bs_db = d'\<rparr>"
    using assms(3) by (auto simp: NewBoltStore_def split: option.splits prod.splits sum.splits)
  then have u': "bt_update B ?f d = Some (d', Inr ())" by simp
  obtain t t' where t: "ents t = dents d" "?f t = Some (Inr t')" "dents d' = ents t'"
    using bolt_lawsD(3) [OF assms(1), rule_format, OF u'] by (elim exE conjE)
  have c: "ents t2 = ents t1" if "bt_create B b t1 = Inr t2" for b t1 t2
    by (rule bolt_lawsD(5) [OF assms(1), rule_format, OF that])
  obtain t1 t2 where "bt_create B metadataBucket t = Inr t1" "bt_create B logBucket t1 = Inr t2"
    "bt_create B snapshotBucket t2 = Inr t'" using t(2) by (auto simp: then_do_Inr)
  then have "dents d' = (\<lambda>_. [])" using t(1,3) assms(2) c by simp
  then show ?thesis
    using assms(1) u(2) by (simp add: store_holds_def db_content_def log_content_def meta_content_def
        snapshot_content_def empty_content_def)
qed


text \<open>A database in memory, for the witnesses: finite maps, and every call succeeds.\<close>

type_synonym mem_db = "bytes \<Rightarrow> (bytes, bytes) fmap"

definition mem_entries :: "mem_db \<Rightarrow> bytes \<Rightarrow> (bytes \<times> bytes) list" where
  "mem_entries t b = map (\<lambda>k. (k, the (fmlookup (t b) k))) (sorted_list_of_fset (fmdom (t b)))"

definition mem_bolt :: "(mem_db, mem_db) bolt" where
  "mem_bolt =
     \<lparr>bt_view = Inr,
      bt_update = (\<lambda>f d. case f d of None \<Rightarrow> None | Some (Inl e) \<Rightarrow> Some (d, Inl e) | Some (Inr t) \<Rightarrow> Some (t, Inr ())),
      bt_create = (\<lambda>b t. Inr t), bt_get = (\<lambda>b k t. fmlookup (t b) k),
      bt_put = (\<lambda>b k v t. Inr (t(b := fmupd k v (t b)))), bt_delete = (\<lambda>b k t. Inr (t(b := fmdrop k (t b)))),
      bt_first = (\<lambda>b t. first_of (mem_entries t b)),
      bt_last = (\<lambda>b t. if mem_entries t b = [] then None else Some (last (mem_entries t b))),
      bt_seek = (\<lambda>b k t. find (\<lambda>e. k \<le> fst e) (mem_entries t b)),
      bt_next = (\<lambda>b k t. find (\<lambda>e. k < fst e) (mem_entries t b)), bt_close = (\<lambda>d. (d, Inr ()))\<rparr>"

lemma map_of_mem_entries: "map_of (mem_entries t b) = fmlookup (t b)"
proof
  fix k
  show "map_of (mem_entries t b) k = fmlookup (t b) k"
    unfolding mem_entries_def map_of_map_restrict
    by (cases "fmlookup (t b) k") (auto simp: restrict_map_def fmlookup_dom_iff)
qed

lemma sorted_mem_entries: "sorted_wrt (<) (map fst (mem_entries t b))"
  by (simp add: mem_entries_def comp_def sorted_list_of_fset.rep_eq)

lemma mem_entries_other: "b' \<noteq> b \<Longrightarrow> mem_entries (t(b := x)) b' = mem_entries t b'"
  by (simp add: mem_entries_def)

lemma mem_bolt_laws: "bolt_laws mem_bolt mem_entries mem_entries"
proof -
  have "bolt_reads mem_bolt mem_entries"
    unfolding bolt_reads_def by (simp add: mem_bolt_def sorted_mem_entries map_of_mem_entries first_of_def)
  moreover have "bolt_writes mem_bolt mem_entries"
    unfolding bolt_writes_def by (auto simp: mem_bolt_def map_of_mem_entries mem_entries_other)
  moreover have "bolt_transactions mem_bolt mem_entries mem_entries"
    unfolding bolt_transactions_def by (auto simp: mem_bolt_def split: option.splits sum.splits)
  ultimately show ?thesis by (simp add: bolt_laws_def)
qed

text \<open>A codec for entries without data, by their index.\<close>

definition entry_codec :: codec where
  "entry_codec =
     \<lparr>json_print = (\<lambda>j. case j of JObject (_ # (_, JInt i) # _) \<Rightarrow> [word_of_int i] | _ \<Rightarrow> []),
      json_parse = (\<lambda>bs. Some (JObject [(''Term'', JInt 1), (''Index'', JInt (uint (hd bs))), (''Data'', JString ''''),
        (''Type'', JInt 0)])),
      b64_encode = (\<lambda>_. []), b64_decode = (\<lambda>_. Some [])\<rparr>"

definition stored_entry :: "u64 \<Rightarrow> StorageLogEntry" where
  "stored_entry i = \<lparr>sl_Term = 1, sl_Index = i, sl_Data = Some [], sl_Type = 0\<rparr>"

lemma stored_entry_ok: "i < 256 \<Longrightarrow> entry_ok entry_codec (stored_entry i)"
proof -
  assume "i < 256"
  then have "uint i < 256" by (simp add: word_less_def)
  then have "uint i mod 2 ^ 8 = uint i" by (intro mod_pos_pos_trivial) simp_all
  then have "uint (ucast i :: byte) = uint i" by (simp add: unsigned_ucast_eq take_bit_eq_mod)
  then show ?thesis
    by (simp add: entry_ok_def stored_entry_def entry_codec_def text_ok_def entry_json_def bytes_json_def b64_ok_def)
qed

definition mem_example :: "mem_db BoltStore" where
  "mem_example = \<lparr>bs_db = (\<lambda>_. fmempty)\<rparr>"

lemma mem_example: "NewBoltStore mem_bolt (Inr (\<lambda>_. fmempty)) = Some (Inr mem_example)"
  "mem_entries (\<lambda>_. fmempty) = (\<lambda>_. [])"
  by (simp_all add: NewBoltStore_def mem_bolt_def mem_example_def mem_entries_def fun_eq_iff sorted_list_of_fset.rep_eq)


end
