(* ===== verification/Persistence.thy ===== *)
theory Persistence
  imports StableStore WalGuarantees RaftElection
begin

text \<open>
  The persistence layer and crash recovery: \<open>src/pkg/raft/persistence.go\<close> and
  \<open>src/pkg/raft/recovery.go\<close>, over the BoltDB store and the file log. Clock readings
  are parameters. The \<open>Data\<close> of an entry of the node is not nil here: a nil slice is
  stored as an empty one.
\<close>

section \<open>The persistence layer\<close>

record 'd PersistenceLayer =
  pl_store :: "'d BoltStore"
  pl_wal :: FileWAL

datatype persist_error = PersistStore store_error | PersistWal wal_error

type_synonym ('d, 'a) persist = "'d PersistenceLayer \<Rightarrow> ('d PersistenceLayer \<times> (persist_error + 'a)) option"

definition p_then :: "('d, 'a) persist \<Rightarrow> ('a \<Rightarrow> ('d, 'b) persist) \<Rightarrow> ('d, 'b) persist" where
  "p_then m f p =
     (case m p of
        None \<Rightarrow> None
      | Some (p, Inl e) \<Rightarrow> Some (p, Inl e)
      | Some (p, Inr x) \<Rightarrow> f x p)"

definition p_return :: "'a \<Rightarrow> ('d, 'a) persist" where
  "p_return x p = Some (p, Inr x)"

definition on_store :: "('d BoltStore \<Rightarrow> ('d BoltStore \<times> (store_error + 'a)) option) \<Rightarrow> ('d, 'a) persist" where
  "on_store f p =
     (case f (pl_store p) of
        None \<Rightarrow> None
      | Some (s, r) \<Rightarrow> Some (p\<lparr>pl_store := s\<rparr>, map_sum PersistStore id r))"

definition see_store :: "('d BoltStore \<Rightarrow> (store_error + 'a) option) \<Rightarrow> ('d, 'a) persist" where
  "see_store f p = (case f (pl_store p) of None \<Rightarrow> None | Some r \<Rightarrow> Some (p, map_sum PersistStore id r))"

definition on_wal :: "'a wal \<Rightarrow> ('d, 'a) persist" where
  "on_wal f p = (case f (pl_wal p) of (w, r) \<Rightarrow> Some (p\<lparr>pl_wal := w\<rparr>, map_sum PersistWal id r))"

definition NewPersistenceLayer :: "'d BoltStore \<Rightarrow> FileWAL \<Rightarrow> 'd PersistenceLayer" where
  "NewPersistenceLayer store wal = \<lparr>pl_store = store, pl_wal = wal\<rparr>"

definition new_wal_entry :: "WALEntryType \<Rightarrow> u64 \<Rightarrow> u64 \<Rightarrow> bytes \<Rightarrow> WALEntry" where
  "new_wal_entry typ index trm data =
     \<lparr>we_Type = typ, we_Index = index, we_Term = trm, we_Timestamp = zero_time, we_Data = data, we_Checksum = 0\<rparr>"

definition PersistMetadata ::
  "('d, 't) bolt \<Rightarrow> time \<Rightarrow> u64 \<Rightarrow> string \<Rightarrow> ('d, unit) persist" where
  "PersistMetadata B now trm votedFor =
     p_then (on_store (SaveMetadata B \<lparr>md_CurrentTerm = trm, md_VotedFor = votedFor\<rparr>)) (\<lambda>_.
     p_then (on_wal (WAL_Append (now, new_wal_entry WALEntryMetadata 0 trm (string_bytes votedFor)))) (\<lambda>_.
     on_wal WAL_Sync))"

definition PL_LoadMetadata :: "('d, 't) bolt \<Rightarrow> ('d, u64 \<times> string) persist" where
  "PL_LoadMetadata B =
     p_then (see_store (LoadMetadata B)) (\<lambda>meta. p_return (md_CurrentTerm meta, md_VotedFor meta))"

text \<open>Entry types as integers; \<open>EntryOther\<close> is any other \<open>int\<close>.\<close>

definition entry_code :: "EntryType \<Rightarrow> int" where
  "entry_code t =
     (case t of EntryNormal \<Rightarrow> 0 | EntryConfig \<Rightarrow> 1 | EntryNoOp \<Rightarrow> 2 | EntryBatch \<Rightarrow> 3 | EntryOther i \<Rightarrow> i)"

definition entry_type :: "int \<Rightarrow> EntryType" where
  "entry_type i =
     (if i = 0 then EntryNormal else if i = 1 then EntryConfig else if i = 2 then EntryNoOp
      else if i = 3 then EntryBatch else EntryOther i)"

definition to_storage :: "LogEntry \<Rightarrow> StorageLogEntry" where
  "to_storage e =
     \<lparr>sl_Term = le_Term e, sl_Index = le_Index e, sl_Data = Some (le_Data e), sl_Type = entry_code (le_Type e)\<rparr>"

definition from_storage :: "StorageLogEntry \<Rightarrow> LogEntry" where
  "from_storage e =
     \<lparr>le_Term = sl_Term e, le_Index = sl_Index e, le_Data = go_slice (sl_Data e), le_Type = entry_type (sl_Type e)\<rparr>"

text \<open>
  \<open>json.Marshal\<close> of an entry of the node: its fields have the names and the order of the
  stored entry.
\<close>

definition marshal_log_entry :: "codec \<Rightarrow> LogEntry \<Rightarrow> bytes" where
  "marshal_log_entry c e = marshal_entry c (to_storage e)"

definition PersistLogEntries ::
  "('d, 't) bolt \<Rightarrow> codec \<Rightarrow> (nat \<Rightarrow> time) \<Rightarrow> LogEntry list \<Rightarrow> ('d, unit) persist" where
  "PersistLogEntries B c clock entries =
     (let storageEntries = map to_storage entries;
          walEntries = map (\<lambda>e. new_wal_entry WALEntryLog (le_Index e) (le_Term e) (marshal_log_entry c e)) entries
      in
        p_then (on_store (SaveLogEntries B c storageEntries)) (\<lambda>_.
        p_then (on_wal (WAL_AppendBatch (map2 (\<lambda>i e. (clock i, e)) [0..<length walEntries] walEntries))) (\<lambda>_.
        on_wal WAL_Sync)))"

definition PersistLogEntry ::
  "('d, 't) bolt \<Rightarrow> codec \<Rightarrow> (nat \<Rightarrow> time) \<Rightarrow> LogEntry \<Rightarrow> ('d, unit) persist" where
  "PersistLogEntry B c clock entry = PersistLogEntries B c clock [entry]"

definition PL_LoadLogEntries :: "('d, 't) bolt \<Rightarrow> codec \<Rightarrow> ('d, LogEntry list) persist" where
  "PL_LoadLogEntries B c =
     p_then (see_store (LoadAllLogEntries B c)) (\<lambda>entries. p_return (map from_storage entries))"

definition LoadLogEntriesRange :: "('d, 't) bolt \<Rightarrow> codec \<Rightarrow> u64 \<Rightarrow> u64 \<Rightarrow> ('d, LogEntry list) persist" where
  "LoadLogEntriesRange B c startIndex endIndex =
     p_then (see_store (LoadLogEntries B c startIndex endIndex)) (\<lambda>entries. p_return (map from_storage entries))"

definition PL_DeleteLogEntriesFrom :: "('d, 't) bolt \<Rightarrow> (nat \<Rightarrow> time) \<Rightarrow> u64 \<Rightarrow> ('d, unit) persist" where
  "PL_DeleteLogEntriesFrom B clock index =
     p_then (on_store (DeleteLogEntriesFrom B index)) (\<lambda>_.
     p_then (on_wal (WAL_Truncate clock (index - 1))) (\<lambda>_.
     on_wal WAL_Sync))"

definition GetFirstIndex :: "('d, 't) bolt \<Rightarrow> ('d, u64) persist" where
  "GetFirstIndex B = see_store (FirstIndex B)"

definition GetLastIndex :: "('d, 't) bolt \<Rightarrow> ('d, u64) persist" where
  "GetLastIndex B = see_store (LastIndex B)"

definition PersistSnapshot ::
  "('d, 't) bolt \<Rightarrow> codec \<Rightarrow> time_codec \<Rightarrow> time \<Rightarrow> SnapshotMetadata \<Rightarrow> ('d, unit) persist" where
  "PersistSnapshot B c tc now meta =
     p_then (on_store (SaveSnapshot B c tc meta)) (\<lambda>_.
     p_then (on_wal (WAL_Append (now, new_wal_entry WALEntrySnapshot (sn_Index meta) (sn_Term meta)
       (marshal_snapshot c tc meta)))) (\<lambda>_.
     on_wal WAL_Sync))"

definition PL_LoadSnapshot :: "('d, 't) bolt \<Rightarrow> codec \<Rightarrow> time_codec \<Rightarrow> ('d, SnapshotMetadata option) persist" where
  "PL_LoadSnapshot B c tc = see_store (LoadSnapshot B c tc)"

text \<open>\<open>Close\<close> closes both, and reports the first error.\<close>

definition PL_Close :: "('d, 't) bolt \<Rightarrow> ('d, unit) persist" where
  "PL_Close B p =
     (case WAL_Close (pl_wal p) of (w, r) \<Rightarrow>
        case BoltStore_Close B (pl_store p) of (s, r') \<Rightarrow>
          Some (p\<lparr>pl_wal := w, pl_store := s\<rparr>,
            case r of Inl e \<Rightarrow> Inl (PersistWal e) | Inr _ \<Rightarrow> map_sum PersistStore id r'))"

definition PL_Sync :: "('d, unit) persist" where
  "PL_Sync = on_wal WAL_Sync"


section \<open>Recovery\<close>

datatype recover_error = RecoverPersist persist_error | NotSequential nat u64 u64 | WalChecksum nat

definition validateSnapshot :: "SnapshotMetadata \<Rightarrow> string option" where
  "validateSnapshot snapshot =
     (if sn_Index snapshot = 0 then Some ''invalid snapshot: lastIncludedIndex is 0''
      else if sn_Size snapshot \<le> 0 then Some ''invalid snapshot: size''
      else None)"

text \<open>The position of the first entry that does not have the index it should.\<close>

fun sequential :: "nat \<Rightarrow> u64 \<Rightarrow> LogEntry list \<Rightarrow> recover_error + unit" where
  "sequential i expectedIndex [] = Inr ()"
| "sequential i expectedIndex (entry # entries) =
     (if le_Index entry \<noteq> expectedIndex then Inl (NotSequential i (le_Index entry) expectedIndex)
      else sequential (Suc i) (expectedIndex + 1) entries)"

definition validateRecoveredState :: "'sm Node \<Rightarrow> recover_error + unit" where
  "validateRecoveredState n = sequential 0 1 (nd_log n)"

definition set_log :: "LogEntry list \<Rightarrow> 'sm Node \<Rightarrow> 'sm Node" where
  "set_log entries n = n\<lparr>nd_serverState := (nd_serverState n)\<lparr>ss_Log := entries\<rparr>\<rparr>"

text \<open>
  \<open>RecoverState\<close> changes the node step by step, so an error leaves it with what was
  recovered so far. A snapshot is looked at, and nothing is done with it.
\<close>

definition RecoverState ::
  "('d, 't) bolt \<Rightarrow> codec \<Rightarrow> time_codec \<Rightarrow> 'sm Node \<Rightarrow> 'd PersistenceLayer \<Rightarrow>
     ('d PersistenceLayer \<times> 'sm Node \<times> (recover_error + unit)) option" where
  "RecoverState B c tc node p =
     (case PL_LoadMetadata B p of
        None \<Rightarrow> None
      | Some (p, Inl e) \<Rightarrow> Some (p, node, Inl (RecoverPersist e))
      | Some (p, Inr (currentTerm, votedFor)) \<Rightarrow>
          let node = node\<lparr>nd_serverState := SetVotedFor votedFor (SetCurrentTerm currentTerm (nd_serverState node))\<rparr> in
          (case PL_LoadLogEntries B c p of
             None \<Rightarrow> None
           | Some (p, Inl e) \<Rightarrow> Some (p, node, Inl (RecoverPersist e))
           | Some (p, Inr entries) \<Rightarrow>
               let node = set_log entries node in
               (case PL_LoadSnapshot B c tc p of
                  None \<Rightarrow> None
                | Some (p, Inl e) \<Rightarrow> Some (p, node, Inl (RecoverPersist e))
                | Some (p, Inr snapshot) \<Rightarrow> Some (p, node, validateRecoveredState node))))"

text \<open>Replaying the log of the WAL only counts its entries.\<close>

definition RecoverFromWAL :: "'sm Node \<Rightarrow> 'd PersistenceLayer \<Rightarrow>
     ('d PersistenceLayer \<times> 'sm Node \<times> (recover_error + nat \<times> nat \<times> nat)) option" where
  "RecoverFromWAL node p =
     (case on_wal WAL_ReadAll p of
        None \<Rightarrow> None
      | Some (p, Inl e) \<Rightarrow> Some (p, node, Inl (RecoverPersist e))
      | Some (p, Inr walEntries) \<Rightarrow>
          let valid = filter ValidateChecksum walEntries;
              count = (\<lambda>t. length (filter (\<lambda>e. we_Type e = t) valid))
          in Some (p, node, Inr (count WALEntryLog, count WALEntryMetadata, count WALEntrySnapshot)))"

definition CreateCheckpoint ::
  "('d, 't) bolt \<Rightarrow> codec \<Rightarrow> time \<Rightarrow> (nat \<Rightarrow> time) \<Rightarrow> 'sm Node \<Rightarrow> ('d, unit) persist" where
  "CreateCheckpoint B c now clock node =
     p_then (PersistMetadata B now (nd_term node) (nd_votedFor node)) (\<lambda>_.
     p_then (if nd_log node \<noteq> [] then PersistLogEntries B c clock (nd_log node) else p_return ()) (\<lambda>_.
     PL_Sync))"

fun valid_checksums :: "nat \<Rightarrow> WALEntry list \<Rightarrow> recover_error + unit" where
  "valid_checksums i [] = Inr ()"
| "valid_checksums i (e # es) = (if \<not> ValidateChecksum e then Inl (WalChecksum i) else valid_checksums (Suc i) es)"

definition VerifyIntegrity ::
  "('d, 't) bolt \<Rightarrow> codec \<Rightarrow> 'd PersistenceLayer \<Rightarrow> ('d PersistenceLayer \<times> (recover_error + unit)) option" where
  "VerifyIntegrity B c p =
     (case PL_LoadMetadata B p of
        None \<Rightarrow> None
      | Some (p, Inl e) \<Rightarrow> Some (p, Inl (RecoverPersist e))
      | Some (p, Inr _) \<Rightarrow>
          (case PL_LoadLogEntries B c p of
             None \<Rightarrow> None
           | Some (p, Inl e) \<Rightarrow> Some (p, Inl (RecoverPersist e))
           | Some (p, Inr entries) \<Rightarrow>
               (case sequential 0 1 entries of
                  Inl e \<Rightarrow> Some (p, Inl e)
                | Inr _ \<Rightarrow>
                    (case on_wal WAL_ReadAll p of
                       None \<Rightarrow> None
                     | Some (p, Inl e) \<Rightarrow> Some (p, Inl (RecoverPersist e))
                     | Some (p, Inr walEntries) \<Rightarrow> Some (p, valid_checksums 0 walEntries)))))"


section \<open>What is persisted is recovered\<close>

lemma p_then_Inr:
  "p_then m f p = Some (p', Inr y) \<longleftrightarrow> (\<exists>p1 x. m p = Some (p1, Inr x) \<and> f x p1 = Some (p', Inr y))"
  by (auto simp: p_then_def split: option.split prod.split sum.split)

lemma on_store_Inr:
  "on_store f p = Some (p', Inr x) \<longleftrightarrow> (\<exists>s. f (pl_store p) = Some (s, Inr x) \<and> p' = p\<lparr>pl_store := s\<rparr>)"
  by (auto simp: on_store_def map_sum_def split: option.split prod.split sum.splits)

lemma on_wal_Inr:
  "on_wal f p = Some (p', Inr x) \<longleftrightarrow> (\<exists>w. f (pl_wal p) = (w, Inr x) \<and> p' = p\<lparr>pl_wal := w\<rparr>)"
  by (auto simp: on_wal_def map_sum_def split: prod.split sum.splits)

lemma p_return_Inr: "p_return x p = Some (p', Inr y) \<longleftrightarrow> p' = p \<and> y = x"
  by (auto simp: p_return_def)

lemmas persist_simps = p_then_Inr on_store_Inr on_wal_Inr p_return_Inr

definition persistable :: "codec \<Rightarrow> LogEntry \<Rightarrow> bool" where
  "persistable c e \<longleftrightarrow> entry_ok c (to_storage e) \<and> (\<forall>i. le_Type e = EntryOther i \<longrightarrow> i \<notin> {0, 1, 2, 3})"

lemma from_to_storage: "persistable c e \<Longrightarrow> from_storage (to_storage e) = e"
  by (cases "le_Type e") (auto simp: persistable_def from_storage_def to_storage_def entry_code_def entry_type_def)

lemma map_from_to_storage: "\<forall>e \<in> set es. persistable c e \<Longrightarrow> map from_storage (map to_storage es) = es"
  by (induction es) (auto simp: from_to_storage)

text \<open>Storing a log replaces the stored entries of its indices and leaves those after it.\<close>

lemma put_entry_append: "\<forall>e \<in> set es. sl_Index e < sl_Index x \<Longrightarrow> put_entry x (es @ es') = es @ put_entry x es'"
  by (induction es) auto

lemma put_entry_filter:
  assumes "unat (sl_Index x) = Suc i"
  shows "sorted_wrt (<) (map sl_Index es) \<Longrightarrow>
     put_entry x (filter (\<lambda>e. i < unat (sl_Index e)) es) = x # filter (\<lambda>e. Suc i < unat (sl_Index e)) es"
proof (induction es)
  case (Cons e es)
  have up: "unat (sl_Index e) < unat (sl_Index y)" if "y \<in> set es" for y
    using Cons.prems that by (auto simp: word_less_nat_alt)
  consider "unat (sl_Index e) \<le> i" | "unat (sl_Index e) = Suc i" | "Suc i < unat (sl_Index e)" by linarith
  then show ?case
  proof cases
    case 2
    then have "sl_Index x = sl_Index e" using assms by (simp add: word_unat_eq_iff)
    moreover have "filter (\<lambda>e. i < unat (sl_Index e)) es = filter (\<lambda>e. Suc i < unat (sl_Index e)) es"
      using up 2 by (intro filter_cong) (auto dest!: up)
    ultimately show ?thesis using 2 by simp
  next
    case 3
    then have "sl_Index x < sl_Index e" using assms by (simp add: word_less_nat_alt)
    moreover have "filter (\<lambda>e. i < unat (sl_Index e)) es = filter (\<lambda>e. Suc i < unat (sl_Index e)) es"
      using up 3 by (intro filter_cong) (auto dest!: up)
    ultimately show ?thesis using 3 by simp
  qed (use Cons in simp)
qed simp

lemma put_log:
  assumes "sorted_wrt (<) (map sl_Index old)" "\<forall>e \<in> set old. sl_Index e \<noteq> 0"
  shows "\<forall>k < length log. unat (le_Index (log ! k)) = Suc k \<Longrightarrow>
     fold put_entry (map to_storage log) old =
       map to_storage log @ filter (\<lambda>e. length log < unat (sl_Index e)) old"
proof (induction log rule: rev_induct)
  case Nil
  have "filter (\<lambda>e. 0 < unat (sl_Index e)) old = old" using assms(2) by (simp add: filter_id_conv unat_gt_0)
  then show ?case by simp
next
  case (snoc e log)
  have ix: "\<forall>k < length log. unat (le_Index (log ! k)) = Suc k"
  proof (intro allI impI)
    fix k assume "k < length log"
    then show "unat (le_Index (log ! k)) = Suc k" using snoc.prems [rule_format, of k] by (simp add: nth_append)
  qed
  have e: "unat (sl_Index (to_storage e)) = Suc (length log)" using snoc.prems by (auto simp: to_storage_def nth_append)
  have "\<forall>x \<in> set (map to_storage log). sl_Index x < sl_Index (to_storage e)"
  proof
    fix x assume "x \<in> set (map to_storage log)"
    then obtain k where k: "k < length log" "x = to_storage (log ! k)" by (auto simp: in_set_conv_nth)
    then have "unat (sl_Index x) = Suc k" using ix by (simp add: to_storage_def)
    then show "sl_Index x < sl_Index (to_storage e)" using e k(1) by (simp add: word_less_nat_alt)
  qed
  then show ?case
    using snoc.IH [OF ix] put_entry_filter [OF e assms(1)] by (simp add: put_entry_append)
qed

lemma PersistMetadata_store:
  assumes "store_holds B ents dents c tc (pl_store p) a" "PersistMetadata B now trm vote p = Some (p', Inr ())"
  shows "store_holds B ents dents c tc (pl_store p') (a\<lparr>sc_meta := \<lparr>md_CurrentTerm = trm, md_VotedFor = vote\<rparr>\<rparr>)"
proof -
  obtain s where s: "SaveMetadata B \<lparr>md_CurrentTerm = trm, md_VotedFor = vote\<rparr> (pl_store p) = Some (s, Inr ())"
    "pl_store p' = s"
    using assms(2) by (auto simp: PersistMetadata_def persist_simps)
  show ?thesis using SaveMetadata_content [OF assms(1) s(1)] by (simp add: s(2))
qed

lemma PersistLogEntries_store:
  assumes "store_holds B ents dents c tc (pl_store p) a" "\<forall>e \<in> set es. persistable c e"
    and "PersistLogEntries B c clock es p = Some (p', Inr ())"
  shows "store_holds B ents dents c tc (pl_store p') (a\<lparr>sc_log := fold put_entry (map to_storage es) (sc_log a)\<rparr>)"
proof -
  obtain s where s: "SaveLogEntries B c (map to_storage es) (pl_store p) = Some (s, Inr ())" "pl_store p' = s"
    using assms(3) by (auto simp: PersistLogEntries_def Let_def persist_simps)
  have "\<forall>e \<in> set (map to_storage es). entry_ok c e" using assms(2) by (simp add: persistable_def)
  then show ?thesis using SaveLogEntries_content [OF assms(1) _ s(1)] by (simp add: s(2))
qed

text \<open>A checkpoint stores the metadata and the log of the node, and keeps what is behind it.\<close>

definition checkpointed :: "'sm Node \<Rightarrow> store_content \<Rightarrow> store_content" where
  "checkpointed n a =
     a\<lparr>sc_meta := \<lparr>md_CurrentTerm = nd_term n, md_VotedFor = nd_votedFor n\<rparr>,
       sc_log := map to_storage (nd_log n) @ filter (\<lambda>e. length (nd_log n) < unat (sl_Index e)) (sc_log a)\<rparr>"

lemma CreateCheckpoint_store:
  assumes "store_holds B ents dents c tc (pl_store p) a" "\<forall>e \<in> set (sc_log a). sl_Index e \<noteq> 0"
    and "wf_log (nd_log n)" "\<forall>e \<in> set (nd_log n). persistable c e"
    and "CreateCheckpoint B c now clock n p = Some (p', Inr ())"
  shows "store_holds B ents dents c tc (pl_store p') (checkpointed n a)"
proof -
  obtain p1 p2 where m: "PersistMetadata B now (nd_term n) (nd_votedFor n) p = Some (p1, Inr ())"
    and l: "(if nd_log n \<noteq> [] then PersistLogEntries B c clock (nd_log n) else p_return ()) p1 = Some (p2, Inr ())"
    and p': "pl_store p' = pl_store p2"
    using assms(5) by (auto simp: CreateCheckpoint_def PL_Sync_def persist_simps)
  let ?a = "a\<lparr>sc_meta := \<lparr>md_CurrentTerm = nd_term n, md_VotedFor = nd_votedFor n\<rparr>\<rparr>"
  have h: "store_holds B ents dents c tc (pl_store p1) ?a" by (rule PersistMetadata_store [OF assms(1) m])
  have sorted: "sorted_wrt (<) (map sl_Index (sc_log a))"
    using assms(1) by (simp add: store_holds_def db_content_def log_content_def)
  note put = put_log [OF sorted assms(2), of "nd_log n"]
  show ?thesis
  proof (cases "nd_log n = []")
    case True
    then have "filter (\<lambda>e. length (nd_log n) < unat (sl_Index e)) (sc_log a) = sc_log a"
      using assms(2) by (simp add: filter_id_conv unat_gt_0)
    then show ?thesis using h l True p' by (simp add: p_return_Inr checkpointed_def)
  next
    case False
    then have "store_holds B ents dents c tc (pl_store p2)
        (?a\<lparr>sc_log := fold put_entry (map to_storage (nd_log n)) (sc_log ?a)\<rparr>)"
      using PersistLogEntries_store [OF h assms(4)] l by simp
    then show ?thesis using put assms(3) p' by (simp add: checkpointed_def wf_log_def)
  qed
qed

text \<open>Recovery reads the content of the store.\<close>

lemma sequential_wf: "\<forall>k < length log. unat (le_Index (log ! k)) = Suc (i + k) \<Longrightarrow> i + length log < 2 ^ 64 \<Longrightarrow>
    sequential i (of_nat (Suc i)) log = Inr ()"
proof (induction log arbitrary: i)
  case (Cons e log)
  have "unat (le_Index e) = Suc i" using Cons.prems(1) by force
  moreover have "unat (of_nat (Suc i) :: u64) = Suc i" using Cons.prems(2) by (intro unat_of_nat_u64) simp
  ultimately have "le_Index e = of_nat (Suc i)" by (simp only: word_unat_eq_iff)
  moreover have "\<forall>k < length log. unat (le_Index (log ! k)) = Suc (Suc i + k)" using Cons.prems(1) by force
  ultimately show ?case using Cons.IH [of "Suc i"] Cons.prems(2) by (simp add: add.commute)
qed simp

definition recovered :: "store_content \<Rightarrow> 'sm Node \<Rightarrow> 'sm Node" where
  "recovered a n =
     set_log (map from_storage (sc_log a))
       (n\<lparr>nd_serverState := SetVotedFor (md_VotedFor (sc_meta a)) (SetCurrentTerm (md_CurrentTerm (sc_meta a)) (nd_serverState n))\<rparr>)"

lemma RecoverState_store:
  assumes "store_holds B ents dents c tc (pl_store p) a" "RecoverState B c tc n p = Some (p', n', r)"
  shows "(\<exists>e. r = Inl (RecoverPersist (PersistStore (StoreBolt e)))) \<or>
     (n' = recovered a n \<and> r = validateRecoveredState n')"
proof -
  have g: "gives (LoadAllLogEntries B c (pl_store p)) (sc_log a)" "gives (LoadMetadata B (pl_store p)) (sc_meta a)"
    "gives (LoadSnapshot B c tc (pl_store p)) (map_option normal_snapshot (sc_snapshot a))"
    using bolt.loads [OF assms(1)] by simp_all
  show ?thesis
    using assms(2) g unfolding gives_def
    by (elim disjE exE)
      (simp_all add: RecoverState_def PL_LoadMetadata_def PL_LoadLogEntries_def PL_LoadSnapshot_def p_then_def
        see_store_def p_return_def recovered_def Let_def, auto)
qed


text \<open>A checkpoint does not remove the stored entries behind the log of the node. When the
  store holds a longer log, of which the node has truncated the end as a conflict with its leader,
  a successful checkpoint of the node is recovered with the truncated entries behind its log.\<close>

theorem checkpoint_resurrects_truncated_entries:
  assumes "store_holds B ents dents c tc (pl_store p) a" "sc_log a = map to_storage old"
    and "wf_log old" "\<forall>e \<in> set old. persistable c e" "length (nd_log n) < length old"
    and "wf_log (nd_log n)" "\<forall>e \<in> set (nd_log n). persistable c e"
    and "CreateCheckpoint B c now clock n p = Some (p1, Inr ())"
    and "dents (bs_db (pl_store p2)) = dents (bs_db (pl_store p1))"
    and "RecoverState B c tc n0 p2 = Some (p3, n1, r)"
  shows "(\<exists>e. r = Inl (RecoverPersist (PersistStore (StoreBolt e)))) \<or>
     (r = Inr () \<and> nd_log n1 = nd_log n @ drop (length (nd_log n)) old)"
proof -
  have ix: "unat (sl_Index (to_storage (old ! k))) = Suc k" if "k < length old" for k
    using assms(3) that by (simp add: wf_log_def to_storage_def)
  have "\<forall>e \<in> set (sc_log a). sl_Index e \<noteq> 0"
  proof
    fix e assume "e \<in> set (sc_log a)"
    then obtain k where "k < length old" "e = to_storage (old ! k)" by (auto simp: assms(2) in_set_conv_nth)
    then show "sl_Index e \<noteq> 0" using ix [of k] by (auto simp: unat_eq_0)
  qed
  then have "store_holds B ents dents c tc (pl_store p1) (checkpointed n a)"
    by (rule CreateCheckpoint_store [OF assms(1) _ assms(6-8)])
  then have h: "store_holds B ents dents c tc (pl_store p2) (checkpointed n a)"
    using assms(9) by (simp add: store_holds_def)
  let ?m = "length (nd_log n)"
  have "filter (\<lambda>e. ?m < unat (sl_Index e)) (map to_storage old) = map to_storage (drop ?m old)"
  proof -
    have "filter (\<lambda>e. ?m < unat (sl_Index e)) (map to_storage (take ?m old)) = []"
      using ix assms(5) by (auto simp: filter_empty_conv in_set_conv_nth)
    moreover have "filter (\<lambda>e. ?m < unat (sl_Index e)) (map to_storage (drop ?m old)) = map to_storage (drop ?m old)"
      using ix assms(5) by (auto simp: filter_id_conv in_set_conv_nth)
    moreover have "map to_storage old = map to_storage (take ?m old) @ map to_storage (drop ?m old)"
      by (simp flip: map_append)
    ultimately show ?thesis by (metis append_Nil filter_append)
  qed
  moreover have "map from_storage (map to_storage (drop ?m old)) = drop ?m old"
    using assms(4) by (intro map_from_to_storage [of _ c]) (auto dest: in_set_dropD)
  moreover note map_from_to_storage [OF assms(7)]
  ultimately have log: "nd_log (recovered (checkpointed n a) n0) = nd_log n @ drop ?m old"
    using assms(2) by (simp add: recovered_def checkpointed_def set_log_def)
  have "\<forall>k < length old. unat (le_Index ((nd_log n @ drop ?m old) ! k)) = Suc k"
    using assms(3,5,6) by (auto simp: wf_log_def nth_append)
  then have "sequential 0 1 (nd_log n @ drop ?m old) = Inr ()"
    using sequential_wf [of "nd_log n @ drop ?m old" 0] assms(3,5) by (simp add: wf_log_def slice_ok_def)
  then show ?thesis
    using RecoverState_store [OF h assms(10)] log by (auto simp: validateRecoveredState_def)
qed


section \<open>Witnesses\<close>

text \<open>On the database in memory and a disk without faults a checkpoint succeeds.\<close>

definition p_ready :: "'d PersistenceLayer \<Rightarrow> bool" where
  "p_ready p \<longleftrightarrow> ready (pl_wal p)"

definition p_succeeds :: "('d, 'a) persist \<Rightarrow> bool" where
  "p_succeeds m \<longleftrightarrow> (\<forall>p. p_ready p \<longrightarrow> (\<exists>p' x. m p = Some (p', Inr x) \<and> p_ready p'))"

lemma p_succeeds_then: "p_succeeds m \<Longrightarrow> (\<And>x. p_succeeds (f x)) \<Longrightarrow> p_succeeds (p_then m f)"
  unfolding p_succeeds_def p_then_def by fastforce

lemma p_succeeds_wal: "succeeds ready m (\<lambda>_. ready) \<Longrightarrow> p_succeeds (on_wal m)"
  unfolding p_succeeds_def succeeds_def p_ready_def on_wal_def by fastforce

lemma p_succeeds_store: "(\<And>s. \<exists>s' x. f s = Some (s', Inr x)) \<Longrightarrow> p_succeeds (on_store f)"
proof -
  assume f: "\<And>s. \<exists>s' x. f s = Some (s', Inr x)"
  have "\<exists>p' x. on_store f p = Some (p', Inr x) \<and> p_ready p'" if "p_ready p" for p
  proof -
    obtain s' x where "f (pl_store p) = Some (s', Inr x)" using f by blast
    then show ?thesis using that by (simp add: on_store_def p_ready_def)
  qed
  then show ?thesis by (simp add: p_succeeds_def)
qed

lemma put_entries_mem: "\<exists>t'. put_entries mem_bolt c es t = Inr t'"
  by (induction es arbitrary: t) (simp_all add: mem_bolt_def)

lemma mem_saves: "\<exists>s' x. SaveMetadata mem_bolt m s = Some (s', Inr x)"
  "\<exists>s' x. SaveLogEntries mem_bolt c es s = Some (s', Inr x)"
proof -
  show "\<exists>s' x. SaveMetadata mem_bolt m s = Some (s', Inr x)"
    by (simp add: SaveMetadata_def store_update_def mem_bolt_def)
  obtain t where "put_entries mem_bolt c es (bs_db s) = Inr t" using put_entries_mem by blast
  then show "\<exists>s' x. SaveLogEntries mem_bolt c es s = Some (s', Inr x)"
    by (simp add: SaveLogEntries_def store_update_def mem_bolt_def)
qed

lemma CreateCheckpoint_mem: "p_succeeds (CreateCheckpoint mem_bolt c now clock n)"
proof -
  have sync: "p_succeeds (on_wal WAL_Sync :: (mem_db, unit) persist)"
    unfolding WAL_Sync_def by (rule p_succeeds_wal [OF sync_progress])
  have ap: "p_succeeds (on_wal (WAL_Append te) :: (mem_db, unit) persist)" for te
    unfolding WAL_Append_def by (rule p_succeeds_wal [OF appendEntry_progress])
  have ret: "p_succeeds (p_return () :: (mem_db, unit) persist)" by (simp add: p_succeeds_def p_return_def)
  show ?thesis
    unfolding CreateCheckpoint_def PersistMetadata_def PersistLogEntries_def Let_def PL_Sync_def
    by (auto intro!: p_succeeds_then sync ap ret p_succeeds_store mem_saves p_succeeds_wal AppendBatch_progress)
qed

definition checkpoint_node :: "nat \<Rightarrow> unit Node" where
  "checkpoint_node k =
     (example_node ''n1'' [])\<lparr>nd_serverState := \<lparr>ss_CurrentTerm = 2, ss_VotedFor = ''n1'',
       ss_Log = map (\<lambda>i. \<lparr>le_Term = 1, le_Index = i, le_Data = [], le_Type = EntryNormal\<rparr>) (take k [1, 2, 3])\<rparr>\<rparr>"

lemma checkpoint_node_log: "wf_log (nd_log (checkpoint_node k))" "\<forall>e \<in> set (nd_log (checkpoint_node k)). persistable entry_codec e"
proof -
  have "wf_log (map (\<lambda>i :: u64. \<lparr>le_Term = 1, le_Index = i, le_Data = [], le_Type = EntryNormal\<rparr>) [1, 2, 3])"
  proof -
    have "unat (le_Index (map (\<lambda>i :: u64. \<lparr>le_Term = 1, le_Index = i, le_Data = [], le_Type = EntryNormal\<rparr>)
        [1, 2, 3] ! k)) = Suc k" if "k < 3" for k
    proof -
      have "k = 0 \<or> k = 1 \<or> k = 2" using that by auto
      then show ?thesis by (elim disjE) simp_all
    qed
    then show ?thesis by (simp add: wf_log_def slice_ok_def)
  qed
  then have "wf_log (take k (map (\<lambda>i :: u64. \<lparr>le_Term = 1, le_Index = i, le_Data = [], le_Type = EntryNormal\<rparr>) [1, 2, 3]))"
    by (rule wf_log_take)
  then show "wf_log (nd_log (checkpoint_node k))" unfolding take_map by (simp add: checkpoint_node_def)
  have "entry_ok entry_codec (stored_entry i)" if "i \<in> {1, 2, 3}" for i
    using that by (intro stored_entry_ok) (auto simp: word_less_nat_alt)
  then show "\<forall>e \<in> set (nd_log (checkpoint_node k)). persistable entry_codec e"
    by (auto simp: checkpoint_node_def persistable_def to_storage_def entry_code_def stored_entry_def dest!: in_set_takeD)
qed

lemma mem_layer:
  obtains p :: "mem_db PersistenceLayer" where "pl_store p = mem_example" "p_ready p"
proof -
  obtain w where "ready w" using NewWAL_progress [of empty_disk] by (auto simp: empty_disk_def fault_free_def)
  then show thesis by (intro that [of "\<lparr>pl_store = mem_example, pl_wal = w\<rparr>"]) (simp_all add: p_ready_def)
qed

lemma RecoverState_returns:
  assumes "store_holds B ents dents c tc (pl_store p) a"
  shows "\<exists>p' n' r. RecoverState B c tc n p = Some (p', n', r)"
proof -
  have g: "gives (LoadAllLogEntries B c (pl_store p)) (sc_log a)" "gives (LoadMetadata B (pl_store p)) (sc_meta a)"
    "gives (LoadSnapshot B c tc (pl_store p)) (map_option normal_snapshot (sc_snapshot a))"
    using bolt.loads [OF assms] by simp_all
  show ?thesis
    using g unfolding gives_def
    by (elim disjE exE)
      (simp_all add: RecoverState_def PL_LoadMetadata_def PL_LoadLogEntries_def PL_LoadSnapshot_def p_then_def
        see_store_def p_return_def Let_def)
qed

lemma mem_example_holds: "store_holds mem_bolt mem_entries mem_entries entry_codec tc mem_example empty_content"
  by (rule NewBoltStore_content [OF mem_bolt_laws mem_example(2,1)])


theorem checkpoint_resurrects_truncated_entries_witness:
  "\<exists>p p1 p2 p3 n1 r. CreateCheckpoint mem_bolt entry_codec 0 (\<lambda>_. 0) (checkpoint_node 3) p = Some (p1, Inr ()) \<and>
     CreateCheckpoint mem_bolt entry_codec 0 (\<lambda>_. 0) (checkpoint_node 1) p1 = Some (p2, Inr ()) \<and>
     RecoverState mem_bolt entry_codec epoch_codec (checkpoint_node 0) p2 = Some (p3, n1, r) \<and>
     ((\<exists>e. r = Inl (RecoverPersist (PersistStore (StoreBolt e)))) \<or>
      (r = Inr () \<and> nd_log n1 = nd_log (checkpoint_node 1) @ drop (length (nd_log (checkpoint_node 1))) (nd_log (checkpoint_node 3))))"
proof -
  obtain p :: "mem_db PersistenceLayer" where p: "pl_store p = mem_example" "p_ready p" by (rule mem_layer)
  have h: "store_holds mem_bolt mem_entries mem_entries entry_codec epoch_codec (pl_store p) empty_content"
    by (simp only: p(1) mem_example_holds)
  have none: "\<forall>e \<in> set (sc_log empty_content). sl_Index e \<noteq> 0" by (simp add: empty_content_def)
  obtain p1 where c: "CreateCheckpoint mem_bolt entry_codec 0 (\<lambda>_. 0) (checkpoint_node 3) p = Some (p1, Inr ())" "p_ready p1"
    using CreateCheckpoint_mem [of entry_codec 0 "\<lambda>_. 0" "checkpoint_node 3"] p(2) unfolding p_succeeds_def by auto
  have h1: "store_holds mem_bolt mem_entries mem_entries entry_codec epoch_codec (pl_store p1) (checkpointed (checkpoint_node 3) empty_content)"
    by (rule CreateCheckpoint_store [OF h none checkpoint_node_log c(1)])
  have old: "sc_log (checkpointed (checkpoint_node 3) empty_content) = map to_storage (nd_log (checkpoint_node 3))"
    by (simp add: checkpointed_def empty_content_def)
  obtain p2 where c2: "CreateCheckpoint mem_bolt entry_codec 0 (\<lambda>_. 0) (checkpoint_node 1) p1 = Some (p2, Inr ())"
    using CreateCheckpoint_mem [of entry_codec 0 "\<lambda>_. 0" "checkpoint_node 1"] c(2) unfolding p_succeeds_def by auto
  have len: "length (nd_log (checkpoint_node 1)) < length (nd_log (checkpoint_node 3))" by (simp add: checkpoint_node_def)
  have "\<forall>e \<in> set (sc_log (checkpointed (checkpoint_node 3) empty_content)). sl_Index e \<noteq> 0"
    unfolding old by (auto simp: checkpoint_node_def to_storage_def)
  then have "store_holds mem_bolt mem_entries mem_entries entry_codec epoch_codec (pl_store p2)
      (checkpointed (checkpoint_node 1) (checkpointed (checkpoint_node 3) empty_content))"
    by (rule CreateCheckpoint_store [OF h1 _ checkpoint_node_log c2])
  then obtain p3 n1 r where r: "RecoverState mem_bolt entry_codec epoch_codec (checkpoint_node 0) p2 = Some (p3, n1, r)"
    using RecoverState_returns by blast
  show ?thesis
    using checkpoint_resurrects_truncated_entries [OF h1 old checkpoint_node_log len checkpoint_node_log c2 refl r]
      c c2 r by blast
qed

end
