(* ===== verification/SnapshotStore.thy ===== *)
theory SnapshotStore
  imports GoFiles StorageJson GoSha "HOL-Library.List_Lexorder" "HOL-Library.Char_ord"
begin

text \<open>
  The snapshot files of \<open>src/pkg/storage/snapshot.go\<close>, in a directory whose files have
  their Go names. The lock is a part of the state: taking it while it is held blocks for ever,
  which is the result \<open>Deadlock\<close>, with the state as it is then. Removing a file ignores
  errors. One writer at a time has a temporary file open. Clock readings are parameters.
\<close>

section \<open>Managers\<close>

record SnapshotManager =
  sm_disk :: "string disk"
  sm_locked :: bool
  sm_currentSnapshot :: "SnapshotMetadata option"
  sm_maxSnapshots :: int

record Snapshot =
  sp_Metadata :: SnapshotMetadata
  sp_Data :: bytes

datatype snap_error = SnapOS os_error | BadMetadata | NoSnapshot | ChecksumMismatch string string | Deadlock
  | SnapPanic go_panic

type_synonym 'a snap = "(SnapshotManager, snap_error, 'a) io"

definition snap_os :: "(string, 'a) os \<Rightarrow> 'a snap" where
  "snap_os m s =
     (case m (sm_disk s) of (d, r) \<Rightarrow> (s\<lparr>sm_disk := d\<rparr>, map_sum SnapOS id r))"

text \<open>A call whose error is ignored, and one whose error is returned after a clean-up.\<close>

definition io_ignore :: "('s, 'e, 'a) io \<Rightarrow> ('s, 'e, unit) io" where
  "io_ignore m s = (fst (m s), Inr ())"

definition io_or_else :: "('s, 'e, 'a) io \<Rightarrow> ('s, 'e, unit) io \<Rightarrow> ('s, 'e, 'a) io" where
  "io_or_else m cleanup s =
     (case m s of
        (s, Inr x) \<Rightarrow> (s, Inr x)
      | (s, Inl e) \<Rightarrow> (fst (cleanup s), Inl e))"

text \<open>\<open>Lock\<close> with \<open>defer Unlock\<close>, and \<open>RLock\<close>; who blocks keeps what it holds.\<close>

definition with_lock :: "'a snap \<Rightarrow> 'a snap" where
  "with_lock m s =
     (if sm_locked s then (s, Inl Deadlock)
      else
        case m (s\<lparr>sm_locked := True\<rparr>) of
          (s, Inl Deadlock) \<Rightarrow> (s, Inl Deadlock)
        | (s, r) \<Rightarrow> (s\<lparr>sm_locked := False\<rparr>, r))"

definition with_rlock :: "'a snap \<Rightarrow> 'a snap" where
  "with_rlock m s = (if sm_locked s then (s, Inl Deadlock) else m s)"

definition snapshotPath :: "u64 \<Rightarrow> u64 \<Rightarrow> string" where
  "snapshotPath index trm = ''snapshot-'' @ decimal (unat index) @ ''-'' @ decimal (unat trm) @ ''.snap''"

definition checksum_of :: "bytes \<Rightarrow> string" where
  "checksum_of data = hex (sha256 data)"

definition new_metadata :: "u64 \<Rightarrow> u64 \<Rightarrow> bytes \<Rightarrow> time \<Rightarrow> SnapshotMetadata" where
  "new_metadata index trm data now =
     \<lparr>sn_Index = index, sn_Term = trm, sn_Configuration = None, sn_Size = int (length data),
      sn_Checksum = checksum_of data, sn_ChecksumCRC32 = 0, sn_CreatedAt = now\<rparr>"

definition loadMetadataFromFile :: "codec \<Rightarrow> time_codec \<Rightarrow> string \<Rightarrow> SnapshotMetadata snap" where
  "loadMetadataFromFile c tc path =
     io_then (snap_os (os_readfile path)) (\<lambda>data.
     case unmarshal_snapshot c tc data of
       None \<Rightarrow> io_fail BadMetadata
     | Some metadata \<Rightarrow> io_return metadata)"

definition loadSnapshot :: "codec \<Rightarrow> time_codec \<Rightarrow> u64 \<Rightarrow> u64 \<Rightarrow> Snapshot snap" where
  "loadSnapshot c tc index trm =
     (let path = snapshotPath index trm in
      io_then (loadMetadataFromFile c tc (path @ ''.meta'')) (\<lambda>metadata.
      io_then (snap_os (os_readfile path)) (\<lambda>data.
      let checksum = checksum_of data in
      if checksum \<noteq> sn_Checksum metadata then io_fail (ChecksumMismatch (sn_Checksum metadata) checksum)
      else io_return \<lparr>sp_Metadata = metadata, sp_Data = data\<rparr>)))"

text \<open>\<open>filepath.Ext\<close>: the suffix from the last dot.\<close>

definition Ext :: "string \<Rightarrow> string" where
  "Ext name =
     (if CHR ''.'' \<in> set name then CHR ''.'' # rev (takeWhile (\<lambda>c. c \<noteq> CHR ''.'') (rev name)) else '''')"

definition meta_files :: "string list \<Rightarrow> string list" where
  "meta_files names = filter (\<lambda>name. Ext name = ''.meta'') names"

text \<open>Files that cannot be read or decoded are skipped.\<close>

fun load_each :: "codec \<Rightarrow> time_codec \<Rightarrow> string list \<Rightarrow> SnapshotMetadata list snap" where
  "load_each c tc [] s = (s, Inr [])"
| "load_each c tc (name # names) s =
     (case loadMetadataFromFile c tc name s of
        (s, Inl _) \<Rightarrow> load_each c tc names s
      | (s, Inr metadata) \<Rightarrow>
          (case load_each c tc names s of
             (s, Inl e) \<Rightarrow> (s, Inl e)
           | (s, Inr ms) \<Rightarrow> (s, Inr (metadata # ms))))"

fun latest_of :: "SnapshotMetadata option \<Rightarrow> SnapshotMetadata list \<Rightarrow> SnapshotMetadata option" where
  "latest_of latest [] = latest"
| "latest_of latest (m # ms) =
     latest_of (case latest of None \<Rightarrow> Some m
                | Some l \<Rightarrow> if sn_Index m > sn_Index l then Some m else Some l) ms"

definition loadLatestMetadata :: "codec \<Rightarrow> time_codec \<Rightarrow> unit snap" where
  "loadLatestMetadata c tc s =
     (case snap_os os_readdir s of
        (s, Inl (SnapOS NotExist)) \<Rightarrow> (s, Inr ())
      | (s, Inl e) \<Rightarrow> (s, Inl e)
      | (s, Inr names) \<Rightarrow>
          io_then (load_each c tc (meta_files names)) (\<lambda>ms.
          io_modify (sm_currentSnapshot_update (\<lambda>_. latest_of None ms))) s)"

definition NewSnapshotManager :: "codec \<Rightarrow> time_codec \<Rightarrow> string disk \<Rightarrow> int \<Rightarrow> SnapshotManager \<times> (snap_error + unit)" where
  "NewSnapshotManager c tc d maxSnapshots =
     io_then (snap_os os_mkdirall) (\<lambda>_. loadLatestMetadata c tc)
       \<lparr>sm_disk = d, sm_locked = False, sm_currentSnapshot = None, sm_maxSnapshots = maxSnapshots\<rparr>"

definition SM_List :: "codec \<Rightarrow> time_codec \<Rightarrow> SnapshotMetadata list snap" where
  "SM_List c tc =
     with_rlock (io_then (snap_os os_readdir) (\<lambda>names. load_each c tc (meta_files names)))"

definition swap_if :: "nat \<Rightarrow> nat \<Rightarrow> SnapshotMetadata list \<Rightarrow> SnapshotMetadata list" where
  "swap_if i j ms = (if sn_Index (ms ! j) > sn_Index (ms ! i) then ms[i := ms ! j, j := ms ! i] else ms)"

text \<open>The two nested loops that sort by index, largest first.\<close>

definition sort_snapshots :: "SnapshotMetadata list \<Rightarrow> SnapshotMetadata list" where
  "sort_snapshots ms =
     fold (\<lambda>i. fold (swap_if i) [i + 1 ..< length ms]) [0 ..< length ms] ms"

definition remove_snapshot :: "SnapshotMetadata \<Rightarrow> unit snap" where
  "remove_snapshot m =
     (let path = snapshotPath (sn_Index m) (sn_Term m) in
      io_then (io_ignore (snap_os (os_remove path))) (\<lambda>_.
      io_ignore (snap_os (os_remove (path @ ''.meta'')))))"

text \<open>A negative maximum indexes the slice out of range.\<close>

definition cleanupOldSnapshots :: "codec \<Rightarrow> time_codec \<Rightarrow> unit snap" where
  "cleanupOldSnapshots c tc =
     io_then (SM_List c tc) (\<lambda>snapshots.
     io_then (io_get sm_maxSnapshots) (\<lambda>maxSnapshots.
     if maxSnapshots < 0 \<and> maxSnapshots < int (length snapshots) then io_fail (SnapPanic IndexOutOfRange)
     else io_each remove_snapshot (drop (nat maxSnapshots) (sort_snapshots snapshots))))"

text \<open>An error of the clean-up is only logged.\<close>

definition cleanup_logged :: "codec \<Rightarrow> time_codec \<Rightarrow> unit snap" where
  "cleanup_logged c tc s =
     (case cleanupOldSnapshots c tc s of
        (s, Inl Deadlock) \<Rightarrow> (s, Inl Deadlock)
      | (s, Inl (SnapPanic p)) \<Rightarrow> (s, Inl (SnapPanic p))
      | (s, _) \<Rightarrow> (s, Inr ()))"

definition create_snapshot :: "codec \<Rightarrow> time_codec \<Rightarrow> time \<Rightarrow> u64 \<Rightarrow> u64 \<Rightarrow> bytes \<Rightarrow> SnapshotMetadata snap" where
  "create_snapshot c tc now index trm data =
     (let metadata = new_metadata index trm data now;
          finalPath = snapshotPath index trm;
          tempPath = finalPath @ ''.tmp'';
          metadataPath = finalPath @ ''.meta'';
          tempMetadataPath = metadataPath @ ''.tmp'';
          remove = (\<lambda>path. io_ignore (snap_os (os_remove path)))
      in
        io_then (snap_os (os_writefile tempPath data)) (\<lambda>_.
        io_then (io_or_else (snap_os (os_writefile tempMetadataPath (marshal_snapshot c tc metadata)))
                   (remove tempPath)) (\<lambda>_.
        io_then (io_or_else (snap_os (os_rename tempPath finalPath))
                   (io_then (remove tempPath) (\<lambda>_. remove tempMetadataPath))) (\<lambda>_.
        io_then (io_or_else (snap_os (os_rename tempMetadataPath metadataPath)) (remove tempMetadataPath)) (\<lambda>_.
        io_then (io_modify (sm_currentSnapshot_update (\<lambda>_. Some metadata))) (\<lambda>_.
        io_then (cleanup_logged c tc) (\<lambda>_. io_return metadata)))))))"

definition SM_Create :: "codec \<Rightarrow> time_codec \<Rightarrow> time \<Rightarrow> u64 \<Rightarrow> u64 \<Rightarrow> bytes \<Rightarrow> SnapshotMetadata snap" where
  "SM_Create c tc now index trm data = with_lock (create_snapshot c tc now index trm data)"

definition SM_Load :: "codec \<Rightarrow> time_codec \<Rightarrow> Snapshot snap" where
  "SM_Load c tc = with_rlock (
     io_then (io_get sm_currentSnapshot) (\<lambda>current.
     case current of
       None \<Rightarrow> io_fail NoSnapshot
     | Some m \<Rightarrow> loadSnapshot c tc (sn_Index m) (sn_Term m)))"

definition SM_LoadAt :: "codec \<Rightarrow> time_codec \<Rightarrow> u64 \<Rightarrow> u64 \<Rightarrow> Snapshot snap" where
  "SM_LoadAt c tc index trm = with_rlock (loadSnapshot c tc index trm)"

definition GetLatestMetadata :: "SnapshotMetadata option snap" where
  "GetLatestMetadata = with_rlock (io_get sm_currentSnapshot)"


section \<open>Writers\<close>

record SnapshotWriter =
  sw_closed :: bool
  sw_tempPath :: string
  sw_finalPath :: string
  sw_index :: u64
  sw_term :: u64
  sw_hash :: bytes
  sw_size :: int

definition OpenSnapshotWriter :: "u64 \<Rightarrow> u64 \<Rightarrow> SnapshotWriter snap" where
  "OpenSnapshotWriter index trm = with_lock (
     let tempPath = snapshotPath index trm @ ''.tmp'' in
     io_then (snap_os (os_create tempPath)) (\<lambda>_.
     io_return \<lparr>sw_closed = False, sw_tempPath = tempPath, sw_finalPath = snapshotPath index trm,
                sw_index = index, sw_term = trm, sw_hash = [], sw_size = 0\<rparr>))"

text \<open>
  Methods of a writer change the writer and, through it, the manager. Using a closed file is an
  error. Only a write that succeeds counts for the hash and the size.
\<close>

definition SW_Write :: "bytes \<Rightarrow> SnapshotWriter \<times> SnapshotManager \<Rightarrow>
     (SnapshotWriter \<times> SnapshotManager) \<times> (snap_error + nat)" where
  "SW_Write p = (\<lambda>(sw, s).
     if sw_closed sw then ((sw, s), Inl (SnapOS IOError))
     else
       let (d, n, ok) = file_append (sw_tempPath sw) p (sm_disk s);
           s = s\<lparr>sm_disk := d\<rparr>
       in
         if \<not> ok then ((sw, s), Inl (SnapOS IOError))
         else ((sw\<lparr>sw_hash := sw_hash sw @ take n p, sw_size := sw_size sw + int n\<rparr>, s), Inr n))"

definition finish_writer :: "codec \<Rightarrow> time_codec \<Rightarrow> time \<Rightarrow> SnapshotWriter \<Rightarrow> unit snap" where
  "finish_writer c tc now sw =
     (let metadata = (new_metadata (sw_index sw) (sw_term sw) (sw_hash sw) now)\<lparr>sn_Size := sw_size sw\<rparr>;
          metadataPath = sw_finalPath sw @ ''.meta'';
          tempMetadataPath = metadataPath @ ''.tmp'';
          remove = (\<lambda>path. io_ignore (snap_os (os_remove path)))
      in
        io_then (io_or_else (if sw_closed sw then io_fail (SnapOS IOError) else snap_os os_close)
                   (remove (sw_tempPath sw))) (\<lambda>_.
        io_then (io_or_else (snap_os (os_writefile tempMetadataPath (marshal_snapshot c tc metadata)))
                   (remove (sw_tempPath sw))) (\<lambda>_.
        io_then (io_or_else (snap_os (os_rename (sw_tempPath sw) (sw_finalPath sw)))
                   (io_then (remove (sw_tempPath sw)) (\<lambda>_. remove tempMetadataPath))) (\<lambda>_.
        io_then (io_or_else (snap_os (os_rename tempMetadataPath metadataPath)) (remove tempMetadataPath)) (\<lambda>_.
        with_lock (io_modify (sm_currentSnapshot_update (\<lambda>_. Some metadata))))))))"

definition SW_Close :: "codec \<Rightarrow> time_codec \<Rightarrow> time \<Rightarrow> SnapshotWriter \<times> SnapshotManager \<Rightarrow>
     (SnapshotWriter \<times> SnapshotManager) \<times> (snap_error + unit)" where
  "SW_Close c tc now = (\<lambda>(sw, s).
     case finish_writer c tc now sw s of (s, r) \<Rightarrow> ((sw\<lparr>sw_closed := True\<rparr>, s), r))"

definition SW_Abort :: "SnapshotWriter \<times> SnapshotManager \<Rightarrow>
     (SnapshotWriter \<times> SnapshotManager) \<times> (snap_error + unit)" where
  "SW_Abort = (\<lambda>(sw, s).
     let (s, _) = (if sw_closed sw then (s, Inl (SnapOS IOError)) else snap_os os_close s);
         (s, r) = snap_os (os_remove (sw_tempPath sw)) s
     in ((sw\<lparr>sw_closed := True\<rparr>, s), r))"


section \<open>File names\<close>

lemma append_marker: "a @ x # as = b @ x # bs \<Longrightarrow> x \<notin> set a \<Longrightarrow> x \<notin> set b \<Longrightarrow> a = b \<and> as = bs"
proof (induction a arbitrary: b)
  case Nil
  then show ?case by (cases b) auto
next
  case (Cons y a)
  then show ?case by (cases b) auto
qed

lemma marker_not_decimal: "CHR ''-'' \<notin> set (decimal n)" "CHR ''.'' \<notin> set (decimal n)"
  using decimal_digits [of _ n] by fastforce+

lemma snapshotPath_inject [simp]: "snapshotPath i t = snapshotPath i' t' \<longleftrightarrow> i = i' \<and> t = t'"
proof
  assume "snapshotPath i t = snapshotPath i' t'"
  then have e: "decimal (unat i) @ CHR ''-'' # decimal (unat t) @ ''.snap'' =
      decimal (unat i') @ CHR ''-'' # decimal (unat t') @ ''.snap''" by (simp add: snapshotPath_def)
  have "decimal (unat i) = decimal (unat i') \<and> decimal (unat t) @ ''.snap'' = decimal (unat t') @ ''.snap''"
    by (rule append_marker [OF e marker_not_decimal(1) marker_not_decimal(1)])
  then show "i = i' \<and> t = t'" by (simp add: word_unat_eq_iff)
qed simp

text \<open>The four files of a snapshot are different, and no file of another snapshot.\<close>

definition snapshot_files :: "u64 \<Rightarrow> u64 \<Rightarrow> string set" where
  "snapshot_files i t =
     (let p = snapshotPath i t in {p, p @ ''.tmp'', p @ ''.meta'', p @ ''.meta.tmp''})"

lemma suffix_differs: "rev u ! k \<noteq> rev v ! k \<Longrightarrow> k < length u \<Longrightarrow> k < length v \<Longrightarrow> a @ u \<noteq> b @ v"
proof
  assume "a @ u = b @ v"
  then have "(rev u @ rev a) ! k = (rev v @ rev b) ! k" by (metis rev_append)
  moreover assume "rev u ! k \<noteq> rev v ! k" "k < length u" "k < length v"
  ultimately show False by (simp add: nth_append)
qed

lemma snapshotPath_snap: "\<exists>p. snapshotPath i t = p @ ''.snap''"
  unfolding snapshotPath_def by (metis append.assoc)

lemma own_files [simp]:
  "snapshotPath i t @ ''.tmp'' \<noteq> snapshotPath i t" "snapshotPath i t @ ''.meta'' \<noteq> snapshotPath i t"
  "snapshotPath i t @ ''.meta.tmp'' \<noteq> snapshotPath i t" "snapshotPath i t \<noteq> snapshotPath i t @ ''.tmp''"
  "snapshotPath i t \<noteq> snapshotPath i t @ ''.meta''" "snapshotPath i t \<noteq> snapshotPath i t @ ''.meta.tmp''"
  by simp_all

lemma other_files:
  assumes "(i', t') \<noteq> (i, t)"
  shows "snapshotPath i' t' \<notin> snapshot_files i t" "snapshotPath i' t' @ ''.meta'' \<notin> snapshot_files i t"
proof -
  obtain p p' where p: "snapshotPath i t = p @ ''.snap''" "snapshotPath i' t' = p' @ ''.snap''"
    using snapshotPath_snap by metis
  have ne: "snapshotPath i' t' \<noteq> snapshotPath i t" using assms by simp
  have "p' @ ''.snap'' \<noteq> (p @ ''.snap'') @ ''.tmp''" "p' @ ''.snap'' \<noteq> (p @ ''.snap'') @ ''.meta.tmp''"
    by (rule suffix_differs [of _ 1]; simp)+
  moreover have "p' @ ''.snap'' \<noteq> (p @ ''.snap'') @ ''.meta''" by (rule suffix_differs [of _ 0]; simp)
  ultimately show "snapshotPath i' t' \<notin> snapshot_files i t"
    using ne unfolding p snapshot_files_def Let_def by simp
  have a: "snapshotPath i' t' @ ''.meta'' \<noteq> x @ ''.snap''" "snapshotPath i' t' @ ''.meta'' \<noteq> x @ ''.tmp''"
    "snapshotPath i' t' @ ''.meta'' \<noteq> x @ ''.meta.tmp''" for x
    by (rule suffix_differs [of _ 0]; simp)+
  show "snapshotPath i' t' @ ''.meta'' \<notin> snapshot_files i t"
    using ne a [of p] a(2,3) [of "snapshotPath i t"] unfolding snapshot_files_def Let_def by (simp add: p(1))
qed

end
