(* ===== verification/SnapshotGuarantees.thy ===== *)
theory SnapshotGuarantees
  imports SnapshotStore
begin

text \<open>
  What the snapshot files promise: a stream that was written and closed can be loaded, now and
  after a restart; what is loaded has the checksum of its metadata; a new manager finds the
  snapshot with the largest index; writing a snapshot leaves the others alone. And what they do
  not: \<open>Create\<close> never returns.
\<close>

section \<open>Storing a stream\<close>

text \<open>
  On a disk where no call fails, operations take the files and the current snapshot to a
  certain state and give a certain result, whether or not the lock is held.
\<close>

definition files_are :: "bool \<Rightarrow> (string \<rightharpoonup> bytes) \<Rightarrow> SnapshotMetadata option \<Rightarrow> SnapshotManager \<Rightarrow> bool" where
  "files_are locked fs cur s \<longleftrightarrow>
     fault_free (sm_disk s) \<and> sm_locked s = locked \<and> dk_files (sm_disk s) = fs \<and> sm_currentSnapshot s = cur"

definition gives_files :: "bool \<Rightarrow> 'a snap \<Rightarrow> (string \<rightharpoonup> bytes) \<Rightarrow> SnapshotMetadata option \<Rightarrow> 'a \<Rightarrow>
    (string \<rightharpoonup> bytes) \<Rightarrow> SnapshotMetadata option \<Rightarrow> bool" where
  "gives_files l m fs cur x fs' cur' \<longleftrightarrow>
     succeeds (files_are l fs cur) m (\<lambda>y s. y = x \<and> files_are l fs' cur' s)"

lemma gives_files_then:
  assumes "gives_files l m fs cur x fs1 cur1" "gives_files l (f x) fs1 cur1 y fs' cur'"
  shows "gives_files l (io_then m f) fs cur y fs' cur'"
  unfolding gives_files_def
proof (rule succeeds_then)
  show "succeeds (files_are l fs cur) m (\<lambda>z s. z = x \<and> files_are l fs1 cur1 s)"
    using assms(1) by (simp add: gives_files_def)
  show "succeeds (\<lambda>s. z = x \<and> files_are l fs1 cur1 s) (f z) (\<lambda>z s. z = y \<and> files_are l fs' cur' s)" for z
    by (rule succeeds_assuming) (use assms(2) in \<open>simp add: gives_files_def\<close>)
qed

lemma gives_files_or_else:
  "gives_files l m fs cur x fs' cur' \<Longrightarrow> gives_files l (io_or_else m c) fs cur x fs' cur'"
  unfolding gives_files_def succeeds_def io_or_else_def by fastforce

lemma gives_files_os:
  assumes "\<And>d. fault_free d \<Longrightarrow> dk_files d = fs \<Longrightarrow> \<exists>d'. m d = (d', Inr x) \<and> fault_free d' \<and> dk_files d' = fs'"
  shows "gives_files l (snap_os m) fs cur x fs' cur"
  unfolding gives_files_def
proof (rule succeedsI)
  fix s assume f: "files_are l fs cur s"
  obtain d' where d: "m (sm_disk s) = (d', Inr x)" "fault_free d'" "dk_files d' = fs'"
    using assms [of "sm_disk s"] f by (auto simp: files_are_def)
  then show "\<exists>s' y. snap_os m s = (s', Inr y) \<and> y = x \<and> files_are l fs' cur s'"
    using f by (simp add: snap_os_def files_are_def)
qed

lemma gives_files_calls:
  "gives_files l (snap_os (os_create f)) fs cur () (fs(f \<mapsto> [])) cur"
  "gives_files l (snap_os (os_writefile f p)) fs cur () (fs(f \<mapsto> p)) cur"
  "gives_files l (snap_os os_noop) fs cur () fs cur"
  "fs f = Some c \<Longrightarrow> gives_files l (snap_os (os_rename f g)) fs cur () (fs(f := None, g \<mapsto> c)) cur"
  "fs f = Some c \<Longrightarrow> gives_files l (snap_os (os_readfile f)) fs cur c fs cur"
  by (rule gives_files_os; simp add: os_create_def os_writefile_def os_noop_def os_rename_def os_readfile_def
      os_call_fault_free io_then_def file_append_def syscall_def fault_free_def Let_def)+

lemma gives_files_return: "gives_files l (io_return x) fs cur x fs cur"
  unfolding gives_files_def by auto

lemma gives_files_get: "gives_files l (io_get sm_currentSnapshot) fs cur cur fs cur"
  unfolding gives_files_def by (auto simp: files_are_def)

lemma gives_files_set: "gives_files l (io_modify (sm_currentSnapshot_update (\<lambda>_. cur'))) fs cur () fs cur'"
  unfolding gives_files_def by (auto simp: files_are_def)

lemma gives_files_run:
  "gives_files l m fs cur x fs' cur' \<Longrightarrow> files_are l fs cur s \<Longrightarrow> \<exists>s'. m s = (s', Inr x) \<and> files_are l fs' cur' s'"
  unfolding gives_files_def succeeds_def by blast

lemma gives_files_lock:
  assumes "gives_files True m fs cur x fs' cur'"
  shows "gives_files False (with_lock m) fs cur x fs' cur'"
  unfolding gives_files_def
proof (rule succeedsI)
  fix s assume f: "files_are False fs cur s"
  then have "files_are True fs cur (s\<lparr>sm_locked := True\<rparr>)" by (simp add: files_are_def)
  then obtain s' where "m (s\<lparr>sm_locked := True\<rparr>) = (s', Inr x)" "files_are True fs' cur' s'"
    using gives_files_run [OF assms] by blast
  then show "\<exists>s' y. with_lock m s = (s', Inr y) \<and> y = x \<and> files_are False fs' cur' s'"
    using f by (auto simp: with_lock_def files_are_def)
qed

lemma gives_files_rlock:
  "gives_files False m fs cur x fs' cur' \<Longrightarrow> gives_files False (with_rlock m) fs cur x fs' cur'"
  unfolding gives_files_def succeeds_def with_rlock_def by (simp add: files_are_def)

lemma gives_files_metadata:
  assumes "fs path = Some (marshal_snapshot c tc m)" "snapshot_ok c tc m"
  shows "gives_files l (loadMetadataFromFile c tc path) fs cur (normal_snapshot m) fs cur"
  unfolding loadMetadataFromFile_def
  by (rule gives_files_then [OF gives_files_calls(5) [where fs = fs and f = path, OF assms(1)]])
    (simp add: unmarshal_marshal_snapshot [OF assms(2)] gives_files_return)

text \<open>A stored snapshot: both of its files are there and belong together.\<close>

definition stores :: "codec \<Rightarrow> time_codec \<Rightarrow> (string \<rightharpoonup> bytes) \<Rightarrow> SnapshotMetadata \<Rightarrow> bytes \<Rightarrow> bool" where
  "stores c tc fs m data \<longleftrightarrow>
     (let path = snapshotPath (sn_Index m) (sn_Term m) in
      fs path = Some data \<and> fs (path @ ''.meta'') = Some (marshal_snapshot c tc m) \<and>
      snapshot_ok c tc m \<and> sn_Checksum m = checksum_of data \<and> sn_Configuration m = None)"

lemma gives_files_load:
  assumes "stores c tc fs m data"
  shows "gives_files l (loadSnapshot c tc (sn_Index m) (sn_Term m)) fs cur \<lparr>sp_Metadata = m, sp_Data = data\<rparr> fs cur"
proof -
  let ?path = "snapshotPath (sn_Index m) (sn_Term m)"
  have d: "fs ?path = Some data" "sn_Checksum m = checksum_of data" "normal_snapshot m = m"
    "fs (?path @ ''.meta'') = Some (marshal_snapshot c tc m)" "snapshot_ok c tc m"
    using assms by (simp_all add: stores_def normal_snapshot_def Let_def)
  have "gives_files l (loadMetadataFromFile c tc (?path @ ''.meta'')) fs cur m fs cur"
    using gives_files_metadata [where fs = fs and cur = cur and l = l, OF d(4,5)] d(3) by simp
  then show ?thesis
    unfolding loadSnapshot_def Let_def
    by (rule gives_files_then) (rule gives_files_then [OF gives_files_calls(5) [where fs = fs, OF d(1)]],
      simp add: d(2) gives_files_return)
qed

text \<open>A stream is written in pieces, and closed after the last one.\<close>

definition store_stream ::
  "codec \<Rightarrow> time_codec \<Rightarrow> time \<Rightarrow> u64 \<Rightarrow> u64 \<Rightarrow> bytes list \<Rightarrow> unit snap" where
  "store_stream c tc now index trm chunks =
     io_then (OpenSnapshotWriter index trm) (\<lambda>sw s.
     case io_then (io_each (\<lambda>p. io_then (SW_Write p) (\<lambda>_. io_return ())) chunks)
            (\<lambda>_. SW_Close c tc now) (sw, s) of
       ((_, s), r) \<Rightarrow> (s, r))"

definition writer_at :: "u64 \<Rightarrow> u64 \<Rightarrow> bytes \<Rightarrow> (string \<rightharpoonup> bytes) \<Rightarrow> SnapshotMetadata option \<Rightarrow>
    SnapshotWriter \<times> SnapshotManager \<Rightarrow> bool" where
  "writer_at i t sofar fs cur = (\<lambda>(sw, s).
     sw = \<lparr>sw_closed = False, sw_tempPath = snapshotPath i t @ ''.tmp'', sw_finalPath = snapshotPath i t,
           sw_index = i, sw_term = t, sw_hash = sofar, sw_size = int (length sofar)\<rparr> \<and>
     files_are False (fs(snapshotPath i t @ ''.tmp'' \<mapsto> sofar)) cur s)"

lemma write_piece:
  "succeeds (writer_at i t sofar fs cur) (SW_Write p) (\<lambda>_. writer_at i t (sofar @ p) fs cur)"
  by (rule succeedsI) (auto simp: writer_at_def SW_Write_def files_are_def file_append_def syscall_def
      fault_free_def Let_def)

lemma write_pieces:
  "succeeds (writer_at i t sofar fs cur) (io_each (\<lambda>p. io_then (SW_Write p) (\<lambda>_. io_return ())) chunks)
     (\<lambda>_. writer_at i t (sofar @ concat chunks) fs cur)"
proof (induction chunks arbitrary: sofar)
  case Nil
  then show ?case by (auto simp: io_return_def succeeds_def)
next
  case (Cons p chunks)
  then show ?case
    by (auto intro!: succeeds_then [OF succeeds_then [OF write_piece [of i t sofar fs cur p]]] succeeds_return
        simp: Cons [of "sofar @ p", simplified])
qed

definition stored_files :: "codec \<Rightarrow> time_codec \<Rightarrow> time \<Rightarrow> u64 \<Rightarrow> u64 \<Rightarrow> bytes \<Rightarrow> (string \<rightharpoonup> bytes) \<Rightarrow> (string \<rightharpoonup> bytes)" where
  "stored_files c tc now i t data fs =
     (let p = snapshotPath i t in
      fs(p @ ''.tmp'' := None, p @ ''.meta.tmp'' := None, p \<mapsto> data,
         p @ ''.meta'' \<mapsto> marshal_snapshot c tc (new_metadata i t data now)))"

lemma gives_files_renames:
  fixes fs :: "string \<rightharpoonup> bytes" and i t :: u64 and data :: bytes and c tc now
  defines "fs1 \<equiv> fs(snapshotPath i t @ ''.tmp'' \<mapsto> data,
    snapshotPath i t @ ''.meta.tmp'' \<mapsto> marshal_snapshot c tc (new_metadata i t data now))"
  defines "fs2 \<equiv> fs1(snapshotPath i t @ ''.tmp'' := None, snapshotPath i t \<mapsto> data)"
  shows "gives_files l (snap_os (os_rename (snapshotPath i t @ ''.tmp'') (snapshotPath i t))) fs1 cur () fs2 cur"
    and "gives_files l (snap_os (os_rename (snapshotPath i t @ ''.meta.tmp'') (snapshotPath i t @ ''.meta'')))
      fs2 cur () (stored_files c tc now i t data fs) cur"
proof -
  have files: "stored_files c tc now i t data fs = fs2(snapshotPath i t @ ''.meta.tmp'' := None,
      snapshotPath i t @ ''.meta'' \<mapsto> marshal_snapshot c tc (new_metadata i t data now))"
    by (rule ext) (simp add: stored_files_def fs2_def fs1_def Let_def)
  show "gives_files l (snap_os (os_rename (snapshotPath i t @ ''.tmp'') (snapshotPath i t))) fs1 cur () fs2 cur"
    unfolding fs2_def by (rule gives_files_calls(4)) (simp add: fs1_def)
  show "gives_files l (snap_os (os_rename (snapshotPath i t @ ''.meta.tmp'') (snapshotPath i t @ ''.meta'')))
      fs2 cur () (stored_files c tc now i t data fs) cur"
    unfolding files by (rule gives_files_calls(4)) (simp add: fs2_def fs1_def)
qed

lemma finish_writer_files:
  assumes "sw = \<lparr>sw_closed = False, sw_tempPath = snapshotPath i t @ ''.tmp'', sw_finalPath = snapshotPath i t,
           sw_index = i, sw_term = t, sw_hash = data, sw_size = int (length data)\<rparr>"
  shows "gives_files False (finish_writer c tc now sw) (fs(snapshotPath i t @ ''.tmp'' \<mapsto> data)) cur ()
     (stored_files c tc now i t data fs) (Some (new_metadata i t data now))"
proof -
  have m: "(new_metadata i t data now)\<lparr>sn_Size := int (length data)\<rparr> = new_metadata i t data now"
    by (simp add: new_metadata_def)
  note steps = gives_files_calls(3) gives_files_calls(2) gives_files_renames
  show ?thesis
    unfolding finish_writer_def Let_def assms SnapshotWriter.simps m append.simps append_assoc if_False
    by (rule gives_files_then, rule gives_files_or_else, rule steps)+
      (rule gives_files_lock [OF gives_files_set])
qed

lemma close_files:
  "succeeds (writer_at i t data fs cur) (SW_Close c tc now)
     (\<lambda>_ (_, s). files_are False (stored_files c tc now i t data fs) (Some (new_metadata i t data now)) s)"
proof (rule succeedsI)
  fix w assume w: "writer_at i t data fs cur w"
  obtain sw s where ws: "w = (sw, s)" by force
  have "files_are False (fs(snapshotPath i t @ ''.tmp'' \<mapsto> data)) cur s"
    "gives_files False (finish_writer c tc now sw) (fs(snapshotPath i t @ ''.tmp'' \<mapsto> data)) cur ()
      (stored_files c tc now i t data fs) (Some (new_metadata i t data now))"
    using w finish_writer_files [of sw i t data c tc now fs cur] by (simp_all add: writer_at_def ws)
  then show "\<exists>w' x. SW_Close c tc now w = (w', Inr x) \<and>
      (case w' of (_, s) \<Rightarrow> files_are False (stored_files c tc now i t data fs) (Some (new_metadata i t data now)) s)"
    using gives_files_run by (fastforce simp: SW_Close_def ws)
qed

lemma store_stream_files:
  "gives_files False (store_stream c tc now i t chunks) fs cur ()
     (stored_files c tc now i t (concat chunks) fs) (Some (new_metadata i t (concat chunks) now))"
proof -
  let ?sw = "\<lparr>sw_closed = False, sw_tempPath = snapshotPath i t @ ''.tmp'', sw_finalPath = snapshotPath i t,
      sw_index = i, sw_term = t, sw_hash = [], sw_size = 0\<rparr>"
  have o: "gives_files False (OpenSnapshotWriter i t) fs cur ?sw (fs(snapshotPath i t @ ''.tmp'' \<mapsto> [])) cur"
    unfolding OpenSnapshotWriter_def Let_def
    by (intro gives_files_lock gives_files_then [OF gives_files_calls(1)] gives_files_return)
  have w: "succeeds (writer_at i t [] fs cur)
      (io_then (io_each (\<lambda>p. io_then (SW_Write p) (\<lambda>_. io_return ())) chunks) (\<lambda>_. SW_Close c tc now))
      (\<lambda>_ (_, s). files_are False (stored_files c tc now i t (concat chunks) fs)
         (Some (new_metadata i t (concat chunks) now)) s)"
    using succeeds_then [OF write_pieces [of i t "[]" fs cur chunks] close_files] by simp
  show ?thesis
    unfolding store_stream_def
  proof (rule gives_files_then [OF o])
    show "gives_files False (\<lambda>s. case io_then (io_each (\<lambda>p. io_then (SW_Write p) (\<lambda>_. io_return ())) chunks)
            (\<lambda>_. SW_Close c tc now) (?sw, s) of ((_, s), r) \<Rightarrow> (s, r))
        (fs(snapshotPath i t @ ''.tmp'' \<mapsto> [])) cur ()
        (stored_files c tc now i t (concat chunks) fs) (Some (new_metadata i t (concat chunks) now))"
      unfolding gives_files_def
    proof (rule succeedsI)
      fix s assume "files_are False (fs(snapshotPath i t @ ''.tmp'' \<mapsto> [])) cur s"
      then have "writer_at i t [] fs cur (?sw, s)" by (simp add: writer_at_def)
      from succeedsE [OF w this] show "\<exists>s' x. (case io_then (io_each (\<lambda>p. io_then (SW_Write p) (\<lambda>_. io_return ())) chunks)
            (\<lambda>_. SW_Close c tc now) (?sw, s) of ((_, s), r) \<Rightarrow> (s, r)) = (s', Inr x) \<and> x = () \<and>
          files_are False (stored_files c tc now i t (concat chunks) fs) (Some (new_metadata i t (concat chunks) now)) s'"
        by fastforce
    qed
  qed
qed

lemma stored_files_stores:
  "snapshot_ok c tc (new_metadata i t data now) \<Longrightarrow>
     stores c tc (stored_files c tc now i t data fs) (new_metadata i t data now) data"
  by (simp add: stores_def stored_files_def new_metadata_def Let_def)

lemma gives_files_current:
  assumes "stores c tc fs m data"
  shows "gives_files False (SM_Load c tc) fs (Some m) \<lparr>sp_Metadata = m, sp_Data = data\<rparr> fs (Some m)"
  unfolding SM_Load_def
  by (rule gives_files_rlock, rule gives_files_then [OF gives_files_get]) (simp add: gives_files_load [OF assms])

text \<open>What can be read and decoded, and the latest of it.\<close>

definition readable :: "codec \<Rightarrow> time_codec \<Rightarrow> (string \<rightharpoonup> bytes) \<Rightarrow> string \<Rightarrow> SnapshotMetadata option" where
  "readable c tc fs name = Option.bind (fs name) (unmarshal_snapshot c tc)"

definition listed :: "codec \<Rightarrow> time_codec \<Rightarrow> (string \<rightharpoonup> bytes) \<Rightarrow> SnapshotMetadata list" where
  "listed c tc fs = List.map_filter (readable c tc fs) (meta_files (sorted_list_of_set (dom fs)))"

lemma load_metadata_run:
  assumes "files_are l fs cur s"
  shows "\<exists>s'. loadMetadataFromFile c tc name s =
      (s', case readable c tc fs name of None \<Rightarrow> Inl (if fs name = None then SnapOS NotExist else BadMetadata) | Some m \<Rightarrow> Inr m) \<and>
    files_are l fs cur s'"
  using assms
  by (cases "fs name") (auto simp: loadMetadataFromFile_def readable_def files_are_def io_then_def snap_os_def
      os_readfile_def os_call_fault_free io_fail_def io_return_def split: option.splits)

lemma gives_files_load_each:
  "gives_files l (load_each c tc names) fs cur (List.map_filter (readable c tc fs) names) fs cur"
  unfolding gives_files_def
proof (rule succeedsI)
  fix s assume "files_are l fs cur s"
  then show "\<exists>s' x. load_each c tc names s = (s', Inr x) \<and> x = List.map_filter (readable c tc fs) names \<and> files_are l fs cur s'"
  proof (induction names arbitrary: s)
    case (Cons name names)
    obtain s1 where "loadMetadataFromFile c tc name s =
      (s1, case readable c tc fs name of None \<Rightarrow> Inl (if fs name = None then SnapOS NotExist else BadMetadata) | Some m \<Rightarrow> Inr m)"
      "files_are l fs cur s1"
      using load_metadata_run [OF Cons.prems] by blast
    moreover obtain s2 where "load_each c tc names s1 = (s2, Inr (List.map_filter (readable c tc fs) names))" "files_are l fs cur s2"
      using Cons.IH [OF calculation(2)] by blast
    ultimately show ?case by (auto simp: map_filter_simps split: option.split)
  qed (simp add: map_filter_simps)
qed

lemma latest_of_max:
  "latest_of latest ms = Some m \<Longrightarrow>
     (m \<in> set ms \<or> latest = Some m) \<and> (\<forall>m'\<in>set ms. sn_Index m' \<le> sn_Index m) \<and>
     (\<forall>m'. latest = Some m' \<longrightarrow> sn_Index m' \<le> sn_Index m)"
proof (induction ms arbitrary: latest)
  case (Cons a ms)
  show ?case using Cons.IH Cons.prems by (cases latest) (fastforce split: if_splits)+
qed simp

lemma latest_of_None: "latest_of latest ms = None \<longleftrightarrow> latest = None \<and> ms = []"
  by (induction ms arbitrary: latest) (auto split: option.split)

lemma gives_files_latest:
  "gives_files l (loadLatestMetadata c tc) fs cur () fs (latest_of None (listed c tc fs))"
  unfolding gives_files_def
proof (rule succeedsI)
  fix s assume s: "files_are l fs cur s"
  have "gives_files l (snap_os os_readdir) fs cur (sorted_list_of_set (dom fs)) fs cur"
    by (rule gives_files_os) (simp add: os_readdir_def os_call_fault_free)
  from gives_files_run [OF this s]
  obtain s1 where s1: "snap_os os_readdir s = (s1, Inr (sorted_list_of_set (dom fs)))" "files_are l fs cur s1" by blast
  have "gives_files l (io_then (load_each c tc (meta_files (sorted_list_of_set (dom fs))))
      (\<lambda>ms. io_modify (sm_currentSnapshot_update (\<lambda>_. latest_of None ms)))) fs cur () fs (latest_of None (listed c tc fs))"
    unfolding listed_def by (rule gives_files_then [OF gives_files_load_each gives_files_set])
  from gives_files_run [OF this s1(2)]
  show "\<exists>s' y. loadLatestMetadata c tc s = (s', Inr y) \<and> y = () \<and> files_are l fs (latest_of None (listed c tc fs)) s'"
    using s1(1) by (auto simp: loadLatestMetadata_def)
qed

lemma new_manager_run:
  assumes "fault_free d"
  shows "\<exists>s. NewSnapshotManager c tc d n = (s, Inr ()) \<and>
    files_are False (dk_files d) (latest_of None (listed c tc (dk_files d))) s"
  unfolding NewSnapshotManager_def
  by (rule gives_files_run [OF gives_files_then [OF gives_files_calls(3) gives_files_latest]])
    (use assms in \<open>simp add: files_are_def\<close>)

lemma set_listed:
  assumes "finite (dom fs)"
  shows "m \<in> set (listed c tc fs) \<longleftrightarrow> (\<exists>name. Ext name = ''.meta'' \<and> readable c tc fs name = Some m)"
proof -
  have "name \<in> dom fs" if "readable c tc fs name = Some m" for name
    using that by (auto simp: readable_def bind_eq_Some_conv)
  moreover have "m \<in> set (List.map_filter f xs) \<longleftrightarrow> (\<exists>x\<in>set xs. f x = Some m)" for f :: "string \<Rightarrow> SnapshotMetadata option" and xs
    by (induction xs) (auto simp: map_filter_simps split: option.splits)
  ultimately show ?thesis using assms by (auto simp: listed_def meta_files_def) blast
qed

lemma Ext_meta [simp]: "Ext (p @ ''.meta'') = ''.meta''"
  by (simp add: Ext_def)

text \<open>The only file of a stored snapshot that is decoded when a manager starts is its metadata.\<close>

lemma Ext_others [simp]: "Ext (p @ ''.tmp'') = ''.tmp''" "Ext (p @ ''.meta.tmp'') = ''.tmp''" "Ext (snapshotPath i t) = ''.snap''"
  by (simp_all add: Ext_def snapshotPath_def)

lemma stored_is_latest:
  assumes "finite (dom fs)" "snapshot_ok c tc (new_metadata i t data now)"
    and older: "\<And>name m. Ext name = ''.meta'' \<Longrightarrow> name \<noteq> snapshotPath i t @ ''.meta'' \<Longrightarrow>
      Option.bind (fs name) (unmarshal_snapshot c tc) = Some m \<Longrightarrow> sn_Index m < i"
  shows "latest_of None (listed c tc (stored_files c tc now i t data fs)) = Some (new_metadata i t data now)"
proof -
  let ?m = "new_metadata i t data now" and ?fs = "stored_files c tc now i t data fs"
  have fin: "finite (dom ?fs)" using assms(1) by (simp add: stored_files_def Let_def)
  have own: "readable c tc ?fs (snapshotPath i t @ ''.meta'') = Some ?m"
    using unmarshal_marshal_snapshot [OF assms(2)]
    by (simp add: readable_def stored_files_def Let_def new_metadata_def normal_snapshot_def)
  have mem: "?m \<in> set (listed c tc ?fs)" using set_listed [OF fin] own Ext_meta by metis
  then obtain l where l: "latest_of None (listed c tc ?fs) = Some l"
    by (metis latest_of_None list.set(1) empty_iff not_Some_eq)
  then have "l \<in> set (listed c tc ?fs)" "sn_Index ?m \<le> sn_Index l" using latest_of_max [OF l] mem by auto
  then obtain name where name: "Ext name = ''.meta''" "readable c tc ?fs name = Some l" using set_listed [OF fin] by auto
  have "name = snapshotPath i t @ ''.meta''"
  proof (rule ccontr)
    assume n: "name \<noteq> snapshotPath i t @ ''.meta''"
    have "name \<noteq> snapshotPath i t" "name \<noteq> snapshotPath i t @ ''.tmp''" "name \<noteq> snapshotPath i t @ ''.meta.tmp''"
      using name(1) by auto
    then have "sn_Index l < i" using older [OF name(1) n] name(2) n
      by (simp add: readable_def stored_files_def Let_def)
    then show False using \<open>sn_Index ?m \<le> sn_Index l\<close> by (simp add: new_metadata_def)
  qed
  then show ?thesis using l own name by simp
qed

text \<open>A snapshot written as a stream, in any pieces, is what \<open>Load\<close> and \<open>LoadAt\<close>
  return, with its index, term, size and checksum; on a disk where no call fails.
\<close>

theorem snapshot_stream_is_loaded:
  assumes "fault_free (sm_disk s)" "\<not> sm_locked s"
    and "snapshot_ok c tc (new_metadata i t (concat chunks) now)"
  shows "\<exists>s1. store_stream c tc now i t chunks s = (s1, Inr ()) \<and>
    snd (SM_Load c tc s1) = Inr \<lparr>sp_Metadata = new_metadata i t (concat chunks) now, sp_Data = concat chunks\<rparr> \<and>
    snd (SM_LoadAt c tc i t s1) = Inr \<lparr>sp_Metadata = new_metadata i t (concat chunks) now, sp_Data = concat chunks\<rparr>"
proof -
  let ?m = "new_metadata i t (concat chunks) now"
  let ?fs = "stored_files c tc now i t (concat chunks) (dk_files (sm_disk s))"
  have "files_are False (dk_files (sm_disk s)) (sm_currentSnapshot s) s" using assms by (simp add: files_are_def)
  from gives_files_run [OF store_stream_files this]
  obtain s1 where s1: "store_stream c tc now i t chunks s = (s1, Inr ())" "files_are False ?fs (Some ?m) s1" by blast
  have stores: "stores c tc ?fs ?m (concat chunks)" by (rule stored_files_stores [OF assms(3)])
  have "gives_files False (SM_LoadAt c tc i t) ?fs (Some ?m) \<lparr>sp_Metadata = ?m, sp_Data = concat chunks\<rparr> ?fs (Some ?m)"
    unfolding SM_LoadAt_def
    using gives_files_rlock [OF gives_files_load [OF stores]] by (simp add: new_metadata_def)
  from gives_files_run [OF this s1(2)] gives_files_run [OF gives_files_current [OF stores] s1(2)] s1(1)
  show ?thesis by fastforce
qed

text \<open>C19: A snapshot whose index is larger than those of all metadata files that can be decoded is
  what a new manager on the same disk loads, after a restart.
\<close>

theorem snapshot_survives_restart:
  assumes "fault_free (sm_disk s)" "\<not> sm_locked s" "finite (dom (dk_files (sm_disk s)))"
    and "snapshot_ok c tc (new_metadata i t (concat chunks) now)"
    and older: "\<And>name m. Ext name = ''.meta'' \<Longrightarrow> name \<noteq> snapshotPath i t @ ''.meta'' \<Longrightarrow>
      Option.bind (dk_files (sm_disk s) name) (unmarshal_snapshot c tc) = Some m \<Longrightarrow> sn_Index m < i"
  shows "\<exists>s1 s2. store_stream c tc now i t chunks s = (s1, Inr ()) \<and>
    NewSnapshotManager c tc (sm_disk s1) n = (s2, Inr ()) \<and>
    snd (SM_Load c tc s2) = Inr \<lparr>sp_Metadata = new_metadata i t (concat chunks) now, sp_Data = concat chunks\<rparr>"
proof -
  let ?m = "new_metadata i t (concat chunks) now"
  let ?fs = "stored_files c tc now i t (concat chunks) (dk_files (sm_disk s))"
  have "files_are False (dk_files (sm_disk s)) (sm_currentSnapshot s) s" using assms by (simp add: files_are_def)
  from gives_files_run [OF store_stream_files this]
  obtain s1 where s1: "store_stream c tc now i t chunks s = (s1, Inr ())" "files_are False ?fs (Some ?m) s1" by blast
  then obtain s2 where s2: "NewSnapshotManager c tc (sm_disk s1) n = (s2, Inr ())"
    "files_are False ?fs (latest_of None (listed c tc ?fs)) s2"
    using new_manager_run [of "sm_disk s1"] by (fastforce simp: files_are_def)
  have stores: "stores c tc ?fs ?m (concat chunks)" by (rule stored_files_stores [OF assms(4)])
  have "latest_of None (listed c tc ?fs) = Some ?m"
    by (rule stored_is_latest) (use assms in auto)
  then show ?thesis
    using gives_files_run [OF gives_files_current [OF stores]] s1(1) s2 by fastforce
qed

section \<open>What is not touched\<close>

text \<open>One file keeps its contents, whatever fails.\<close>

definition file_is :: "string \<Rightarrow> bytes option \<Rightarrow> SnapshotManager \<Rightarrow> bool" where
  "file_is f v s \<longleftrightarrow> dk_files (sm_disk s) f = v"

named_theorems keeps_file \<open>operations that keep a file\<close>

lemma keeps_file_os:
  "io_keeps (\<lambda>d. dk_files d f = v) m \<Longrightarrow> io_keeps (file_is f v) (snap_os m)"
  by (simp add: io_keeps_def snap_os_def file_is_def split_def)

lemma file_append_other: "f \<noteq> g \<Longrightarrow> dk_files (fst (file_append g p d)) f = dk_files d f"
  by (simp add: file_append_def syscall_def Let_def)

lemma os_calls_keep:
  "f \<noteq> g \<Longrightarrow> io_keeps (\<lambda>d. dk_files d f = v) (os_create g)"
  "io_keeps (\<lambda>d. dk_files d f = v) os_noop"
  "f \<noteq> g \<Longrightarrow> io_keeps (\<lambda>d. dk_files d f = v) (os_remove g)"
  "f \<noteq> g \<Longrightarrow> f \<noteq> h \<Longrightarrow> io_keeps (\<lambda>d. dk_files d f = v) (os_rename g h)"
  by (simp_all add: io_keeps_def os_create_def os_noop_def os_remove_def os_rename_def
      os_call_def syscall_def split: option.split)

lemma os_writefile_keeps:
  assumes "f \<noteq> g"
  shows "io_keeps (\<lambda>d. dk_files d f = v) (os_writefile g p)"
  unfolding os_writefile_def
proof (rule io_keeps_then)
  show "io_keeps (\<lambda>d. dk_files d f = v) (os_create g)" by (rule os_calls_keep(1) [OF assms])
  show "io_keeps (\<lambda>d. dk_files d f = v)
      (\<lambda>d. let (d, n, ok) = file_append g p d; (d, closed) = os_close d in (d, if ok then closed else Inl IOError))" for x :: unit
    using file_append_other [OF assms] os_calls_keep(2) [of f v]
    by (simp add: io_keeps_def Let_def split_def)
qed

lemmas keeps_file_calls [keeps_file] = os_calls_keep [THEN keeps_file_os] os_writefile_keeps [THEN keeps_file_os]

lemma keeps_file_ignore [keeps_file]: "io_keeps (file_is f v) m \<Longrightarrow> io_keeps (file_is f v) (io_ignore m)"
  by (simp add: io_keeps_def io_ignore_def)

lemma keeps_file_or_else [keeps_file]:
  "io_keeps (file_is f v) m \<Longrightarrow> io_keeps (file_is f v) cleanup \<Longrightarrow> io_keeps (file_is f v) (io_or_else m cleanup)"
  by (auto simp: io_keeps_def io_or_else_def split_def split: sum.split)

lemma with_lock_disk:
  "sm_disk (fst (with_lock m s)) = (if sm_locked s then sm_disk s else sm_disk (fst (m (s\<lparr>sm_locked := True\<rparr>))))"
  by (auto simp: with_lock_def split: prod.split sum.split snap_error.split)

lemma keeps_file_lock [keeps_file]: "io_keeps (file_is f v) m \<Longrightarrow> io_keeps (file_is f v) (with_lock m)"
  by (simp add: io_keeps_def file_is_def with_lock_disk)

lemma keeps_file_current [keeps_file]: "io_keeps (file_is f v) (io_modify (sm_currentSnapshot_update g))"
  by (simp add: io_keeps_def file_is_def io_modify_def)

text \<open>What a client can do with a writer.\<close>

datatype writer_op = OpWrite bytes | OpClose time | OpAbort

fun writer_run :: "codec \<Rightarrow> time_codec \<Rightarrow> writer_op list \<Rightarrow> SnapshotWriter \<times> SnapshotManager \<Rightarrow> SnapshotWriter \<times> SnapshotManager" where
  "writer_run c tc [] w = w"
| "writer_run c tc (OpWrite p # ops) w = writer_run c tc ops (fst (SW_Write p w))"
| "writer_run c tc (OpClose now # ops) w = writer_run c tc ops (fst (SW_Close c tc now w))"
| "writer_run c tc (OpAbort # ops) w = writer_run c tc ops (fst (SW_Abort w))"

definition writer_of :: "u64 \<Rightarrow> u64 \<Rightarrow> SnapshotWriter \<Rightarrow> bool" where
  "writer_of i t sw \<longleftrightarrow> sw_tempPath sw = snapshotPath i t @ ''.tmp'' \<and> sw_finalPath sw = snapshotPath i t"

lemma finish_writer_keeps:
  assumes "writer_of i t sw" "f \<notin> snapshot_files i t"
  shows "io_keeps (file_is f v) (finish_writer c tc now sw)"
  using assms unfolding finish_writer_def Let_def writer_of_def snapshot_files_def
  by (auto intro!: io_keeps_then keeps_file)

lemma writer_step_keeps:
  assumes "writer_of i t sw" "f \<notin> snapshot_files i t" "file_is f v s"
  shows "case writer_run c tc [p] (sw, s) of (sw', s') \<Rightarrow> writer_of i t sw' \<and> file_is f v s'"
proof (cases p)
  case (OpWrite d)
  have "f \<noteq> sw_tempPath sw" using assms by (auto simp: writer_of_def snapshot_files_def Let_def)
  then show ?thesis
    using assms file_append_other [of f "sw_tempPath sw" d "sm_disk s"] OpWrite
    by (auto simp: SW_Write_def file_is_def writer_of_def split_def Let_def)
next
  case (OpClose now)
  then show ?thesis using assms finish_writer_keeps [OF assms(1,2), of v c tc now]
    by (auto simp: SW_Close_def writer_of_def io_keeps_def split: prod.split)
next
  case OpAbort
  have "f \<noteq> sw_tempPath sw" using assms by (auto simp: writer_of_def snapshot_files_def Let_def)
  then have k: "io_keeps (file_is f v) (snap_os (os_remove (sw_tempPath sw)))" "io_keeps (file_is f v) (snap_os os_close)"
    by (auto intro: keeps_file)
  show ?thesis using assms k OpAbort by (auto simp: SW_Abort_def writer_of_def io_keeps_def split_def Let_def)
qed

lemma writer_run_keeps:
  "writer_of i t sw \<Longrightarrow> f \<notin> snapshot_files i t \<Longrightarrow> file_is f v s \<Longrightarrow> file_is f v (snd (writer_run c tc ops (sw, s)))"
proof (induction ops arbitrary: sw s)
  case (Cons p ops)
  obtain sw' s' where "writer_run c tc [p] (sw, s) = (sw', s')" by force
  moreover from this have "writer_run c tc (p # ops) (sw, s) = writer_run c tc ops (sw', s')"
    by (cases p) simp_all
  ultimately show ?case using writer_step_keeps [OF Cons.prems, of c tc p] Cons.IH Cons.prems(2) by simp
qed simp

text \<open>C21: Opening a writer and any sequence of writes, closes and aborts, with any faults,
  leaves the files of every other snapshot as they are.
\<close>

theorem writer_leaves_other_snapshots:
  assumes "OpenSnapshotWriter i t s = (s1, Inr sw)" "(i', t') \<noteq> (i, t)"
  shows "dk_files (sm_disk (snd (writer_run c tc ops (sw, s1)))) (snapshotPath i' t') = dk_files (sm_disk s) (snapshotPath i' t') \<and>
    dk_files (sm_disk (snd (writer_run c tc ops (sw, s1)))) (snapshotPath i' t' @ ''.meta'') =
      dk_files (sm_disk s) (snapshotPath i' t' @ ''.meta'')"
proof -
  have w: "writer_of i t sw"
    using assms(1) by (auto simp: OpenSnapshotWriter_def with_lock_def writer_of_def io_simps Let_def
        split: if_splits prod.splits sum.splits snap_error.splits)
  have o: "io_keeps (file_is f v) (OpenSnapshotWriter i t)" if "f \<notin> snapshot_files i t" for f v
    using that unfolding OpenSnapshotWriter_def snapshot_files_def Let_def by (auto intro!: io_keeps_then keeps_file)
  have "file_is f (dk_files (sm_disk s) f) (snd (writer_run c tc ops (sw, s1)))" if "f \<notin> snapshot_files i t" for f
    using o [OF that, of "dk_files (sm_disk s) f"] assms(1) writer_run_keeps [OF w that]
    by (auto simp: io_keeps_def file_is_def)
  then show ?thesis using other_files [OF assms(2)] by (simp add: file_is_def)
qed

section \<open>Loading\<close>

lemma map_sum_Inr: "map_sum f id r = Inr b \<longleftrightarrow> r = Inr b"
  by (cases r) auto

lemma read_file_Inr:
  "snap_os (os_readfile f) s = (s', Inr b) \<Longrightarrow>
     dk_files (sm_disk s) f = Some b \<and> dk_files (sm_disk s') = dk_files (sm_disk s)"
  by (auto simp: snap_os_def os_readfile_def os_call_Inr map_sum_Inr split: prod.splits option.splits)

text \<open>Whatever snapshot is loaded by index and term, its data is the file's, and has the
  SHA-256 that the metadata file holds; a damaged file is never returned.
\<close>

theorem loaded_snapshot_has_its_checksum:
  assumes "SM_LoadAt c tc i t s = (s', Inr sp)"
  shows "dk_files (sm_disk s) (snapshotPath i t) = Some (sp_Data sp) \<and>
    Option.bind (dk_files (sm_disk s) (snapshotPath i t @ ''.meta'')) (unmarshal_snapshot c tc) = Some (sp_Metadata sp) \<and>
    sn_Checksum (sp_Metadata sp) = hex (sha256 (sp_Data sp)) \<and> dk_files (sm_disk s') = dk_files (sm_disk s)"
  using assms
  by (auto simp: SM_LoadAt_def with_rlock_def loadSnapshot_def loadMetadataFromFile_def io_simps
      checksum_of_def Let_def dest!: read_file_Inr split: if_splits option.splits)

section \<open>Create\<close>

text \<open>An operation that blocks, or fails, ends those it is a part of.\<close>

definition fails_files :: "'a snap \<Rightarrow> (string \<rightharpoonup> bytes) \<Rightarrow> SnapshotMetadata option \<Rightarrow> snap_error \<Rightarrow>
    (string \<rightharpoonup> bytes) \<Rightarrow> SnapshotMetadata option \<Rightarrow> bool" where
  "fails_files m fs cur e fs' cur' \<longleftrightarrow>
     (\<forall>s. files_are True fs cur s \<longrightarrow> (\<exists>s'. m s = (s', Inl e) \<and> files_are True fs' cur' s'))"

lemma fails_files_later:
  "gives_files True m fs cur x fs1 cur1 \<Longrightarrow> fails_files (f x) fs1 cur1 e fs' cur' \<Longrightarrow>
     fails_files (io_then m f) fs cur e fs' cur'"
  unfolding fails_files_def using gives_files_run by (fastforce simp: io_then_def)

lemma fails_files_now: "fails_files m fs cur e fs' cur' \<Longrightarrow> fails_files (io_then m f) fs cur e fs' cur'"
  unfolding fails_files_def by (fastforce simp: io_then_def)

lemma cleanup_blocks: "sm_locked s \<Longrightarrow> cleanup_logged c tc s = (s, Inl Deadlock)"
  by (simp add: cleanup_logged_def cleanupOldSnapshots_def SM_List_def with_rlock_def io_then_def)

lemma keeps_locked:
  "io_keeps sm_locked (snap_os m)" "io_keeps sm_locked (io_modify (sm_currentSnapshot_update g))"
  "io_keeps sm_locked m1 \<Longrightarrow> io_keeps sm_locked (io_ignore m1)"
  "io_keeps sm_locked m1 \<Longrightarrow> io_keeps sm_locked m2 \<Longrightarrow> io_keeps sm_locked (io_or_else m1 m2)"
  by (auto simp: io_keeps_def snap_os_def io_modify_def io_ignore_def io_or_else_def split_def split: sum.split)

definition never_returns :: "'a snap \<Rightarrow> bool" where
  "never_returns m \<longleftrightarrow> (\<forall>s. sm_locked s \<longrightarrow> isl (snd (m s)))"

lemma never_returns_later: "io_keeps sm_locked m \<Longrightarrow> (\<And>x. never_returns (f x)) \<Longrightarrow> never_returns (io_then m f)"
  by (auto simp: never_returns_def io_keeps_def io_then_def split_def split: sum.split)

lemma never_returns_cleanup: "never_returns (io_then (cleanup_logged c tc) f)"
  by (simp add: never_returns_def io_then_def cleanup_blocks)

lemma create_snapshot_never_returns: "never_returns (create_snapshot c tc now i t data)"
  unfolding create_snapshot_def Let_def
  by (intro never_returns_later never_returns_cleanup keeps_locked io_keeps_then)

lemma create_snapshot_blocks:
  "fails_files (create_snapshot c tc now i t data) fs cur Deadlock
     (stored_files c tc now i t data fs) (Some (new_metadata i t data now))"
proof -
  note later = gives_files_or_else [THEN fails_files_later]
  have "fails_files (cleanup_logged c tc) fs' cur' Deadlock fs' cur'" for fs' cur'
    by (simp add: fails_files_def cleanup_blocks files_are_def)
  note cleanup = fails_files_now [OF this]
  show ?thesis
    unfolding create_snapshot_def Let_def append.simps append_assoc
    by (rule fails_files_later [OF gives_files_calls(2)], rule later [OF gives_files_calls(2)],
        rule later [OF gives_files_renames(1)], rule later [OF gives_files_renames(2)],
        rule fails_files_later [OF gives_files_set], rule cleanup)
qed


section \<open>Restarts and old snapshots\<close>

text \<open>A new manager's current snapshot has the largest index of all the metadata files
  that can be read and decoded, and is one of them; the others are skipped.
\<close>

theorem new_manager_finds_latest:
  assumes "fault_free d" "finite (dom (dk_files d))"
  shows "\<exists>s. NewSnapshotManager c tc d n = (s, Inr ()) \<and> dk_files (sm_disk s) = dk_files d \<and>
    (case sm_currentSnapshot s of
       None \<Rightarrow> \<forall>name. Ext name = ''.meta'' \<longrightarrow> Option.bind (dk_files d name) (unmarshal_snapshot c tc) = None
     | Some m \<Rightarrow>
         (\<exists>name. Ext name = ''.meta'' \<and> Option.bind (dk_files d name) (unmarshal_snapshot c tc) = Some m) \<and>
         (\<forall>name m'. Ext name = ''.meta'' \<and> Option.bind (dk_files d name) (unmarshal_snapshot c tc) = Some m' \<longrightarrow>
            sn_Index m' \<le> sn_Index m))"
proof -
  let ?l = "listed c tc (dk_files d)"
  obtain s where s: "NewSnapshotManager c tc d n = (s, Inr ())" "files_are False (dk_files d) (latest_of None ?l) s"
    using new_manager_run [OF assms(1)] by blast
  note mem = set_listed [OF assms(2), of _ c tc, unfolded readable_def]
  have "case latest_of None ?l of
       None \<Rightarrow> \<forall>name. Ext name = ''.meta'' \<longrightarrow> Option.bind (dk_files d name) (unmarshal_snapshot c tc) = None
     | Some m \<Rightarrow>
         (\<exists>name. Ext name = ''.meta'' \<and> Option.bind (dk_files d name) (unmarshal_snapshot c tc) = Some m) \<and>
         (\<forall>name m'. Ext name = ''.meta'' \<and> Option.bind (dk_files d name) (unmarshal_snapshot c tc) = Some m' \<longrightarrow>
            sn_Index m' \<le> sn_Index m)"
  proof (cases "latest_of None ?l")
    case None
    then have "m \<notin> set ?l" for m by (simp add: latest_of_None)
    then show ?thesis unfolding None option.case mem by (metis not_Some_eq)
  next
    case (Some m)
    then have "m \<in> set ?l" "\<And>m'. m' \<in> set ?l \<Longrightarrow> sn_Index m' \<le> sn_Index m" using latest_of_max [OF Some] by auto
    then show ?thesis unfolding Some option.case mem by blast
  qed
  then show ?thesis using s by (intro exI [of _ s]) (simp add: files_are_def)
qed

text \<open>The two loops of the clean-up sort: the places before \<open>k\<close> have their final contents.\<close>

definition newest_before :: "nat \<Rightarrow> SnapshotMetadata list \<Rightarrow> bool" where
  "newest_before k ms \<longleftrightarrow> (\<forall>a b. a < k \<and> a < b \<and> b < length ms \<longrightarrow> sn_Index (ms ! b) \<le> sn_Index (ms ! a))"

lemma swap_if_keeps [simp]:
  "length (swap_if i j ms) = length ms"
  "i < length ms \<Longrightarrow> j < length ms \<Longrightarrow> mset (swap_if i j ms) = mset ms"
  by (simp_all add: swap_if_def mset_swap)

lemma swap_if_newest:
  "newest_before i ms \<Longrightarrow> i < j \<Longrightarrow> j < length ms \<Longrightarrow> newest_before i (swap_if i j ms)"
  unfolding newest_before_def swap_if_def by (auto simp: nth_list_update)

lemma inner_loop:
  assumes "newest_before i ms" "i < length ms" "m \<le> length ms"
  shows "newest_before i (fold (swap_if i) [i + 1 ..< m] ms) \<and> length (fold (swap_if i) [i + 1 ..< m] ms) = length ms \<and>
    mset (fold (swap_if i) [i + 1 ..< m] ms) = mset ms \<and>
    (\<forall>j. i < j \<and> j < m \<longrightarrow> sn_Index (fold (swap_if i) [i + 1 ..< m] ms ! j) \<le> sn_Index (fold (swap_if i) [i + 1 ..< m] ms ! i))"
  using assms(3)
proof (induction m)
  case (Suc m)
  show ?case
  proof (cases "i < m")
    case True
    let ?l = "fold (swap_if i) [i + 1 ..< m] ms"
    have l: "newest_before i ?l" "length ?l = length ms" "mset ?l = mset ms"
      "\<And>j. i < j \<Longrightarrow> j < m \<Longrightarrow> sn_Index (?l ! j) \<le> sn_Index (?l ! i)"
      using Suc by auto
    have step: "fold (swap_if i) [i + 1 ..< Suc m] ms = swap_if i m ?l" using True by simp
    have "sn_Index (swap_if i m ?l ! j) \<le> sn_Index (swap_if i m ?l ! i)" if "i < j" "j < Suc m" for j
      using that l(2) l(4) [of j] True Suc.prems assms(2) by (force simp: swap_if_def nth_list_update less_Suc_eq)
    then show ?thesis
      unfolding step using swap_if_newest [OF l(1) True] l Suc.prems assms(2) by simp
  qed (use assms in auto)
qed (use assms in auto)

lemma outer_loop:
  assumes "k \<le> length ms"
  shows "newest_before k (fold (\<lambda>i. fold (swap_if i) [i + 1 ..< length ms]) [0 ..< k] ms) \<and>
    length (fold (\<lambda>i. fold (swap_if i) [i + 1 ..< length ms]) [0 ..< k] ms) = length ms \<and>
    mset (fold (\<lambda>i. fold (swap_if i) [i + 1 ..< length ms]) [0 ..< k] ms) = mset ms"
  using assms
proof (induction k)
  case (Suc k)
  let ?l = "fold (\<lambda>i. fold (swap_if i) [i + 1 ..< length ms]) [0 ..< k] ms"
  have l: "newest_before k ?l" "length ?l = length ms" "mset ?l = mset ms" using Suc by auto
  have "k < length ?l" using l(2) Suc.prems by simp
  note inner = inner_loop [OF l(1) this, of "length ms"]
  then show ?case using l Suc.prems by (auto simp: newest_before_def less_Suc_eq)
qed (simp add: newest_before_def)

text \<open>C23: The two nested loops of the clean-up agree with the reference: the result is a
  permutation of the snapshots in which indices do not increase, and the stable sort by
  descending index where no two snapshots have one index.
\<close>

theorem exchange_sort_is_a_sort:
  "mset (sort_snapshots ms) = mset ms \<and>
   sorted_wrt (\<lambda>a b. sn_Index a \<ge> sn_Index b) (sort_snapshots ms) \<and>
   (distinct (map sn_Index ms) \<longrightarrow> sort_snapshots ms = rev (sort_key sn_Index ms))"
proof -
  have o: "newest_before (length ms) (sort_snapshots ms)" "length (sort_snapshots ms) = length ms"
    "mset (sort_snapshots ms) = mset ms"
    using outer_loop [of "length ms" ms] by (simp_all add: sort_snapshots_def)
  then have sorted: "sorted_wrt (\<lambda>a b. sn_Index a \<ge> sn_Index b) (sort_snapshots ms)"
    by (simp add: sorted_wrt_iff_nth_less newest_before_def)
  have "sort_snapshots ms = rev (sort_key sn_Index ms)" if d: "distinct (map sn_Index ms)"
  proof -
    have "sort_key sn_Index ms = rev (sort_snapshots ms)"
      by (rule sort_key_inj_key_eq)
        (use o sorted d in \<open>simp_all add: distinct_map sorted_wrt_rev sorted_wrt_map sorted_map\<close>)
    then show ?thesis by simp
  qed
  then show ?thesis using o sorted by blast
qed

section \<open>A concrete directory\<close>

text \<open>
  A directory with a snapshot of three bytes at index 3, and a codec that prints the metadata of
  such snapshots at any index below 256.
\<close>

definition snapshot_codec :: codec where
  "snapshot_codec =
     \<lparr>json_print = (\<lambda>j. case j of JObject ((_, JInt i) # _) \<Rightarrow> [word_of_int i] | _ \<Rightarrow> []),
      json_parse = (\<lambda>bs. Some (JObject [(''index'', JInt (uint (hd bs))), (''term'', JInt 2), (''size'', JInt 3),
        (''checksum'', JString (checksum_of [1, 2, 3])), (''created_at'', JString '''')])),
      b64_encode = (\<lambda>_. []), b64_decode = (\<lambda>_. Some [])\<rparr>"

abbreviation example_metadata :: "u64 \<Rightarrow> SnapshotMetadata" where
  "example_metadata i \<equiv> new_metadata i 2 [1, 2, 3] 0"

definition example_files :: "string \<rightharpoonup> bytes" where
  "example_files =
     [snapshotPath 3 2 \<mapsto> [1, 2, 3],
      snapshotPath 3 2 @ ''.meta'' \<mapsto> marshal_snapshot snapshot_codec epoch_codec (example_metadata 3)]"

definition snapshot_example :: SnapshotManager where
  "snapshot_example = \<lparr>sm_disk = \<lparr>dk_files = example_files, dk_faults = (\<lambda>_. None), dk_calls = 0\<rparr>,
     sm_locked = False, sm_currentSnapshot = Some (example_metadata 3), sm_maxSnapshots = 2\<rparr>"

lemma snapshot_example [simp]:
  "fault_free (sm_disk snapshot_example)" "\<not> sm_locked snapshot_example"
  "dk_files (sm_disk snapshot_example) = example_files" "finite (dom example_files)"
  by (simp_all add: snapshot_example_def fault_free_def example_files_def)

lemma example_metadata_ok:
  assumes "i < 256"
  shows "snapshot_ok snapshot_codec epoch_codec (example_metadata i)"
proof -
  have "uint i < 256" using assms by (simp add: word_less_def)
  then have "uint i mod 2 ^ 8 = uint i" by (intro mod_pos_pos_trivial) simp_all
  then have "uint (ucast i :: byte) = uint i" by (simp add: unsigned_ucast_eq take_bit_eq_mod)
  then show ?thesis
    by (simp add: snapshot_ok_def text_ok_def b64_ok_def time_ok_def epoch_codec_def snapshot_codec_def
        snapshot_json_def new_metadata_def)
qed

lemma example_stores: "stores snapshot_codec epoch_codec example_files (example_metadata 3) [1, 2, 3]"
  using example_metadata_ok [of 3] by (simp add: stores_def example_files_def new_metadata_def Let_def)

theorem snapshot_stream_is_loaded_witness:
  "\<exists>s1. store_stream snapshot_codec epoch_codec 0 5 2 [[1, 2], [], [3]] snapshot_example = (s1, Inr ()) \<and>
    snd (SM_Load snapshot_codec epoch_codec s1) = Inr \<lparr>sp_Metadata = example_metadata 5, sp_Data = [1, 2, 3]\<rparr> \<and>
    snd (SM_LoadAt snapshot_codec epoch_codec 5 2 s1) = Inr \<lparr>sp_Metadata = example_metadata 5, sp_Data = [1, 2, 3]\<rparr>"
  using snapshot_stream_is_loaded [of snapshot_example snapshot_codec epoch_codec 5 2 "[[1, 2], [], [3]]" 0]
    example_metadata_ok [of 5] by simp

theorem snapshot_survives_restart_witness:
  "\<exists>s1 s2. store_stream snapshot_codec epoch_codec 0 5 2 [[1, 2], [3]] snapshot_example = (s1, Inr ()) \<and>
    NewSnapshotManager snapshot_codec epoch_codec (sm_disk s1) 2 = (s2, Inr ()) \<and>
    snd (SM_Load snapshot_codec epoch_codec s2) = Inr \<lparr>sp_Metadata = example_metadata 5, sp_Data = [1, 2, 3]\<rparr>"
proof -
  have "sn_Index m < 5" if "Ext name = ''.meta''" "Option.bind (example_files name) (unmarshal_snapshot snapshot_codec epoch_codec) = Some m"
    for name m
  proof -
    have "name = snapshotPath 3 2 @ ''.meta''" using that by (auto simp: example_files_def split: if_splits)
    then show ?thesis using that(2) unmarshal_marshal_snapshot [OF example_metadata_ok [of 3]]
      by (auto simp: example_files_def normal_snapshot_def new_metadata_def)
  qed
  then show ?thesis
    using snapshot_survives_restart [of snapshot_example snapshot_codec epoch_codec 5 2 "[[1, 2], [3]]" 0 2]
      example_metadata_ok [of 5] by simp
qed

theorem loaded_snapshot_has_its_checksum_witness:
  "\<exists>s' sp. SM_LoadAt snapshot_codec epoch_codec 3 2 snapshot_example = (s', Inr sp) \<and> sp_Data sp = [1, 2, 3] \<and>
    dk_files (sm_disk snapshot_example) (snapshotPath 3 2) = Some (sp_Data sp) \<and>
    sn_Checksum (sp_Metadata sp) = hex (sha256 (sp_Data sp))"
proof -
  have "files_are False example_files (Some (example_metadata 3)) snapshot_example"
    by (simp add: files_are_def) (simp add: snapshot_example_def)
  from gives_files_run [OF gives_files_rlock [OF gives_files_load [OF example_stores]] this]
  obtain s' where r: "SM_LoadAt snapshot_codec epoch_codec 3 2 snapshot_example =
      (s', Inr \<lparr>sp_Metadata = example_metadata 3, sp_Data = [1, 2, 3]\<rparr>)"
    by (auto simp: SM_LoadAt_def new_metadata_def)
  show ?thesis using loaded_snapshot_has_its_checksum [OF r] r by auto
qed


theorem new_manager_finds_latest_witness:
  "\<exists>s. NewSnapshotManager snapshot_codec epoch_codec (sm_disk snapshot_example) 2 = (s, Inr ()) \<and>
     dk_files (sm_disk s) = example_files \<and> sm_currentSnapshot s \<noteq> None"
proof -
  have "Option.bind (example_files (snapshotPath 3 2 @ ''.meta'')) (unmarshal_snapshot snapshot_codec epoch_codec) \<noteq> None"
    using unmarshal_marshal_snapshot [OF example_metadata_ok [of 3]] by (simp add: example_files_def)
  then show ?thesis
    using new_manager_finds_latest [of "sm_disk snapshot_example" snapshot_codec epoch_codec 2]
    by (auto split: option.splits)
qed

theorem writer_leaves_other_snapshots_witness:
  "\<exists>s1 sw. OpenSnapshotWriter 5 2 snapshot_example = (s1, Inr sw) \<and>
     dk_files (sm_disk (snd (writer_run snapshot_codec epoch_codec [OpWrite [1], OpAbort, OpClose 0] (sw, s1)))) (snapshotPath 3 2) =
       Some [1, 2, 3]"
proof -
  have f: "example_files (snapshotPath 3 2) = Some [1, 2, 3]" by (simp add: example_files_def)
  obtain s1 sw where o: "OpenSnapshotWriter 5 2 snapshot_example = (s1, Inr sw)"
    by (simp add: OpenSnapshotWriter_def with_lock_def snapshot_example_def io_then_def snap_os_def os_create_def
        os_call_def syscall_def io_return_def Let_def)
  then show ?thesis using writer_leaves_other_snapshots [OF o, of 3 2] f by (auto simp del: writer_run.simps)
qed

theorem exchange_sort_is_a_sort_witness:
  "sort_snapshots [example_metadata 3, example_metadata 5] = [example_metadata 5, example_metadata 3]"
  using exchange_sort_is_a_sort [of "[example_metadata 3, example_metadata 5]"] by (simp add: new_metadata_def)

end
