(* ===== verification/SnapshotTransfer.thy ===== *)
theory SnapshotTransfer
  imports RaftReplication SnapshotGuarantees
begin

text \<open>
  Sending a snapshot to a follower and receiving it, \<open>src/pkg/raft/install_snapshot.go\<close>.
  The receiver holds a writer of the snapshot store between the chunks. The sender does not hold
  the node's lock: what the node becomes while a chunk is on its way, and the answer, are
  parameters per chunk. A call that blocks on a lock is \<open>None\<close>.
\<close>

section \<open>Receiving\<close>

record 'sm receiver =
  rc_node :: "'sm Node"
  rc_snapshotWriter :: "SnapshotWriter option"
  rc_snapshots :: SnapshotManager

datatype install_error = WriterNotImplemented | ApplyNotImplemented | WriterFailed snap_error

definition createSnapshotWriter :: "u64 \<Rightarrow> u64 \<Rightarrow> install_error + SnapshotWriter" where
  "createSnapshotWriter index trm = Inl WriterNotImplemented"

definition applySnapshot :: "u64 \<Rightarrow> u64 \<Rightarrow> install_error option" where
  "applySnapshot index trm = Some ApplyNotImplemented"

text \<open>A writer that is given up: its error is ignored.\<close>

definition abort_writer :: "'sm receiver \<Rightarrow> 'sm receiver" where
  "abort_writer rc =
     (case rc_snapshotWriter rc of
        None \<Rightarrow> rc
      | Some sw \<Rightarrow>
          (case SW_Abort (sw, rc_snapshots rc) of
             ((sw, s), _) \<Rightarrow> rc\<lparr>rc_snapshotWriter := Some sw, rc_snapshots := s\<rparr>))"

definition start_writer :: "InstallSnapshotRequest \<Rightarrow> 'sm receiver \<Rightarrow> 'sm receiver \<times> install_error option" where
  "start_writer req rc =
     (if is_Offset req \<noteq> 0 then (rc, None)
      else
        let rc = abort_writer rc in
        case createSnapshotWriter (is_LastIncludedIndex req) (is_LastIncludedTerm req) of
          Inl err \<Rightarrow> (rc, Some err)
        | Inr sw \<Rightarrow> (rc\<lparr>rc_snapshotWriter := Some sw\<rparr>, None))"

definition write_chunk :: "InstallSnapshotRequest \<Rightarrow> 'sm receiver \<Rightarrow> 'sm receiver \<times> install_error option" where
  "write_chunk req rc =
     (case rc_snapshotWriter rc of
        None \<Rightarrow> (rc, None)
      | Some sw \<Rightarrow>
          (case SW_Write (is_Data req) (sw, rc_snapshots rc) of
             ((sw, s), r) \<Rightarrow>
               let rc = rc\<lparr>rc_snapshotWriter := Some sw, rc_snapshots := s\<rparr> in
               case r of
                 Inl err \<Rightarrow> ((abort_writer rc)\<lparr>rc_snapshotWriter := None\<rparr>, Some (WriterFailed err))
               | Inr _ \<Rightarrow> (rc, None)))"

definition finish_snapshot ::
  "codec \<Rightarrow> time_codec \<Rightarrow> time \<Rightarrow> InstallSnapshotRequest \<Rightarrow> 'sm receiver \<Rightarrow>
     ('sm receiver \<times> install_error option) option" where
  "finish_snapshot c tc now req rc =
     (case rc_snapshotWriter rc of
        None \<Rightarrow> Some (rc, None)
      | Some sw \<Rightarrow>
          (case SW_Close c tc now (sw, rc_snapshots rc) of
             (_, Inl Deadlock) \<Rightarrow> None
           | ((sw, s), r) \<Rightarrow>
               let rc = rc\<lparr>rc_snapshotWriter := Some sw, rc_snapshots := s\<rparr> in
               case r of
                 Inl err \<Rightarrow> Some ((abort_writer rc)\<lparr>rc_snapshotWriter := None\<rparr>, Some (WriterFailed err))
               | Inr _ \<Rightarrow>
                   Some (rc\<lparr>rc_snapshotWriter := None\<rparr>,
                     applySnapshot (is_LastIncludedIndex req) (is_LastIncludedTerm req))))"

text \<open>The response carries the term the node had when the request came, whatever happens.\<close>

definition InstallSnapshot ::
  "codec \<Rightarrow> time_codec \<Rightarrow> time \<Rightarrow> InstallSnapshotRequest \<Rightarrow> 'sm receiver \<Rightarrow>
     ('sm receiver \<times> InstallSnapshotResponse \<times> install_error option) option" where
  "InstallSnapshot c tc now req rc =
     (let n = rc_node rc; currentTerm = nd_term n; resp = \<lparr>ir_Term = currentTerm\<rparr> in
      if is_Term req < currentTerm then Some (rc, resp, None)
      else
        let n = (if is_Term req > currentTerm
                 then becomeFollower (is_Term req)
                   (n\<lparr>nd_serverState := SetVotedFor '''' (SetCurrentTerm (is_Term req) (nd_serverState n))\<rparr>)
                 else n);
            n = n\<lparr>nd_electionTimer := ElectionTimer_Reset (nd_electionTimer n)\<rparr>;
            (rc, err) = start_writer req (rc\<lparr>rc_node := n\<rparr>)
        in
          if err \<noteq> None then Some (rc, resp, err)
          else
            let (rc, err) = write_chunk req rc in
            if err \<noteq> None then Some (rc, resp, err)
            else if is_Done req
            then (case finish_snapshot c tc now req rc of
                    None \<Rightarrow> None
                  | Some (rc, err) \<Rightarrow> Some (rc, resp, err))
            else Some (rc, resp, None))"


section \<open>Sending\<close>

record 'sm transfer =
  tr_rpc :: "nat \<Rightarrow> InstallSnapshotRequest \<Rightarrow> string + InstallSnapshotResponse"
  tr_meanwhile :: "nat \<Rightarrow> 'sm Node \<Rightarrow> 'sm Node"

datatype send_error = PeerNotFound string | ClientFailed string | ChunkFailed string | HigherTerm

abbreviation chunkSize :: nat where "chunkSize \<equiv> 64 * 1024"

text \<open>The node, the requests that were sent, and the result.\<close>

function send_chunks ::
  "'sm transfer \<Rightarrow> Snapshot \<Rightarrow> nat \<Rightarrow> nat \<Rightarrow> 'sm Node \<Rightarrow>
     'sm Node \<times> InstallSnapshotRequest list \<times> (send_error + unit)" where
  "send_chunks tr snapshot k offset n =
     (let data = sp_Data snapshot in
      if offset < length data
      then
        let e = min (offset + chunkSize) (length data);
            chunk = take (e - offset) (drop offset data);
            req = \<lparr>is_Term = nd_term n, is_LeaderId = nd_id n,
                   is_LastIncludedIndex = sn_Index (sp_Metadata snapshot),
                   is_LastIncludedTerm = sn_Term (sp_Metadata snapshot),
                   is_Offset = of_nat offset, is_Data = chunk, is_Done = (e \<ge> length data)\<rparr>;
            n = tr_meanwhile tr k n
        in
          case tr_rpc tr k req of
            Inl err \<Rightarrow> (n, [req], Inl (ChunkFailed err))
          | Inr resp \<Rightarrow>
              if ir_Term resp > is_Term req
              then (becomeFollower (ir_Term resp)
                      (n\<lparr>nd_serverState := SetCurrentTerm (ir_Term resp) (nd_serverState n)\<rparr>),
                    [req], Inl HigherTerm)
              else
                let (n, reqs, r) = send_chunks tr snapshot (Suc k) e n in (n, req # reqs, r)
      else (n, [], Inr ()))"
  by pat_completeness auto
termination by (relation "measure (\<lambda>(tr, snapshot, k, offset, n). length (sp_Data snapshot) - offset)") auto

declare send_chunks.simps [simp del]

text \<open>\<open>client\<close> is the result of \<open>GetClient\<close> for the address of the peer.\<close>

definition SendSnapshotToFollower ::
  "'sm transfer \<Rightarrow> (string \<Rightarrow> string option) \<Rightarrow> string \<Rightarrow> Snapshot \<Rightarrow> 'sm Node \<Rightarrow>
     'sm Node \<times> InstallSnapshotRequest list \<times> (send_error + unit)" where
  "SendSnapshotToFollower tr client peerID snapshot n =
     (case GetPeer (nd_cluster n) peerID of
        Inl err \<Rightarrow> (n, [], Inl (PeerNotFound err))
      | Inr peer \<Rightarrow>
          (case client (pr_Address peer) of
             Some err \<Rightarrow> (n, [], Inl (ClientFailed err))
           | None \<Rightarrow> send_chunks tr snapshot 0 0 n))"

section \<open>What is sent is the snapshot\<close>

lemma send_chunks_done [simp]: "length (sp_Data snapshot) \<le> offset \<Longrightarrow> send_chunks tr snapshot k offset n = (n, [], Inr ())"
  by (subst send_chunks.simps) simp

lemma send_chunks_step:
  assumes "offset < length (sp_Data snapshot)" "send_chunks tr snapshot k offset n = (n', reqs, Inr ())"
  obtains req n1 rest where "reqs = req # rest"
    "send_chunks tr snapshot (Suc k) (min (offset + chunkSize) (length (sp_Data snapshot))) n1 = (n', rest, Inr ())"
    "is_Data req = take chunkSize (drop offset (sp_Data snapshot))" "is_Offset req = of_nat offset"
    "is_Done req \<longleftrightarrow> length (sp_Data snapshot) \<le> offset + chunkSize"
    "is_LastIncludedIndex req = sn_Index (sp_Metadata snapshot)" "is_LastIncludedTerm req = sn_Term (sp_Metadata snapshot)"
  using assms(2,1)
  by (subst (asm) send_chunks.simps) (auto simp: Let_def min_def split: sum.splits if_splits prod.splits)

lemma send_chunks_data:
  assumes "send_chunks tr snapshot k offset n = (n', reqs, Inr ())" "offset \<le> length (sp_Data snapshot)"
  shows "concat (map is_Data reqs) = drop offset (sp_Data snapshot) \<and>
    length reqs = (length (sp_Data snapshot) - offset + (chunkSize - 1)) div chunkSize \<and>
    (\<forall>j < length reqs. is_Offset (reqs ! j) = of_nat (offset + j * chunkSize) \<and>
       length (is_Data (reqs ! j)) \<le> chunkSize \<and> (is_Done (reqs ! j) \<longleftrightarrow> Suc j = length reqs) \<and>
       is_LastIncludedIndex (reqs ! j) = sn_Index (sp_Metadata snapshot) \<and>
       is_LastIncludedTerm (reqs ! j) = sn_Term (sp_Metadata snapshot))"
  using assms
proof (induction "length (sp_Data snapshot) - offset" arbitrary: k offset n reqs rule: less_induct)
  case less
  let ?data = "sp_Data snapshot"
  show ?case
  proof (cases "offset < length ?data")
    case False
    then show ?thesis using less.prems by simp
  next
    case True
    let ?e = "min (offset + chunkSize) (length ?data)"
    obtain req n1 rest where step: "reqs = req # rest" "send_chunks tr snapshot (Suc k) ?e n1 = (n', rest, Inr ())"
      "is_Data req = take chunkSize (drop offset ?data)" "is_Offset req = of_nat offset"
      "is_Done req \<longleftrightarrow> length ?data \<le> offset + chunkSize"
      "is_LastIncludedIndex req = sn_Index (sp_Metadata snapshot)" "is_LastIncludedTerm req = sn_Term (sp_Metadata snapshot)"
      using send_chunks_step [OF True less.prems(1)] by blast
    have IH: "concat (map is_Data rest) = drop ?e ?data \<and>
      length rest = (length ?data - ?e + (chunkSize - 1)) div chunkSize \<and>
      (\<forall>j < length rest. is_Offset (rest ! j) = of_nat (?e + j * chunkSize) \<and>
         length (is_Data (rest ! j)) \<le> chunkSize \<and> (is_Done (rest ! j) \<longleftrightarrow> Suc j = length rest) \<and>
         is_LastIncludedIndex (rest ! j) = sn_Index (sp_Metadata snapshot) \<and>
         is_LastIncludedTerm (rest ! j) = sn_Term (sp_Metadata snapshot))"
      using True step(2) by (intro less.hyps) auto
    have len: "length reqs = (length ?data - offset + (chunkSize - 1)) div chunkSize"
      "rest = [] \<longleftrightarrow> length ?data \<le> offset + chunkSize" "rest \<noteq> [] \<longrightarrow> ?e = offset + chunkSize"
      using IH True unfolding step(1) length_0_conv [symmetric] by (auto simp: min_def div_eq_0_iff)
    have "concat (map is_Data reqs) = drop offset ?data"
    proof -
      have "take chunkSize (drop offset ?data) @ drop (offset + chunkSize) ?data = drop offset ?data"
        by (metis append_take_drop_id drop_drop add.commute)
      then show ?thesis using IH step(1,3) len(2,3) by (cases "rest = []") auto
    qed
    moreover have "is_Offset (reqs ! j) = of_nat (offset + j * chunkSize) \<and>
       length (is_Data (reqs ! j)) \<le> chunkSize \<and> (is_Done (reqs ! j) \<longleftrightarrow> Suc j = length reqs) \<and>
       is_LastIncludedIndex (reqs ! j) = sn_Index (sp_Metadata snapshot) \<and>
       is_LastIncludedTerm (reqs ! j) = sn_Term (sp_Metadata snapshot)" if "j < length reqs" for j
    proof (cases j)
      case 0
      then show ?thesis using step len(2) by auto
    next
      case (Suc i)
      then have i: "i < length rest" "rest \<noteq> []" using that step(1) by auto
      then have "?e + i * chunkSize = offset + j * chunkSize" using len(3) Suc by simp
      then show ?thesis using IH i(1) Suc step(1) by auto
    qed
    ultimately show ?thesis using len(1) by blast
  qed
qed

text \<open>C18: Whatever a snapshot's size, a transfer that succeeds has sent its data in order, in
  chunks of at most 64 KB at consecutive offsets, as many as the size needs, each with the index
  and term of the snapshot, and the last one, and only that, marked as the last.
\<close>

theorem sent_chunks_are_the_snapshot:
  assumes "SendSnapshotToFollower tr client peerID snapshot n = (n', reqs, Inr ())"
  shows "concat (map is_Data reqs) = sp_Data snapshot \<and>
    length reqs = (length (sp_Data snapshot) + (chunkSize - 1)) div chunkSize \<and>
    (\<forall>j < length reqs. is_Offset (reqs ! j) = of_nat (j * chunkSize) \<and>
       length (is_Data (reqs ! j)) \<le> chunkSize \<and> (is_Done (reqs ! j) \<longleftrightarrow> Suc j = length reqs) \<and>
       is_LastIncludedIndex (reqs ! j) = sn_Index (sp_Metadata snapshot) \<and>
       is_LastIncludedTerm (reqs ! j) = sn_Term (sp_Metadata snapshot))"
proof -
  have "send_chunks tr snapshot 0 0 n = (n', reqs, Inr ())"
    using assms by (auto simp: SendSnapshotToFollower_def split: sum.splits option.splits)
  from send_chunks_data [OF this] show ?thesis by simp
qed


section \<open>Nothing is installed\<close>

text \<open>A follower that serves requests one after another, with the clock readings it makes.\<close>

fun receive_all ::
  "codec \<Rightarrow> time_codec \<Rightarrow> (time \<times> InstallSnapshotRequest) list \<Rightarrow> 'sm receiver \<Rightarrow> 'sm receiver option" where
  "receive_all c tc [] rc = Some rc"
| "receive_all c tc ((now, req) # reqs) rc =
     Option.bind (InstallSnapshot c tc now req rc) (\<lambda>(rc, _). receive_all c tc reqs rc)"

definition same_state :: "'sm receiver \<Rightarrow> 'sm receiver \<Rightarrow> bool" where
  "same_state rc rc' \<longleftrightarrow> rc_snapshotWriter rc' = None \<and> rc_snapshots rc' = rc_snapshots rc \<and>
     nd_log (rc_node rc') = nd_log (rc_node rc) \<and> nd_volatileState (rc_node rc') = nd_volatileState (rc_node rc) \<and>
     nd_stateMachine (rc_node rc') = nd_stateMachine (rc_node rc)"

lemma InstallSnapshot_idle:
  assumes "rc_snapshotWriter rc = None"
  shows "\<exists>rc'. InstallSnapshot c tc now req rc = Some (rc', \<lparr>ir_Term = nd_term (rc_node rc)\<rparr>,
      if nd_term (rc_node rc) \<le> is_Term req \<and> is_Offset req = 0 then Some WriterNotImplemented else None) \<and>
    same_state rc rc'"
  using assms
  by (auto simp: InstallSnapshot_def Let_def start_writer_def abort_writer_def createSnapshotWriter_def
      write_chunk_def finish_snapshot_def same_state_def)

text \<open>A follower never installs a snapshot. Whatever requests it serves, it never blocks
  and is left without a writer, with the snapshots, the log, the commit index and the state
  machine it had. It fails the first chunk of every transfer, but reports no error for any later
  chunk, the last included.
\<close>

theorem no_snapshot_is_installed:
  assumes "rc_snapshotWriter rc = None"
  shows "\<exists>rc'. receive_all c tc reqs rc = Some rc' \<and> same_state rc rc' \<and>
    (\<forall>now req. nd_term (rc_node rc') \<le> is_Term req \<longrightarrow>
       (\<exists>rc''. InstallSnapshot c tc now req rc' = Some (rc'', \<lparr>ir_Term = nd_term (rc_node rc')\<rparr>,
          if is_Offset req = 0 then Some WriterNotImplemented else None)))"
proof -
  have "\<exists>rc'. receive_all c tc reqs rc = Some rc' \<and> same_state rc rc'"
    using assms
  proof (induction reqs arbitrary: rc)
    case (Cons p reqs)
    obtain now req where p: "p = (now, req)" by fastforce
    obtain rc1 e where "InstallSnapshot c tc now req rc = Some (rc1, e)" "same_state rc rc1"
      using InstallSnapshot_idle [OF Cons.prems, of c tc now req] by blast
    moreover obtain rc' where "receive_all c tc reqs rc1 = Some rc'" "same_state rc1 rc'"
      using Cons.IH [of rc1] calculation(2) by (auto simp: same_state_def)
    ultimately show ?case using p by (auto simp: same_state_def)
  qed (simp add: same_state_def)
  then obtain rc' where rc': "receive_all c tc reqs rc = Some rc'" "same_state rc rc'" by blast
  then have idle: "rc_snapshotWriter rc' = None" by (simp add: same_state_def)
  have "\<exists>rc''. InstallSnapshot c tc now req rc' = Some (rc'', \<lparr>ir_Term = nd_term (rc_node rc')\<rparr>,
      if is_Offset req = 0 then Some WriterNotImplemented else None)" if "nd_term (rc_node rc') \<le> is_Term req" for now req
  proof -
    obtain rc'' where "InstallSnapshot c tc now req rc' = Some (rc'', \<lparr>ir_Term = nd_term (rc_node rc')\<rparr>,
        if nd_term (rc_node rc') \<le> is_Term req \<and> is_Offset req = 0 then Some WriterNotImplemented else None)"
      using InstallSnapshot_idle [OF idle] by blast
    then show ?thesis by (intro exI [of _ rc'']) (simp add: that)
  qed
  then show ?thesis using rc' by blast
qed

text \<open>
  What the RPC server calls is \<open>HandleInstallSnapshot\<close>, on the nodes the follower is when
  the chunks arrive.
\<close>

definition served_by :: "(nat \<Rightarrow> 'f Node) \<Rightarrow> 'sm transfer \<Rightarrow> bool" where
  "served_by followers tr \<longleftrightarrow> (\<forall>k req. tr_rpc tr k req = Inr (snd (HandleInstallSnapshot req (followers k))))"

lemma HandleInstallSnapshot_answer:
  "nd_term f \<le> is_Term req \<Longrightarrow> ir_Term (snd (HandleInstallSnapshot req f)) = is_Term req"
  by (auto simp: HandleInstallSnapshot_def Let_def)

lemma send_chunks_served:
  assumes "served_by followers tr" "\<And>k. nd_term (followers k) \<le> nd_term n"
    and "\<And>k m. nd_term m = nd_term n \<Longrightarrow> nd_term (tr_meanwhile tr k m) = nd_term n"
  shows "nd_term m = nd_term n \<Longrightarrow> snd (snd (send_chunks tr snapshot k offset m)) = Inr ()"
proof (induction "length (sp_Data snapshot) - offset" arbitrary: k offset m rule: less_induct)
  case less
  show ?case
  proof (cases "offset < length (sp_Data snapshot)")
    case True
    let ?e = "min (offset + chunkSize) (length (sp_Data snapshot))"
    have IH: "snd (snd (send_chunks tr snapshot (Suc k) ?e (tr_meanwhile tr k m))) = Inr ()"
      using True less.prems assms(3) by (intro less.hyps) auto
    let ?req = "\<lparr>is_Term = nd_term m, is_LeaderId = nd_id m,
        is_LastIncludedIndex = sn_Index (sp_Metadata snapshot), is_LastIncludedTerm = sn_Term (sp_Metadata snapshot),
        is_Offset = of_nat offset, is_Data = take (?e - offset) (drop offset (sp_Data snapshot)),
        is_Done = (?e \<ge> length (sp_Data snapshot))\<rparr>"
    have "ir_Term (snd (HandleInstallSnapshot ?req (followers k))) = nd_term m"
      using assms(2) [of k] less.prems HandleInstallSnapshot_answer [of "followers k" ?req] by simp
    moreover have "tr_rpc tr k ?req = Inr (snd (HandleInstallSnapshot ?req (followers k)))"
      using assms(1) by (simp only: served_by_def)
    ultimately show ?thesis
      using True IH by (subst send_chunks.simps) (simp only: Let_def if_True sum.case case_prod_beta
        InstallSnapshotRequest.simps order.strict_iff_order simp_thms if_False fst_conv snd_conv)
  qed simp
qed

text \<open>A leader believes in a transfer that did nothing. Served by the handler that the RPC
  server calls, every transfer to a known peer whose term is not ahead succeeds with all its
  chunks sent, and the handler leaves the follower's log, commit index and state machine as they
  are on every request.
\<close>

theorem acknowledged_transfer_is_dropped:
  assumes "served_by followers tr" "\<And>k. nd_term (followers k) \<le> nd_term n"
    and "\<And>k m. nd_term m = nd_term n \<Longrightarrow> nd_term (tr_meanwhile tr k m) = nd_term n"
    and "GetPeer (nd_cluster n) peerID = Inr peer" "client (pr_Address peer) = None"
  shows "(\<exists>n' reqs. SendSnapshotToFollower tr client peerID snapshot n = (n', reqs, Inr ())) \<and>
    (\<forall>k req. let f = followers k; f' = fst (HandleInstallSnapshot req f) in
       nd_log f' = nd_log f \<and> nd_volatileState f' = nd_volatileState f \<and> nd_stateMachine f' = nd_stateMachine f)"
proof -
  have "snd (snd (send_chunks tr snapshot 0 0 n)) = Inr ()"
    using send_chunks_served [OF assms(1-3)] by blast
  then show ?thesis
    using assms(4,5)
    by (cases "send_chunks tr snapshot 0 0 n") (auto simp: SendSnapshotToFollower_def HandleInstallSnapshot_def Let_def)
qed

section \<open>A concrete transfer\<close>

definition idle_follower :: "unit Node" where
  "idle_follower = example_node ''n2'' []"

definition sending_leader :: "unit Node" where
  "sending_leader = example_node ''n1'' [''n2'']"

definition acknowledging :: "unit transfer" where
  "acknowledging =
     \<lparr>tr_rpc = (\<lambda>k req. Inr (snd (HandleInstallSnapshot req idle_follower))), tr_meanwhile = (\<lambda>_. id)\<rparr>"

definition small_snapshot :: Snapshot where
  "small_snapshot = \<lparr>sp_Metadata = new_metadata 3 1 [1, 2, 3] 0, sp_Data = [1, 2, 3]\<rparr>"

definition idle_receiver :: "unit receiver" where
  "idle_receiver = \<lparr>rc_node = idle_follower, rc_snapshotWriter = None,
     rc_snapshots = \<lparr>sm_disk = \<lparr>dk_files = Map.empty, dk_faults = (\<lambda>_. None), dk_calls = 0\<rparr>, sm_locked = False,
       sm_currentSnapshot = None, sm_maxSnapshots = 2\<rparr>\<rparr>"

lemma transfer_example:
  "served_by (\<lambda>_. idle_follower) acknowledging" "nd_term idle_follower \<le> nd_term sending_leader"
  "tr_meanwhile acknowledging k m = m"
  "GetPeer (nd_cluster sending_leader) ''n2'' = Inr \<lparr>pr_ID = ''n2'', pr_Address = ''n2''\<rparr>"
  by (simp_all add: served_by_def acknowledging_def idle_follower_def sending_leader_def example_node_fields
      GetPeer_def)

theorem sent_chunks_are_the_snapshot_witness:
  "\<exists>n' reqs. SendSnapshotToFollower acknowledging (\<lambda>_. None) ''n2'' small_snapshot sending_leader = (n', reqs, Inr ()) \<and>
     concat (map is_Data reqs) = [1, 2, 3] \<and> length reqs = 1"
proof -
  have "snd (snd (send_chunks acknowledging small_snapshot 0 0 sending_leader)) = Inr ()"
    by (rule send_chunks_served [OF transfer_example(1,2)]) (simp_all add: transfer_example(3))
  then obtain n' reqs where r: "SendSnapshotToFollower acknowledging (\<lambda>_. None) ''n2'' small_snapshot sending_leader = (n', reqs, Inr ())"
    by (cases "send_chunks acknowledging small_snapshot 0 0 sending_leader")
      (auto simp: SendSnapshotToFollower_def transfer_example(4))
  show ?thesis using sent_chunks_are_the_snapshot [OF r] r by (auto simp: small_snapshot_def)
qed

theorem no_snapshot_is_installed_witness:
  "\<exists>rc'. receive_all snapshot_codec epoch_codec [(0, \<lparr>is_Term = 1, is_LeaderId = ''n1'', is_LastIncludedIndex = 3,
     is_LastIncludedTerm = 1, is_Offset = 0, is_Data = [1, 2, 3], is_Done = True\<rparr>)] idle_receiver = Some rc' \<and>
     same_state idle_receiver rc'"
proof -
  have "rc_snapshotWriter idle_receiver = None" by (simp add: idle_receiver_def)
  from no_snapshot_is_installed [OF this] show ?thesis by blast
qed

theorem acknowledged_transfer_is_dropped_witness:
  "\<exists>n' reqs. SendSnapshotToFollower acknowledging (\<lambda>_. None) ''n2'' small_snapshot sending_leader = (n', reqs, Inr ())"
  using acknowledged_transfer_is_dropped [OF transfer_example(1,2) _ transfer_example(4), of "\<lambda>_. None" small_snapshot]
  by (simp add: transfer_example(3))

end
