(* ===== verification/RpcTransport.thy ===== *)
theory RpcTransport
  imports RaftReplication
begin

text \<open>
  The RPC layer, \<open>src/pkg/rpc/client.go\<close> and \<open>src/pkg/rpc/server.go\<close>: clients and their connections, the pool a node keeps of
  them, and the server with its life cycle. gRPC is a parameter, a record of the calls made on
  it. Clients are shared by pointer, so they stand in a heap; goroutines interleave at the
  sections in which they hold the lock of the pool.
\<close>

section \<open>Clients\<close>

text \<open>\<open>'c\<close> are connections, \<open>'w\<close> is the state of the network.\<close>

record ('w, 'c) grpc =
  gr_dial :: "string \<Rightarrow> duration \<Rightarrow> 'w \<Rightarrow> 'w \<times> (string + 'c)"
  gr_close :: "'c \<Rightarrow> 'w \<Rightarrow> 'w \<times> (string + unit)"
  gr_vote :: "'c \<Rightarrow> duration \<Rightarrow> RequestVoteRequest \<Rightarrow> 'w \<Rightarrow> 'w \<times> (string + RequestVoteResponse)"
  gr_append :: "'c \<Rightarrow> duration \<Rightarrow> AppendEntriesRequest \<Rightarrow> 'w \<Rightarrow> 'w \<times> (string + AppendEntriesResponse)"
  gr_install :: "'c \<Rightarrow> duration \<Rightarrow> InstallSnapshotRequest \<Rightarrow> 'w \<Rightarrow> 'w \<times> (string + InstallSnapshotResponse)"

datatype rpc_error = ConnectFailed string string | NotConnected | CallFailed string | CloseFailed string

text \<open>The stub \<open>rc_client\<close> is named by the connection it was made of.\<close>

record 'c RpcClient =
  rc_address :: string
  rc_conn :: "'c option"
  rc_client :: "'c option"
  rc_timeout :: duration

record ClientPool =
  cp_clients :: "string \<rightharpoonup> nat"
  cp_timeout :: duration

text \<open>A pointer to a client is its position among the clients allocated so far.\<close>

record ('w, 'c) transport =
  tp_world :: 'w
  tp_clients :: "'c RpcClient list"
  tp_pool :: ClientPool

definition RpcClient_New :: "string \<Rightarrow> duration \<Rightarrow> 'c RpcClient" where
  "RpcClient_New address timeout =
     \<lparr>rc_address = address, rc_conn = None, rc_client = None,
      rc_timeout = (if timeout = 0 then 5 * Second else timeout)\<rparr>"

definition Connect :: "('w, 'c) grpc \<Rightarrow> nat \<Rightarrow> ('w, 'c) transport \<Rightarrow> ('w, 'c) transport \<times> (rpc_error + unit)" where
  "Connect G p s =
     (let c = tp_clients s ! p in
      if rc_conn c \<noteq> None then (s, Inr ())
      else
        case gr_dial G (rc_address c) (rc_timeout c) (tp_world s) of
          (w, Inl e) \<Rightarrow> (s\<lparr>tp_world := w\<rparr>, Inl (ConnectFailed (rc_address c) e))
        | (w, Inr conn) \<Rightarrow>
            (s\<lparr>tp_world := w,
               tp_clients := (tp_clients s)[p := c\<lparr>rc_conn := Some conn, rc_client := Some conn\<rparr>]\<rparr>, Inr ()))"

definition RpcClient_Close ::
  "('w, 'c) grpc \<Rightarrow> nat \<Rightarrow> ('w, 'c) transport \<Rightarrow> ('w, 'c) transport \<times> (rpc_error + unit)" where
  "RpcClient_Close G p s =
     (let c = tp_clients s ! p in
      case rc_conn c of
        None \<Rightarrow> (s, Inr ())
      | Some conn \<Rightarrow>
          let (w, r) = gr_close G conn (tp_world s) in
          (s\<lparr>tp_world := w, tp_clients := (tp_clients s)[p := c\<lparr>rc_conn := None, rc_client := None\<rparr>]\<rparr>,
           case r of Inl e \<Rightarrow> Inl (CloseFailed e) | Inr u \<Rightarrow> Inr u))"

text \<open>
  The three calls differ in the method of the stub. The context of the caller may have less time
  left than the timeout of the client.
\<close>

definition call_timeout :: "duration option \<Rightarrow> duration \<Rightarrow> duration" where
  "call_timeout ctx timeout = (case ctx of None \<Rightarrow> timeout | Some left \<Rightarrow> min left timeout)"

definition rpc_call ::
  "('c \<Rightarrow> duration \<Rightarrow> 'q \<Rightarrow> 'w \<Rightarrow> 'w \<times> (string + 'r)) \<Rightarrow> duration option \<Rightarrow> 'q \<Rightarrow> nat \<Rightarrow>
     ('w, 'c) transport \<Rightarrow> ('w, 'c) transport \<times> (rpc_error + 'r)" where
  "rpc_call invoke ctx req p s =
     (let c = tp_clients s ! p in
      case rc_client c of
        None \<Rightarrow> (s, Inl NotConnected)
      | Some stub \<Rightarrow>
          (case invoke stub (call_timeout ctx (rc_timeout c)) req (tp_world s) of
             (w, Inl e) \<Rightarrow> (s\<lparr>tp_world := w\<rparr>, Inl (CallFailed e))
           | (w, Inr resp) \<Rightarrow> (s\<lparr>tp_world := w\<rparr>, Inr resp)))"

definition RpcClient_RequestVote ::
  "('w, 'c) grpc \<Rightarrow> duration option \<Rightarrow> RequestVoteRequest \<Rightarrow> nat \<Rightarrow>
     ('w, 'c) transport \<Rightarrow> ('w, 'c) transport \<times> (rpc_error + RequestVoteResponse)" where
  "RpcClient_RequestVote G = rpc_call (gr_vote G)"

definition RpcClient_AppendEntries ::
  "('w, 'c) grpc \<Rightarrow> duration option \<Rightarrow> AppendEntriesRequest \<Rightarrow> nat \<Rightarrow>
     ('w, 'c) transport \<Rightarrow> ('w, 'c) transport \<times> (rpc_error + AppendEntriesResponse)" where
  "RpcClient_AppendEntries G = rpc_call (gr_append G)"

definition RpcClient_InstallSnapshot ::
  "('w, 'c) grpc \<Rightarrow> duration option \<Rightarrow> InstallSnapshotRequest \<Rightarrow> nat \<Rightarrow>
     ('w, 'c) transport \<Rightarrow> ('w, 'c) transport \<times> (rpc_error + InstallSnapshotResponse)" where
  "RpcClient_InstallSnapshot G = rpc_call (gr_install G)"

section \<open>The pool\<close>

definition NewClientPool :: "duration \<Rightarrow> ClientPool" where
  "NewClientPool timeout = \<lparr>cp_clients = Map.empty, cp_timeout = timeout\<rparr>"

text \<open>
  \<open>GetClient\<close> looks under the read lock, and, when there is no client, looks again under
  the write lock and creates one. Other goroutines may run in between.
\<close>

definition pool_lookup :: "string \<Rightarrow> ('w, 'c) transport \<Rightarrow> nat option" where
  "pool_lookup address s = cp_clients (tp_pool s) address"

definition pool_create ::
  "('w, 'c) grpc \<Rightarrow> string \<Rightarrow> ('w, 'c) transport \<Rightarrow> ('w, 'c) transport \<times> (rpc_error + nat)" where
  "pool_create G address s =
     (case cp_clients (tp_pool s) address of
        Some p \<Rightarrow> (s, Inr p)
      | None \<Rightarrow>
          let p = length (tp_clients s);
              s = s\<lparr>tp_clients := tp_clients s @ [RpcClient_New address (cp_timeout (tp_pool s))]\<rparr>
          in
            case Connect G p s of
              (s, Inl e) \<Rightarrow> (s, Inl e)
            | (s, Inr _) \<Rightarrow>
                (s\<lparr>tp_pool := (tp_pool s)\<lparr>cp_clients := (cp_clients (tp_pool s))(address \<mapsto> p)\<rparr>\<rparr>, Inr p))"

definition GetClient ::
  "('w, 'c) grpc \<Rightarrow> (('w, 'c) transport \<Rightarrow> ('w, 'c) transport) \<Rightarrow> string \<Rightarrow>
     ('w, 'c) transport \<Rightarrow> ('w, 'c) transport \<times> (rpc_error + nat)" where
  "GetClient G meanwhile address s =
     (case pool_lookup address s of
        Some p \<Rightarrow> (s, Inr p)
      | None \<Rightarrow> pool_create G address (meanwhile s))"

definition RemoveClient ::
  "('w, 'c) grpc \<Rightarrow> string \<Rightarrow> ('w, 'c) transport \<Rightarrow> ('w, 'c) transport \<times> (rpc_error + unit)" where
  "RemoveClient G address s =
     (case cp_clients (tp_pool s) address of
        None \<Rightarrow> (s, Inr ())
      | Some p \<Rightarrow>
          RpcClient_Close G p
            (s\<lparr>tp_pool := (tp_pool s)\<lparr>cp_clients := (cp_clients (tp_pool s))(address := None)\<rparr>\<rparr>))"

text \<open>The loop of \<open>CloseAll\<close> over the clients in the order of the iteration; the last
  error is kept.\<close>

fun close_clients ::
  "('w, 'c) grpc \<Rightarrow> nat list \<Rightarrow> rpc_error + unit \<Rightarrow> ('w, 'c) transport \<Rightarrow> ('w, 'c) transport \<times> (rpc_error + unit)" where
  "close_clients G [] lastErr s = (s, lastErr)"
| "close_clients G (p # ps) lastErr s =
     (case RpcClient_Close G p s of
        (s, Inl e) \<Rightarrow> close_clients G ps (Inl e) s
      | (s, Inr _) \<Rightarrow> close_clients G ps lastErr s)"

definition CloseAll ::
  "('w, 'c) grpc \<Rightarrow> string list \<Rightarrow> ('w, 'c) transport \<Rightarrow> ('w, 'c) transport \<times> (rpc_error + unit)" where
  "CloseAll G order s =
     (let (s, r) = close_clients G (List.map_filter (cp_clients (tp_pool s)) order) (Inr ()) s
      in (s\<lparr>tp_pool := (tp_pool s)\<lparr>cp_clients := Map.empty\<rparr>\<rparr>, r))"


section \<open>The server\<close>

text \<open>The Go interface of the handler, over the state \<open>'n\<close> of its implementation.\<close>

record 'n RaftHandler =
  rh_HandleRequestVote :: "RequestVoteRequest option \<Rightarrow> 'n \<Rightarrow> go_panic + ('n \<times> RequestVoteResponse)"
  rh_HandleAppendEntries :: "AppendEntriesRequest option \<Rightarrow> 'n \<Rightarrow> 'n \<times> AppendEntriesResponse"
  rh_HandleInstallSnapshot :: "InstallSnapshotRequest \<Rightarrow> 'n \<Rightarrow> 'n \<times> InstallSnapshotResponse"

definition node_handler :: "'sm Node RaftHandler" where
  "node_handler =
     \<lparr>rh_HandleRequestVote = HandleRequestVote, rh_HandleAppendEntries = HandleAppendEntries,
      rh_HandleInstallSnapshot = HandleInstallSnapshot\<rparr>"

text \<open>\<open>rsv_listener\<close> and \<open>rsv_grpc\<close> say whether the fields are set.\<close>

record 'n RpcServer =
  rsv_address :: string
  rsv_listener :: bool
  rsv_grpc :: bool
  rsv_handler :: "'n RaftHandler option"
  rsv_started :: bool

datatype server_error = NilHandler | AlreadyStarted | ListenFailed string string | NoHandler | HandlerPanic go_panic

definition RpcServer_New :: "string \<Rightarrow> 'n RaftHandler option \<Rightarrow> server_error + 'n RpcServer" where
  "RpcServer_New address handler =
     (if handler = None then Inl NilHandler
      else Inr \<lparr>rsv_address = address, rsv_listener = False, rsv_grpc = False, rsv_handler = handler,
                rsv_started = False\<rparr>)"

text \<open>\<open>listening\<close> is the result of \<open>net.Listen\<close>.\<close>

definition RpcServer_Start :: "string + unit \<Rightarrow> 'n RpcServer \<Rightarrow> 'n RpcServer \<times> (server_error + unit)" where
  "RpcServer_Start listening s =
     (if rsv_started s then (s, Inl AlreadyStarted)
      else
        case listening of
          Inl e \<Rightarrow> (s, Inl (ListenFailed (rsv_address s) e))
        | Inr _ \<Rightarrow> (s\<lparr>rsv_listener := True, rsv_grpc := True, rsv_started := True\<rparr>, Inr ()))"

text \<open>\<open>Stop\<close> where \<open>GracefulStop\<close> returns.\<close>

definition RpcServer_Stop :: "'n RpcServer \<Rightarrow> 'n RpcServer" where
  "RpcServer_Stop s =
     (if \<not> rsv_started s then s
      else s\<lparr>rsv_grpc := False, rsv_listener := False, rsv_started := False\<rparr>)"

definition RpcServer_RequestVote ::
  "RequestVoteRequest \<Rightarrow> 'n RpcServer \<Rightarrow> 'n \<Rightarrow> server_error + ('n \<times> RequestVoteResponse)" where
  "RpcServer_RequestVote req s n =
     (case rsv_handler s of
        None \<Rightarrow> Inl NoHandler
      | Some h \<Rightarrow> (case rh_HandleRequestVote h (Some req) n of Inl panic \<Rightarrow> Inl (HandlerPanic panic) | Inr r \<Rightarrow> Inr r))"

definition RpcServer_AppendEntries ::
  "AppendEntriesRequest \<Rightarrow> 'n RpcServer \<Rightarrow> 'n \<Rightarrow> server_error + ('n \<times> AppendEntriesResponse)" where
  "RpcServer_AppendEntries req s n =
     (case rsv_handler s of None \<Rightarrow> Inl NoHandler | Some h \<Rightarrow> Inr (rh_HandleAppendEntries h (Some req) n))"

definition RpcServer_InstallSnapshot ::
  "InstallSnapshotRequest \<Rightarrow> 'n RpcServer \<Rightarrow> 'n \<Rightarrow> server_error + ('n \<times> InstallSnapshotResponse)" where
  "RpcServer_InstallSnapshot req s n =
     (case rsv_handler s of None \<Rightarrow> Inl NoHandler | Some h \<Rightarrow> Inr (rh_HandleInstallSnapshot h req n))"

section \<open>Goroutines on the pool\<close>

text \<open>
  Every goroutine that calls \<open>GetClient\<close> has found no client and waits for the write lock,
  or holds the client it was given, or does neither.
\<close>

datatype get_phase = NoCall | Missed string | Holds string nat

type_synonym ('w, 'c) pool_state = "('w, 'c) transport \<times> (nat \<Rightarrow> get_phase)"

inductive pool_step :: "('w, 'c) grpc \<Rightarrow> ('w, 'c) pool_state \<Rightarrow> ('w, 'c) pool_state \<Rightarrow> bool"
  for G where
  found: "ph g = NoCall \<Longrightarrow> pool_lookup a s = Some p \<Longrightarrow> pool_step G (s, ph) (s, ph(g := Holds a p))"
| missed: "ph g = NoCall \<Longrightarrow> pool_lookup a s = None \<Longrightarrow> pool_step G (s, ph) (s, ph(g := Missed a))"
| created: "ph g = Missed a \<Longrightarrow> pool_create G a s = (s', Inr p) \<Longrightarrow> pool_step G (s, ph) (s', ph(g := Holds a p))"
| refused: "ph g = Missed a \<Longrightarrow> pool_create G a s = (s', Inl e) \<Longrightarrow> pool_step G (s, ph) (s', ph(g := NoCall))"
| released: "ph g = Holds a p \<Longrightarrow> pool_step G (s, ph) (s, ph(g := NoCall))"
| traffic: "pool_step G (s, ph) (s\<lparr>tp_world := w\<rparr>, ph)"

definition connected_to :: "string \<Rightarrow> 'c RpcClient \<Rightarrow> bool" where
  "connected_to a c \<longleftrightarrow> rc_address c = a \<and> rc_conn c \<noteq> None \<and> rc_client c = rc_conn c"

definition pool_ok :: "('w, 'c) transport \<Rightarrow> bool" where
  "pool_ok s \<longleftrightarrow>
     (\<forall>a p. cp_clients (tp_pool s) a = Some p \<longrightarrow> p < length (tp_clients s) \<and> connected_to a (tp_clients s ! p))"

definition pool_inv :: "('w, 'c) pool_state \<Rightarrow> bool" where
  "pool_inv t \<longleftrightarrow> pool_ok (fst t) \<and> (\<forall>g a p. snd t g = Holds a p \<longrightarrow> cp_clients (tp_pool (fst t)) a = Some p)"

lemma pool_okD:
  "pool_ok s \<Longrightarrow> cp_clients (tp_pool s) a = Some p \<Longrightarrow> p < length (tp_clients s) \<and> connected_to a (tp_clients s ! p)"
  by (simp add: pool_ok_def)

lemma pool_ok_world [simp]: "pool_ok (s\<lparr>tp_world := w\<rparr>) \<longleftrightarrow> pool_ok s"
  by (simp add: pool_ok_def)

lemma map_leD: "f \<subseteq>\<^sub>m g \<Longrightarrow> f a = Some b \<Longrightarrow> g a = Some b"
  unfolding map_le_def by (metis domI)

lemma pool_create_ok:
  assumes "pool_ok s" "pool_create G a s = (s', r)"
  shows "pool_ok s' \<and> cp_clients (tp_pool s) \<subseteq>\<^sub>m cp_clients (tp_pool s') \<and>
    (\<forall>p. r = Inr p \<longrightarrow> cp_clients (tp_pool s') a = Some p)"
  using assms
  by (auto simp: pool_create_def Connect_def RpcClient_New_def Let_def pool_ok_def connected_to_def map_le_def
      nth_append dest: less_imp_neq split: option.splits sum.splits prod.splits if_splits)
    (meson less_SucI)+

lemma pool_step_inv: "pool_step G t t' \<Longrightarrow> pool_inv t \<Longrightarrow> pool_inv t'"
proof (induction rule: pool_step.induct)
  case (created ph g a s s' p)
  then show ?case using pool_create_ok [of s G a s' "Inr p"] by (auto simp: pool_inv_def intro: map_leD)
next
  case (refused ph g a s s' e)
  then show ?case using pool_create_ok [of s G a s' "Inl e"] by (auto simp: pool_inv_def intro: map_leD)
qed (auto simp: pool_inv_def pool_lookup_def)

lemma pool_steps_inv: "(pool_step G)\<^sup>*\<^sup>* t t' \<Longrightarrow> pool_inv t \<Longrightarrow> pool_inv t'"
  by (induction rule: rtranclp_induct) (auto intro: pool_step_inv)

lemma new_pool_inv: "tp_pool s = NewClientPool timeout \<Longrightarrow> pool_inv (s, \<lambda>_. NoCall)"
  by (simp add: pool_inv_def pool_ok_def NewClientPool_def)

text \<open>Closing\<close>

definition disconnected :: "nat \<Rightarrow> ('w, 'c) transport \<Rightarrow> bool" where
  "disconnected q s \<longleftrightarrow> rc_conn (tp_clients s ! q) = None \<and> rc_client (tp_clients s ! q) = None"

lemma RpcClient_Close_frame:
  "tp_pool (fst (RpcClient_Close G p s)) = tp_pool s \<and>
   length (tp_clients (fst (RpcClient_Close G p s))) = length (tp_clients s)"
  by (simp add: RpcClient_Close_def Let_def split: option.split prod.split)

lemma RpcClient_Close_disconnects:
  "p < length (tp_clients s) \<Longrightarrow> rc_client (tp_clients s ! p) = rc_conn (tp_clients s ! p) \<Longrightarrow>
     disconnected p (fst (RpcClient_Close G p s))"
  by (simp add: RpcClient_Close_def Let_def disconnected_def split: option.split prod.split)

lemma RpcClient_Close_keeps:
  "q \<noteq> p \<Longrightarrow> tp_clients (fst (RpcClient_Close G p s)) ! q = tp_clients s ! q"
  by (simp add: RpcClient_Close_def Let_def split: option.split prod.split)

lemma RpcClient_Close_disconnected:
  "disconnected q s \<Longrightarrow> disconnected q (fst (RpcClient_Close G p s))"
  using RpcClient_Close_keeps [of q p G s]
  by (cases "q = p") (simp_all add: disconnected_def RpcClient_Close_def)

lemma close_clients_Cons:
  "\<exists>r'. close_clients G (p # ps) r s = close_clients G ps r' (fst (RpcClient_Close G p s))"
  by (cases "RpcClient_Close G p s"; cases "snd (RpcClient_Close G p s)") auto

lemma close_clients_disconnected:
  "disconnected q s \<Longrightarrow> disconnected q (fst (close_clients G ps r s))"
proof (induction ps arbitrary: s r)
  case (Cons p ps)
  then show ?case using close_clients_Cons [of G p ps r s] RpcClient_Close_disconnected [of q s G p] by auto
qed simp

lemma close_clients_disconnects:
  "q \<in> set ps \<Longrightarrow> q < length (tp_clients s) \<Longrightarrow> rc_client (tp_clients s ! q) = rc_conn (tp_clients s ! q) \<Longrightarrow>
     disconnected q (fst (close_clients G ps r s))"
proof (induction ps arbitrary: s r)
  case (Cons p ps)
  obtain r' where r': "close_clients G (p # ps) r s = close_clients G ps r' (fst (RpcClient_Close G p s))"
    using close_clients_Cons by blast
  show ?case
  proof (cases "q = p")
    case True
    then show ?thesis
      using r' RpcClient_Close_disconnects [of q s G] Cons.prems close_clients_disconnected by metis
  next
    case False
    then show ?thesis
      using r' Cons.IH [of "fst (RpcClient_Close G p s)" r'] Cons.prems RpcClient_Close_keeps [OF False, of G s]
        RpcClient_Close_frame [of G p s] by simp
  qed
qed simp

lemma set_map_filter: "y \<in> set (List.map_filter f xs) \<longleftrightarrow> (\<exists>x \<in> set xs. f x = Some y)"
  by (induction xs) (auto simp: List.map_filter_simps split: option.split)

section \<open>Stopping a node that serves calls\<close>

text \<open>
  \<open>Node.Stop\<close> takes the lock of the node, and \<open>Server.Stop\<close> that of the server.
  Both are held while \<open>GracefulStop\<close> waits for the calls in progress. A call has arrived,
  and takes the lock of the server to read the handler; the handler takes the lock of the node.
\<close>

datatype stop_phase = Running | StopHoldsNode | Draining | StopReturned

datatype call_phase = Arrived | InHandler

record 'sm node_server =
  ns_node :: "'sm Node"
  ns_server :: "'sm Node RpcServer"
  ns_stop :: stop_phase
  ns_calls :: "call_phase list"

definition node_locked :: "'sm node_server \<Rightarrow> bool" where
  "node_locked s \<longleftrightarrow> ns_stop s = StopHoldsNode \<or> ns_stop s = Draining"

definition server_locked :: "'sm node_server \<Rightarrow> bool" where
  "server_locked s \<longleftrightarrow> ns_stop s = Draining"

inductive serve_step :: "'sm node_server \<Rightarrow> 'sm node_server \<Rightarrow> bool" where
  arrive: "rsv_grpc (ns_server s) \<Longrightarrow> ns_stop s \<noteq> Draining \<Longrightarrow>
    serve_step s (s\<lparr>ns_calls := ns_calls s @ [Arrived]\<rparr>)"
| dispatch: "k < length (ns_calls s) \<Longrightarrow> ns_calls s ! k = Arrived \<Longrightarrow> \<not> server_locked s \<Longrightarrow>
    rsv_handler (ns_server s) \<noteq> None \<Longrightarrow>
    serve_step s (s\<lparr>ns_calls := (ns_calls s)[k := InHandler]\<rparr>)"
| unhandled: "k < length (ns_calls s) \<Longrightarrow> ns_calls s ! k = Arrived \<Longrightarrow> \<not> server_locked s \<Longrightarrow>
    rsv_handler (ns_server s) = None \<Longrightarrow>
    serve_step s (s\<lparr>ns_calls := take k (ns_calls s) @ drop (Suc k) (ns_calls s)\<rparr>)"
| vote: "k < length (ns_calls s) \<Longrightarrow> ns_calls s ! k = InHandler \<Longrightarrow> \<not> node_locked s \<Longrightarrow>
    RpcServer_RequestVote req (ns_server s) (ns_node s) = Inr (n, resp) \<Longrightarrow>
    serve_step s (s\<lparr>ns_node := n, ns_calls := take k (ns_calls s) @ drop (Suc k) (ns_calls s)\<rparr>)"
| append: "k < length (ns_calls s) \<Longrightarrow> ns_calls s ! k = InHandler \<Longrightarrow> \<not> node_locked s \<Longrightarrow>
    RpcServer_AppendEntries areq (ns_server s) (ns_node s) = Inr (n, aresp) \<Longrightarrow>
    serve_step s (s\<lparr>ns_node := n, ns_calls := take k (ns_calls s) @ drop (Suc k) (ns_calls s)\<rparr>)"
| install: "k < length (ns_calls s) \<Longrightarrow> ns_calls s ! k = InHandler \<Longrightarrow> \<not> node_locked s \<Longrightarrow>
    RpcServer_InstallSnapshot ireq (ns_server s) (ns_node s) = Inr (n, iresp) \<Longrightarrow>
    serve_step s (s\<lparr>ns_node := n, ns_calls := take k (ns_calls s) @ drop (Suc k) (ns_calls s)\<rparr>)"
| stop: "ns_stop s = Running \<Longrightarrow> \<not> nd_stopCh_closed (ns_node s) \<Longrightarrow>
    serve_step s (s\<lparr>ns_node := Node_Stop (ns_node s), ns_stop := StopHoldsNode\<rparr>)"
| drain: "ns_stop s = StopHoldsNode \<Longrightarrow> rsv_started (ns_server s) \<Longrightarrow>
    serve_step s (s\<lparr>ns_stop := Draining\<rparr>)"
| not_started: "ns_stop s = StopHoldsNode \<Longrightarrow> \<not> rsv_started (ns_server s) \<Longrightarrow>
    serve_step s (s\<lparr>ns_stop := StopReturned\<rparr>)"
| drained: "ns_stop s = Draining \<Longrightarrow> ns_calls s = [] \<Longrightarrow>
    serve_step s (s\<lparr>ns_server := RpcServer_Stop (ns_server s), ns_stop := StopReturned\<rparr>)"

lemma draining_step: "serve_step s s' \<Longrightarrow> ns_stop s = Draining \<Longrightarrow> ns_calls s = []"
  by (induction rule: serve_step.induct) (simp_all add: server_locked_def node_locked_def)

lemma draining_stays:
  "serve_step\<^sup>*\<^sup>* s s' \<Longrightarrow> ns_stop s = Draining \<Longrightarrow> ns_calls s \<noteq> [] \<Longrightarrow> s' = s"
  by (induction rule: rtranclp_induct) (auto dest: draining_step)

lemma served_calls:
  "RpcServer_New address (Some node_handler) = Inr srv \<Longrightarrow> RpcServer_RequestVote req srv n = Inr (requestVote req n)"
  "RpcServer_New address (Some node_handler) = Inr srv \<Longrightarrow> RpcServer_AppendEntries areq srv n = Inr (processAppendEntries areq n)"
  by (auto simp: RpcServer_New_def RpcServer_RequestVote_def RpcServer_AppendEntries_def node_handler_def
      HandleRequestVote_def HandleAppendEntries_def)

lemma stopped_server_restarts:
  "RpcServer_Start (Inr ()) s = (s', Inr ()) \<Longrightarrow> RpcServer_Start (Inr ()) (RpcServer_Stop s') = (s', Inr ())"
  by (auto simp: RpcServer_Start_def RpcServer_Stop_def split: if_splits)

section \<open>Properties\<close>

text \<open>C22: The goroutines of a node share one connected client per peer. However the calls of
  \<open>GetClient\<close> interleave at their two lock sections, and whether connections fail or not,
  two goroutines hold the same client exactly when they asked for the same address, and that
  client is connected to it.\<close>

theorem pool_shares_one_client:
  assumes "(pool_step G)\<^sup>*\<^sup>* (s, \<lambda>_. NoCall) (s', ph)" "tp_pool s = NewClientPool timeout"
    and "ph g = Holds a p" "ph h = Holds b q"
  shows "(p = q \<longleftrightarrow> a = b) \<and> connected_to a (tp_clients s' ! p)"
proof -
  have "pool_inv (s', ph)" using pool_steps_inv [OF assms(1) new_pool_inv [OF assms(2)]] .
  then have "cp_clients (tp_pool s') a = Some p" "cp_clients (tp_pool s') b = Some q" "pool_ok s'"
    using assms(3,4) by (auto simp: pool_inv_def)
  then have c: "connected_to a (tp_clients s' ! p)" "connected_to b (tp_clients s' ! q)" "a = b \<Longrightarrow> p = q"
    using pool_okD by auto
  have "p = q \<Longrightarrow> a = b" using c(1,2) by (simp add: connected_to_def)
  with c show ?thesis by blast
qed

text \<open>Closing the pool disconnects every client in it, and a goroutine that still holds one
  gets an error without any traffic.\<close>

theorem closed_clients_refuse_calls:
  assumes "pool_ok s" "cp_clients (tp_pool s) a = Some p" "dom (cp_clients (tp_pool s)) \<subseteq> set order"
    and "CloseAll G order s = (s', r)"
  shows "rpc_call invoke ctx req p s' = (s', Inl NotConnected) \<and> cp_clients (tp_pool s') = Map.empty"
proof -
  let ?ps = "List.map_filter (cp_clients (tp_pool s)) order"
  have "p \<in> set ?ps" using assms(2,3) by (force simp: set_map_filter)
  then have "disconnected p (fst (close_clients G ?ps (Inr ()) s))"
    using pool_okD [OF assms(1,2)] by (intro close_clients_disconnects) (simp_all add: connected_to_def)
  then have "rc_client (tp_clients s' ! p) = None" "cp_clients (tp_pool s') = Map.empty"
    using assms(4) by (auto simp: CloseAll_def disconnected_def split: prod.splits)
  then show ?thesis by (simp add: rpc_call_def)
qed

text \<open>C34: Stopping a node deadlocks with the calls it serves. When a call is in progress as
  \<open>Stop\<close> begins, whatever the call has done so far, the system can come to a state with no
  further step; once \<open>Stop\<close> waits for the calls, it returns exactly if there are none.\<close>

theorem stop_deadlocks_with_served_call:
  fixes s :: "'sm node_server"
  assumes "ns_stop s = Running" "\<not> nd_stopCh_closed (ns_node s)" "rsv_started (ns_server s)"
  shows "(\<exists>t. serve_step\<^sup>*\<^sup>* s t \<and> ns_stop t = Draining \<and> ns_calls t = ns_calls s) \<and>
    (\<forall>t :: 'sm node_server. ns_stop t = Draining \<longrightarrow>
       ((\<exists>u. serve_step\<^sup>*\<^sup>* t u \<and> ns_stop u = StopReturned) \<longleftrightarrow> ns_calls t = []) \<and>
       (ns_calls t \<noteq> [] \<longrightarrow> (\<nexists>u. serve_step t u)))"
proof (intro conjI allI impI)
  let ?s1 = "s\<lparr>ns_node := Node_Stop (ns_node s), ns_stop := StopHoldsNode\<rparr>"
  have "serve_step s ?s1" using assms(1,2) by (rule serve_step.stop)
  moreover have "serve_step ?s1 (?s1\<lparr>ns_stop := Draining\<rparr>)"
    by (rule serve_step.drain) (simp_all add: assms(3))
  ultimately have "serve_step\<^sup>*\<^sup>* s (?s1\<lparr>ns_stop := Draining\<rparr>)" by simp
  then show "\<exists>t. serve_step\<^sup>*\<^sup>* s t \<and> ns_stop t = Draining \<and> ns_calls t = ns_calls s"
    by (intro exI [of _ "?s1\<lparr>ns_stop := Draining\<rparr>"]) simp
next
  fix t :: "'sm node_server" assume t: "ns_stop t = Draining"
  show "(\<exists>u. serve_step\<^sup>*\<^sup>* t u \<and> ns_stop u = StopReturned) \<longleftrightarrow> ns_calls t = []"
  proof
    assume "ns_calls t = []"
    from serve_step.drained [OF t this]
    show "\<exists>u. serve_step\<^sup>*\<^sup>* t u \<and> ns_stop u = StopReturned"
      by (intro exI conjI, rule r_into_rtranclp) simp_all
  next
    assume "\<exists>u. serve_step\<^sup>*\<^sup>* t u \<and> ns_stop u = StopReturned"
    then show "ns_calls t = []" using draining_stays t by fastforce
  qed
next
  fix t :: "'sm node_server" assume "ns_stop t = Draining" "ns_calls t \<noteq> []"
  then show "\<nexists>u. serve_step t u" using draining_step by blast
qed

section \<open>Witnesses\<close>

text \<open>A network in which every connection is established and is named by its address.\<close>

definition open_network :: "(unit, string) grpc" where
  "open_network =
     \<lparr>gr_dial = \<lambda>address timeout w. (w, Inr address), gr_close = \<lambda>conn w. (w, Inr ()),
      gr_vote = \<lambda>conn timeout req w. (w, Inr \<lparr>vr_Term = rv_Term req, vr_VoteGranted = False\<rparr>),
      gr_append = \<lambda>conn timeout req w. (w, Inl ''''), gr_install = \<lambda>conn timeout req w. (w, Inl '''')\<rparr>"

definition empty_transport :: "(unit, string) transport" where
  "empty_transport = \<lparr>tp_world = (), tp_clients = [], tp_pool = NewClientPool (500 * Millisecond)\<rparr>"

definition one_client :: "(unit, string) transport" where
  "one_client =
     \<lparr>tp_world = (),
      tp_clients = [\<lparr>rc_address = ''b'', rc_conn = Some ''b'', rc_client = Some ''b'', rc_timeout = 500 * Millisecond\<rparr>],
      tp_pool = \<lparr>cp_clients = [''b'' \<mapsto> 0], cp_timeout = 500 * Millisecond\<rparr>\<rparr>"

text \<open>Two goroutines look for the client of one address and find none; the first creates it,
  the second is given the same.\<close>

lemma two_callers:
  "(pool_step open_network)\<^sup>*\<^sup>* (empty_transport, \<lambda>_. NoCall)
     (one_client, (\<lambda>_. NoCall)(0 := Holds ''b'' 0, 1 := Holds ''b'' 0))"
proof -
  let ?p0 = "\<lambda>_. NoCall"
  let ?p1 = "?p0(0 := Missed ''b'')"
  let ?p2 = "?p1(1 := Missed ''b'')"
  let ?p3 = "?p2(0 := Holds ''b'' 0)"
  note defs = empty_transport_def one_client_def NewClientPool_def pool_lookup_def pool_create_def Connect_def
    RpcClient_New_def open_network_def Let_def
  have steps: "pool_step open_network (empty_transport, ?p0) (empty_transport, ?p1)"
    "pool_step open_network (empty_transport, ?p1) (empty_transport, ?p2)"
    by (rule pool_step.missed; simp add: defs)+
  have "pool_step open_network (empty_transport, ?p2) (one_client, ?p3)"
    "pool_step open_network (one_client, ?p3) (one_client, ?p3(1 := Holds ''b'' 0))"
    by (rule pool_step.created [where a = "''b''"]; simp add: defs)+
  note steps = steps this
  have "?p3(1 := Holds ''b'' 0) = (?p0 :: nat \<Rightarrow> get_phase)(0 := Holds ''b'' 0, 1 := Holds ''b'' 0)"
    by (simp add: fun_eq_iff)
  with converse_rtranclp_into_rtranclp [OF steps(1) converse_rtranclp_into_rtranclp [OF steps(2)
      converse_rtranclp_into_rtranclp [OF steps(3) r_into_rtranclp [of "pool_step open_network", OF steps(4)]]]]
  show ?thesis by (simp only:)
qed

theorem pool_shares_one_client_witness:
  "\<exists>ph. (pool_step open_network)\<^sup>*\<^sup>* (empty_transport, \<lambda>_. NoCall) (one_client, ph) \<and>
     ph 0 = Holds ''b'' 0 \<and> ph 1 = Holds ''b'' 0 \<and> connected_to ''b'' (tp_clients one_client ! 0)"
proof (intro exI conjI)
  let ?ph = "(\<lambda>_ :: nat. NoCall)(0 := Holds ''b'' 0, 1 := Holds ''b'' 0)"
  show "(pool_step open_network)\<^sup>*\<^sup>* (empty_transport, \<lambda>_. NoCall) (one_client, ?ph)" by (rule two_callers)
  show "?ph 0 = Holds ''b'' 0" "?ph 1 = Holds ''b'' 0" by simp_all
  show "connected_to ''b'' (tp_clients one_client ! 0)"
    using pool_shares_one_client [OF two_callers, of "500 * Millisecond" 0 "''b''" 0 1 "''b''" 0]
    by (simp add: empty_transport_def)
qed

definition serving_node :: "unit node_server" where
  "serving_node =
     \<lparr>ns_node = (example_node ''n1'' [''n2''])\<lparr>nd_stopCh_closed := False\<rparr>,
      ns_server = \<lparr>rsv_address = ''b'', rsv_listener = True, rsv_grpc = True, rsv_handler = Some node_handler,
                   rsv_started = True\<rparr>,
      ns_stop = Running, ns_calls = [InHandler]\<rparr>"

theorem stop_deadlocks_with_served_call_witness:
  "\<exists>t. serve_step\<^sup>*\<^sup>* serving_node t \<and> ns_stop t = Draining \<and> (\<nexists>u. serve_step t u)"
proof -
  note p = stop_deadlocks_with_served_call [of serving_node]
  have "ns_stop serving_node = Running" "\<not> nd_stopCh_closed (ns_node serving_node)"
    "rsv_started (ns_server serving_node)" "ns_calls serving_node \<noteq> []"
    by (simp_all add: serving_node_def)
  with p show ?thesis by metis
qed

end
