(* ===== verification/ServerCommand.thy ===== *)
theory ServerCommand
  imports ApiServer "HOL-Library.Sublist"
begin

text \<open>
  The server command, \<open>src/cmd/keyval/main.go\<close>: the parser of the \<open>-peers\<close> flag with
  the string functions of Go it uses, and \<open>main\<close> from the parsed flags to the exit code.
  A Go string is its list of bytes. Whether the RPC server can listen on the address, the
  random source, the clock, and what the running node does until the signal arrives are
  parameters; log output is left out.
\<close>

section \<open>String functions\<close>

text \<open>\<open>strings.Split\<close> and \<open>strings.SplitN(_, _, 2)\<close> with a separator of one byte.\<close>

fun strings_Split :: "char \<Rightarrow> string \<Rightarrow> string list" where
  "strings_Split c [] = [[]]"
| "strings_Split c (x # xs) =
     (if x = c then [] # strings_Split c xs
      else case strings_Split c xs of [] \<Rightarrow> [[x]] | y # ys \<Rightarrow> (x # y) # ys)"

definition strings_SplitN2 :: "char \<Rightarrow> string \<Rightarrow> string list" where
  "strings_SplitN2 c s =
     (case dropWhile (\<lambda>x. x \<noteq> c) s of
        [] \<Rightarrow> [s]
      | _ # after \<Rightarrow> [takeWhile (\<lambda>x. x \<noteq> c) s, after])"

text \<open>
  The runes \<open>unicode.IsSpace\<close> accepts, in UTF-8. No encoding is a proper suffix of another
  rune's, so \<open>strings.TrimSpace\<close> removes them from both ends byte by byte.
\<close>

definition space_runes :: "string list" where
  "space_runes =
     [[CHR 0x09], [CHR 0x0A], [CHR 0x0B], [CHR 0x0C], [CHR 0x0D], [CHR 0x20],
      [CHR 0xC2, CHR 0x85], [CHR 0xC2, CHR 0xA0], [CHR 0xE1, CHR 0x9A, CHR 0x80],
      [CHR 0xE2, CHR 0x80, CHR 0x80], [CHR 0xE2, CHR 0x80, CHR 0x81], [CHR 0xE2, CHR 0x80, CHR 0x82],
      [CHR 0xE2, CHR 0x80, CHR 0x83], [CHR 0xE2, CHR 0x80, CHR 0x84], [CHR 0xE2, CHR 0x80, CHR 0x85],
      [CHR 0xE2, CHR 0x80, CHR 0x86], [CHR 0xE2, CHR 0x80, CHR 0x87], [CHR 0xE2, CHR 0x80, CHR 0x88],
      [CHR 0xE2, CHR 0x80, CHR 0x89], [CHR 0xE2, CHR 0x80, CHR 0x8A], [CHR 0xE2, CHR 0x80, CHR 0xA8],
      [CHR 0xE2, CHR 0x80, CHR 0xA9], [CHR 0xE2, CHR 0x80, CHR 0xAF], [CHR 0xE2, CHR 0x81, CHR 0x9F],
      [CHR 0xE3, CHR 0x80, CHR 0x80]]"

function trim_with :: "string list \<Rightarrow> string \<Rightarrow> string" where
  "trim_with ws s =
     (case find (\<lambda>w. w \<noteq> [] \<and> prefix w s) ws of
        None \<Rightarrow> s
      | Some w \<Rightarrow> trim_with ws (drop (length w) s))"
  by pat_completeness auto
termination
  by (relation "measure (\<lambda>(ws, s). length s)") (auto simp: find_Some_iff prefix_def)

declare trim_with.simps [simp del]

definition strings_TrimSpace :: "string \<Rightarrow> string" where
  "strings_TrimSpace s = rev (trim_with (map rev space_runes) (rev (trim_with space_runes s)))"


section \<open>The peers flag\<close>

datatype peers_error = InvalidPeerFormat string

fun parsePeers_loop :: "string list \<Rightarrow> peers_error + Peer list" where
  "parsePeers_loop [] = Inr []"
| "parsePeers_loop (part # parts) =
     (let part = strings_TrimSpace part in
      if part = '''' then parsePeers_loop parts
      else case strings_SplitN2 CHR ''='' part of
             [k, v] \<Rightarrow>
               (case parsePeers_loop parts of
                  Inl e \<Rightarrow> Inl e
                | Inr peers \<Rightarrow>
                    Inr (\<lparr>pr_ID = strings_TrimSpace k, pr_Address = strings_TrimSpace v\<rparr> # peers))
           | _ \<Rightarrow> Inl (InvalidPeerFormat part))"

definition parsePeers :: "string \<Rightarrow> peers_error + Peer list" where
  "parsePeers peersStr =
     (if peersStr = '''' then Inr [] else parsePeers_loop (strings_Split CHR '','' peersStr))"


section \<open>The command\<close>

record keyval_flags =
  kf_nodeID :: string
  kf_addr :: string
  kf_peers :: string
  kf_logLevel :: string
  kf_dataDir :: string
  kf_showVersion :: bool

definition default_flags :: keyval_flags where
  "default_flags =
     \<lparr>kf_nodeID = '''', kf_addr = ''127.0.0.1:7000'', kf_peers = '''', kf_logLevel = ''INFO'',
      kf_dataDir = ''./data'', kf_showVersion = False\<rparr>"

datatype keyval_outcome =
    PrintedVersion
  | NodeIDMissing
  | PeersRejected peers_error
  | NodeNotCreated node_error
  | NodeNotStarted
  | RanUntilSignal Server "KVStateMachine Node"

text \<open>\<open>run\<close> is what the node and its goroutines do between the start and the signal.\<close>

definition keyval_main ::
  "time \<Rightarrow> (nat \<Rightarrow> nat) \<Rightarrow> (string \<Rightarrow> bool) \<Rightarrow> (KVStateMachine Node \<Rightarrow> KVStateMachine Node)
     \<Rightarrow> keyval_flags \<Rightarrow> keyval_outcome" where
  "keyval_main now source listens run fl =
     (if kf_showVersion fl then PrintedVersion
      else if kf_nodeID fl = '''' then NodeIDMissing
      else case parsePeers (kf_peers fl) of
        Inl e \<Rightarrow> PeersRejected e
      | Inr peerList \<Rightarrow>
          (case NewNode now source NewKVStateMachine (kf_nodeID fl) (kf_addr fl) peerList [] of
             Inl e \<Rightarrow> NodeNotCreated e
           | Inr node \<Rightarrow>
               if \<not> listens (kf_addr fl) then NodeNotStarted
               else
                 let node = Node_Start node;
                     apiServer = NewServer node;
                     node = Node_Stop (run node)
                 in RanUntilSignal apiServer node))"

fun exit_code :: "keyval_outcome \<Rightarrow> nat" where
  "exit_code PrintedVersion = 0"
| "exit_code (RanUntilSignal _ _) = 0"
| "exit_code _ = 1"


section \<open>Splitting and trimming\<close>

lemma strings_Split_not_Nil [simp]: "strings_Split c s \<noteq> []"
  by (induction s) (auto split: list.split)

lemma strings_Split_single: "c \<notin> set s \<Longrightarrow> strings_Split c s = [s]"
  by (induction s) auto

lemma strings_Split_append:
  "c \<notin> set s \<Longrightarrow> strings_Split c (s @ c # t) = s # strings_Split c t"
  by (induction s) auto

text \<open>Joining the parts with the separator gives the string back.\<close>

fun strings_Join :: "char \<Rightarrow> string list \<Rightarrow> string" where
  "strings_Join c [] = []"
| "strings_Join c [s] = s"
| "strings_Join c (s # t # ts) = s @ c # strings_Join c (t # ts)"

lemma strings_Join_Split: "strings_Join c (strings_Split c s) = s"
proof (induction s)
  case Nil
  then show ?case by simp
next
  case (Cons x s)
  obtain y ys where "strings_Split c s = y # ys" by (cases "strings_Split c s") auto
  with Cons show ?case by (cases ys) auto
qed

lemma strings_SplitN2_append:
  "c \<notin> set s \<Longrightarrow> strings_SplitN2 c (s @ c # t) = [s, t]"
proof -
  assume c: "c \<notin> set s"
  then have "dropWhile (\<lambda>x. x \<noteq> c) (s @ c # t) = c # t"
    by (subst dropWhile_append2) auto
  moreover have "takeWhile (\<lambda>x. x \<noteq> c) (s @ c # t) = s"
    using c by (subst takeWhile_append2) auto
  ultimately show ?thesis by (simp add: strings_SplitN2_def)
qed

lemma strings_SplitN2_none: "c \<notin> set s \<longleftrightarrow> strings_SplitN2 c s = [s]"
proof
  assume "c \<notin> set s"
  then have "dropWhile (\<lambda>x. x \<noteq> c) s = []" by auto
  then show "strings_SplitN2 c s = [s]" by (simp only: strings_SplitN2_def list.case)
next
  assume "strings_SplitN2 c s = [s]"
  then have "dropWhile (\<lambda>x. x \<noteq> c) s = []"
    by (cases "dropWhile (\<lambda>x. x \<noteq> c) s") (simp_all add: strings_SplitN2_def del: dropWhile_eq_Nil_conv)
  then show "c \<notin> set s" by auto
qed

lemma trim_with_stop: "\<forall>w \<in> set ws. w \<noteq> [] \<longrightarrow> \<not> prefix w s \<Longrightarrow> trim_with ws s = s"
proof -
  assume "\<forall>w \<in> set ws. w \<noteq> [] \<longrightarrow> \<not> prefix w s"
  then have "find (\<lambda>w. w \<noteq> [] \<and> prefix w s) ws = None" by (auto simp: find_None_iff)
  then show ?thesis by (subst trim_with.simps) simp
qed

lemma length_trim_with: "length (trim_with ws s) \<le> length s"
proof (induction ws s rule: trim_with.induct)
  case (1 ws s)
  then show ?case by (subst trim_with.simps) (auto split: option.split intro: order_trans)
qed

lemma trim_with_fixed_iff: "trim_with ws s = s \<longleftrightarrow> (\<forall>w \<in> set ws. w \<noteq> [] \<longrightarrow> \<not> prefix w s)"
proof
  assume fixed: "trim_with ws s = s"
  show "\<forall>w \<in> set ws. w \<noteq> [] \<longrightarrow> \<not> prefix w s"
  proof (rule ccontr)
    assume "\<not> ?thesis"
    then obtain w where w: "find (\<lambda>w. w \<noteq> [] \<and> prefix w s) ws = Some w"
      by (cases "find (\<lambda>w. w \<noteq> [] \<and> prefix w s) ws") (auto simp: find_None_iff)
    then have "w \<noteq> []" "prefix w s" by (auto simp: find_Some_iff)
    then have "length (drop (length w) s) < length s" by (auto simp: prefix_def)
    moreover have "trim_with ws s = trim_with ws (drop (length w) s)"
      using w by (subst trim_with.simps) simp
    ultimately show False using fixed length_trim_with [of ws "drop (length w) s"] by simp
  qed
qed (rule trim_with_stop)

lemma trim_with_append:
  assumes "trim_with ws s = s" "\<forall>w \<in> set ws. c \<notin> set w"
  shows "trim_with ws (s @ c # t) = s @ c # t"
proof (rule trim_with_stop, intro ballI impI)
  fix w assume w: "w \<in> set ws" "w \<noteq> []"
  show "\<not> prefix w (s @ c # t)"
  proof
    assume p: "prefix w (s @ c # t)"
    have "\<not> prefix w s" using assms(1) w by (simp add: trim_with_fixed_iff)
    then have "length s < length w" using p
      by (metis append_eq_append_conv_if not_le prefix_def take_is_prefix)
    moreover obtain r where "s @ c # t = w @ r" using p by (auto simp: prefix_def)
    ultimately have "w ! length s = c" by (metis nth_append nth_append_length)
    with \<open>length s < length w\<close> assms(2) w show False by (metis nth_mem)
  qed
qed

lemma TrimSpace_fixed:
  "strings_TrimSpace s = s \<longleftrightarrow>
     trim_with space_runes s = s \<and> trim_with (map rev space_runes) (rev s) = rev s"
proof
  assume fixed: "strings_TrimSpace s = s"
  let ?t = "trim_with space_runes s"
  have "length s \<le> length ?t"
    using length_trim_with [of "map rev space_runes" "rev ?t"] arg_cong [OF fixed, of length]
    by (simp add: strings_TrimSpace_def)
  moreover have "?t = s \<or> length ?t < length s"
  proof (cases "\<forall>w \<in> set space_runes. w \<noteq> [] \<longrightarrow> \<not> prefix w s")
    case True
    then show ?thesis by (simp add: trim_with_stop)
  next
    case False
    then obtain w where w: "find (\<lambda>w. w \<noteq> [] \<and> prefix w s) space_runes = Some w"
      by (cases "find (\<lambda>w. w \<noteq> [] \<and> prefix w s) space_runes") (auto simp: find_None_iff)
    then have "w \<noteq> []" "prefix w s" by (auto simp: find_Some_iff)
    then have "length (drop (length w) s) < length s" by (auto simp: prefix_def)
    moreover have "?t = trim_with space_runes (drop (length w) s)"
      using w by (subst trim_with.simps) simp
    ultimately show ?thesis using length_trim_with [of space_runes "drop (length w) s"] by simp
  qed
  ultimately have "?t = s" by auto
  with fixed show "?t = s \<and> trim_with (map rev space_runes) (rev s) = rev s"
    by (simp add: strings_TrimSpace_def) (metis rev_swap)
qed (simp add: strings_TrimSpace_def)

lemma TrimSpace_join:
  assumes "strings_TrimSpace s = s" "strings_TrimSpace t = t" "\<forall>w \<in> set space_runes. c \<notin> set w"
  shows "strings_TrimSpace (s @ c # t) = s @ c # t"
proof -
  have "trim_with space_runes (s @ c # t) = s @ c # t"
    using assms by (intro trim_with_append) (auto simp: TrimSpace_fixed)
  moreover have "trim_with (map rev space_runes) (rev t @ c # rev s) = rev t @ c # rev s"
    using assms by (intro trim_with_append) (auto simp: TrimSpace_fixed)
  ultimately show ?thesis by (simp add: strings_TrimSpace_def)
qed


section \<open>Properties of the peers flag\<close>

text \<open>The text of a list of peers, and the peers it can carry.\<close>

definition print_peer :: "Peer \<Rightarrow> string" where
  "print_peer p = pr_ID p @ CHR ''='' # pr_Address p"

definition print_peers :: "Peer list \<Rightarrow> string" where
  "print_peers ps = strings_Join CHR '','' (map print_peer ps)"

definition printable_peer :: "Peer \<Rightarrow> bool" where
  "printable_peer p \<longleftrightarrow>
     CHR '','' \<notin> set (pr_ID p) \<and> CHR ''='' \<notin> set (pr_ID p) \<and> CHR '','' \<notin> set (pr_Address p) \<and>
     strings_TrimSpace (pr_ID p) = pr_ID p \<and> strings_TrimSpace (pr_Address p) = pr_Address p"

lemma strings_Split_Join:
  "ss \<noteq> [] \<Longrightarrow> \<forall>s \<in> set ss. c \<notin> set s \<Longrightarrow> strings_Split c (strings_Join c ss) = ss"
  by (induction c ss rule: strings_Join.induct) (auto simp: strings_Split_single strings_Split_append)

lemma separators_not_space: "\<forall>w \<in> set space_runes. CHR ''='' \<notin> set w"
  by (simp add: space_runes_def)

lemma parsePeers_loop_print:
  "\<forall>p \<in> set ps. printable_peer p \<Longrightarrow> parsePeers_loop (map print_peer ps) = Inr ps"
proof (induction ps)
  case Nil
  then show ?case by simp
next
  case (Cons p ps)
  then have p: "printable_peer p" and ps: "parsePeers_loop (map print_peer ps) = Inr ps" by auto
  have "strings_TrimSpace (print_peer p) = print_peer p"
    unfolding print_peer_def using p separators_not_space by (intro TrimSpace_join) (auto simp: printable_peer_def)
  moreover have "strings_SplitN2 CHR ''='' (print_peer p) = [pr_ID p, pr_Address p]"
    unfolding print_peer_def using p by (intro strings_SplitN2_append) (simp add: printable_peer_def)
  moreover have "print_peer p \<noteq> ''''" by (simp add: print_peer_def)
  ultimately show ?case using p ps by (simp add: printable_peer_def Let_def)
qed

text \<open>C20: \<open>parsePeers\<close> reads back what \<open>print_peers\<close> writes: every list of peers whose
  identifiers and addresses have no comma, no surrounding space and, in an identifier, no
  equals sign, can be given on the command line, in any order and with addresses that contain
  an equals sign.\<close>

theorem parsePeers_roundtrip:
  assumes "\<forall>p \<in> set ps. printable_peer p"
  shows "parsePeers (print_peers ps) = Inr ps"
proof (cases "ps = []")
  case True
  then show ?thesis by (simp add: parsePeers_def print_peers_def)
next
  case False
  have "strings_Split CHR '','' (print_peers ps) = map print_peer ps"
    unfolding print_peers_def using assms False
    by (intro strings_Split_Join) (auto simp: print_peer_def printable_peer_def)
  moreover have "print_peers ps \<noteq> ''''"
    using False by (cases ps rule: remdups_adj.cases) (auto simp: print_peers_def print_peer_def)
  ultimately show ?thesis using parsePeers_loop_print [OF assms] by (simp add: parsePeers_def)
qed

theorem parsePeers_roundtrip_witness:
  "let ps = [\<lparr>pr_ID = ''n2'', pr_Address = ''h:1''\<rparr>, \<lparr>pr_ID = ''n3'', pr_Address = ''a=b''\<rparr>] in
     print_peers ps = ''n2=h:1,n3=a=b'' \<and> parsePeers ''n2=h:1,n3=a=b'' = Inr ps"
proof -
  let ?ps = "[\<lparr>pr_ID = ''n2'', pr_Address = ''h:1''\<rparr>, \<lparr>pr_ID = ''n3'', pr_Address = ''a=b''\<rparr>]"
  have "\<forall>p \<in> set ?ps. printable_peer p"
    by (simp add: printable_peer_def TrimSpace_fixed trim_with_fixed_iff space_runes_def)
  from parsePeers_roundtrip [OF this] show ?thesis by (simp add: print_peers_def print_peer_def)
qed

text \<open>The parser refuses exactly the strings with a part that is not blank and has no equals sign.\<close>

definition part_ok :: "string \<Rightarrow> bool" where
  "part_ok part \<longleftrightarrow> strings_TrimSpace part = '''' \<or> CHR ''='' \<in> set (strings_TrimSpace part)"

lemma parsePeers_loop_ok: "(\<exists>ps. parsePeers_loop parts = Inr ps) \<longleftrightarrow> (\<forall>part \<in> set parts. part_ok part)"
proof (induction parts)
  case Nil
  then show ?case by simp
next
  case (Cons part parts)
  let ?t = "strings_TrimSpace part"
  consider "?t = ''''" | "?t \<noteq> ''''" "CHR ''='' \<notin> set ?t" | "CHR ''='' \<in> set ?t" by blast
  then show ?case
  proof cases
    case 1
    with Cons show ?thesis by (simp add: part_ok_def)
  next
    case 2
    then have "strings_SplitN2 CHR ''='' ?t = [?t]" using strings_SplitN2_none by blast
    with 2 show ?thesis by (simp add: part_ok_def)
  next
    case 3
    then obtain k v where t: "?t = k @ CHR ''='' # v" "CHR ''='' \<notin> set k" by (metis split_list_first)
    then have "strings_SplitN2 CHR ''='' ?t = [k, v]" by (simp add: strings_SplitN2_append)
    moreover have "?t \<noteq> ''''" "part_ok part" using 3 by (auto simp: part_ok_def)
    ultimately show ?thesis using Cons by (auto split: sum.splits)
  qed
qed

theorem parsePeers_accepts:
  "(\<exists>ps. parsePeers s = Inr ps) \<longleftrightarrow> s = '''' \<or> (\<forall>part \<in> set (strings_Split CHR '','' s). part_ok part)"
  using parsePeers_loop_ok by (simp add: parsePeers_def)


section \<open>Properties of the command\<close>

lemma NewNode_default:
  "nodeID \<noteq> '''' \<Longrightarrow>
   (\<exists>n. NewNode now source sm nodeID address ps [] = Inr n) \<longleftrightarrow> address \<noteq> ''''"
  using provided_configs_valid(1)
  by (auto simp: NewNode_def Let_def NewElectionTimer_def DefaultConfig_def split: option.split)

text \<open>
  The command ends with exit code 0 exactly when it was asked for its version or ran a node
  until the signal; it runs a node exactly when an identifier and an address are given, the
  peers can be parsed and the address can be listened on. The data directory and the log
  level have no influence.
\<close>

theorem keyval_exit_code:
  "exit_code (keyval_main now source listens run fl) = 0 \<longleftrightarrow>
     kf_showVersion fl \<or>
     (kf_nodeID fl \<noteq> '''' \<and> kf_addr fl \<noteq> '''' \<and> listens (kf_addr fl) \<and>
      (\<exists>ps. parsePeers (kf_peers fl) = Inr ps))"
proof (cases "kf_showVersion fl \<or> kf_nodeID fl = ''''")
  case True
  then show ?thesis by (auto simp: keyval_main_def)
next
  case flags: False
  show ?thesis
  proof (cases "parsePeers (kf_peers fl)")
    case (Inl e)
    with flags show ?thesis by (simp add: keyval_main_def)
  next
    case (Inr ps)
    have new: "(\<exists>n. NewNode now source NewKVStateMachine (kf_nodeID fl) (kf_addr fl) ps [] = Inr n)
        \<longleftrightarrow> kf_addr fl \<noteq> ''''"
      using flags by (intro NewNode_default) simp
    show ?thesis
      using flags Inr new
      by (cases "NewNode now source NewKVStateMachine (kf_nodeID fl) (kf_addr fl) ps []")
        (simp_all add: keyval_main_def Let_def)
  qed
qed

theorem data_directory_is_ignored:
  "keyval_main now source listens run (fl\<lparr>kf_dataDir := d, kf_logLevel := l\<rparr>)
     = keyval_main now source listens run fl"
  by (simp add: keyval_main_def cong del: sum.case_cong_weak)

end
