(* ===== verification/Kvctl.thy ===== *)
theory Kvctl
  imports ClusterApi ApiSession
begin

text \<open>
  The control tool, \<open>src/cmd/kvctl/\<close>: the dispatch of the command line in
  \<open>main.go\<close>, the data commands of its \<open>Client\<close>, the cluster commands of
  \<open>cluster.go\<close>, the maintenance commands of \<open>maintenance.go\<close> and the
  formatting functions. The tool has no connection to a cluster: a command prints, and
  returns an error or not. What a call writes is an element of the output: text, a line of
  cells given to the tab writer, or a value given to the JSON encoder. Writing to the standard
  output does not fail, sleeping is left out, and one run reads one time from the clock; the
  layout functions of times are a parameter, and the parsed flags an argument.
\<close>

section \<open>Output\<close>

definition nl :: string where "nl = [CHR 0x0A]"
definition quote :: string where "quote = [CHR 0x27]"
definition check_mark :: string where "check_mark = [CHR 0xE2, CHR 0x9C, CHR 0x93]"
definition cross_mark :: string where "cross_mark = [CHR 0xE2, CHR 0x9C, CHR 0x97]"
definition warning_sign :: string where "warning_sign = [CHR 0xE2, CHR 0x9A, CHR 0xA0]"

record SnapshotInfo =
  sn_ID :: string
  sn_Index :: u64
  sn_Term :: u64
  sn_Size :: int
  sn_CreatedAt :: time
  sn_ConfigMembers :: nat

datatype json_value =
    JsonMembers "MemberInfo list"
  | JsonMember MemberInfo
  | JsonClusterInfo ClusterInfo
  | JsonClusterHealth ClusterHealth
  | JsonSnapshots "SnapshotInfo list"

datatype kvctl_output =
    Stdout string
  | Stderr string
  | TabLine "string list"
  | EncodedJSON json_value

record kvctl_env =
  en_now :: time
  en_hostname :: string
  en_pid :: nat
  en_RFC3339 :: "time \<Rightarrow> string"
  en_minutes :: "time \<Rightarrow> string"  \<comment> \<open>the layout \<open>2006-01-02 15:04\<close>\<close>

definition show_bool :: "bool \<Rightarrow> string" where
  "show_bool b = (if b then ''true'' else ''false'')"

definition show_int :: "int \<Rightarrow> string" where
  "show_int i = (if i < 0 then ''-'' @ decimal (nat (- i)) else decimal (nat i))"

abbreviation Hour :: duration where
  "Hour \<equiv> 3600 * Second"


section \<open>Data commands\<close>

record CtlClient =
  kt_serverAddr :: string
  kt_timeout :: duration
  kt_clientID :: string
  kt_sequence :: u64

definition getClientID :: "kvctl_env \<Rightarrow> CtlClient \<Rightarrow> CtlClient \<times> string" where
  "getClientID env c =
     (let c = (if kt_clientID c = ''''
               then c\<lparr>kt_clientID := en_hostname env @ ''-'' @ decimal (en_pid env)\<rparr> else c)
      in (c, kt_clientID c))"

definition nextSequence :: "CtlClient \<Rightarrow> CtlClient \<times> u64" where
  "nextSequence c = (let c = c\<lparr>kt_sequence := kt_sequence c + 1\<rparr> in (c, kt_sequence c))"

definition ctl_generateRequestID :: "kvctl_env \<Rightarrow> string" where
  "ctl_generateRequestID env = show_int (en_now env) @ ''-'' @ decimal (en_pid env)"

text \<open>The request the three data commands build in the same way.\<close>

definition ctl_request ::
  "kvctl_env \<Rightarrow> OperationType \<Rightarrow> string \<Rightarrow> bytes option \<Rightarrow> CtlClient \<Rightarrow> CtlClient \<times> Request" where
  "ctl_request env ty key value c =
     (let id = ctl_generateRequestID env;
          (c, clientID) = getClientID env c;
          (c, sequence) = nextSequence c
      in (c, \<lparr>rq_ID = id, rq_ClientID = clientID, rq_Sequence = sequence, rq_Type = ty, rq_Key = key,
              rq_Value = value, rq_Timeout = kt_timeout c\<rparr>))"

type_synonym ctl_result = "kvctl_output list \<times> string option"

definition ctl_Put :: "kvctl_env \<Rightarrow> string list \<Rightarrow> CtlClient \<Rightarrow> CtlClient \<times> ctl_result" where
  "ctl_Put env args c =
     (case args of
        [key, value] \<Rightarrow>
          let (c, req) = ctl_request env OperationPut key (Some (map of_char value)) c
          in (c,
              [Stdout (''PUT '' @ key @ '' = '' @ value @ '' (request would be sent to '' @ kt_serverAddr c @ '')'' @ nl),
               Stdout (''Request ID: '' @ rq_ID req @ nl),
               Stdout (''Success: true'' @ nl)], None)
      | _ \<Rightarrow> (c, [], Some ''usage: kvctl put <key> <value>''))"

definition ctl_Get :: "kvctl_env \<Rightarrow> string list \<Rightarrow> CtlClient \<Rightarrow> CtlClient \<times> ctl_result" where
  "ctl_Get env args c =
     (case args of
        [key] \<Rightarrow>
          let (c, req) = ctl_request env OperationGet key None c
          in (c,
              [Stdout (''GET '' @ key @ '' (request would be sent to '' @ kt_serverAddr c @ '')'' @ nl),
               Stdout (''Request ID: '' @ rq_ID req @ nl),
               Stdout (''(Value would be displayed here)'' @ nl)], None)
      | _ \<Rightarrow> (c, [], Some ''usage: kvctl get <key>''))"

definition ctl_Delete :: "kvctl_env \<Rightarrow> string list \<Rightarrow> CtlClient \<Rightarrow> CtlClient \<times> ctl_result" where
  "ctl_Delete env args c =
     (case args of
        [key] \<Rightarrow>
          let (c, req) = ctl_request env OperationDelete key None c
          in (c,
              [Stdout (''DELETE '' @ key @ '' (request would be sent to '' @ kt_serverAddr c @ '')'' @ nl),
               Stdout (''Request ID: '' @ rq_ID req @ nl),
               Stdout (''Success: true'' @ nl)], None)
      | _ \<Rightarrow> (c, [], Some ''usage: kvctl delete <key>''))"

definition ctl_Scan :: "string list \<Rightarrow> CtlClient \<Rightarrow> ctl_result" where
  "ctl_Scan args c =
     (let prefix = (case args of [] \<Rightarrow> '''' | p # _ \<Rightarrow> p)
      in ([if prefix = ''''
           then Stdout (''SCAN all keys (request would be sent to '' @ kt_serverAddr c @ '')'' @ nl)
           else Stdout (''SCAN keys with prefix '' @ quote @ prefix @ quote @ '' (request would be sent to '' @ kt_serverAddr c @ '')'' @ nl),
           Stdout (nl @ ''Results (placeholder):'' @ nl),
           Stdout (''  key1 = value1'' @ nl),
           Stdout (''  key2 = value2'' @ nl),
           Stdout (''  key3 = value3'' @ nl),
           Stdout (nl @ ''Total: 3 keys'' @ nl)], None))"

definition ctl_Status :: "CtlClient \<Rightarrow> ctl_result" where
  "ctl_Status c =
     ([Stdout (''Cluster Status (from '' @ kt_serverAddr c @ ''):'' @ nl),
       Stdout (''  Status: Running (placeholder)'' @ nl),
       Stdout (''  Leader: node1 (placeholder)'' @ nl),
       Stdout (''  Nodes: 3/3 (placeholder)'' @ nl)], None)"


section \<open>Cluster commands\<close>

definition placeholder_member :: "kvctl_env \<Rightarrow> string \<Rightarrow> string \<Rightarrow> bool \<Rightarrow> MemberInfo" where
  "placeholder_member env nodeID address leader =
     \<lparr>mi_ID = nodeID, mi_Address = address, mi_Type = ''Voter'',
      mi_State = (if leader then ''Leader'' else ''Follower''), mi_IsLeader = leader, mi_IsSelf = leader,
      mi_AddedAt = en_now env - 24 * Hour, mi_LastContact = None, mi_LearnerStatus = None\<rparr>"

definition placeholder_members :: "kvctl_env \<Rightarrow> MemberInfo list" where
  "placeholder_members env =
     [placeholder_member env ''node1'' ''localhost:7001'' True,
      placeholder_member env ''node2'' ''localhost:7002'' False,
      placeholder_member env ''node3'' ''localhost:7003'' False]"

definition printMembersTable :: "MemberInfo list \<Rightarrow> kvctl_output list" where
  "printMembersTable members =
     TabLine [nl @ ''ID'', ''ADDRESS'', ''TYPE'', ''STATE'', ''LEADER'', ''SELF'']
     # TabLine [''--'', ''-------'', ''----'', ''-----'', ''------'', ''----'']
     # map (\<lambda>m. TabLine
         [mi_ID m, mi_Address m, mi_Type m, if mi_State m = '''' then ''-'' else mi_State m,
          if mi_IsLeader m then check_mark else '''', if mi_IsSelf m then check_mark else '''']) members"

definition kc_ListMembers :: "kvctl_env \<Rightarrow> string \<Rightarrow> bool \<Rightarrow> kvctl_output list" where
  "kc_ListMembers env server jsonOutput =
     (let members = placeholder_members env in
      Stdout (''Listing cluster members (from '' @ server @ '')...'' @ nl)
      # (if jsonOutput then [EncodedJSON (JsonMembers members)] else printMembersTable members))"

definition kc_ShowMember :: "kvctl_env \<Rightarrow> string \<Rightarrow> string \<Rightarrow> bool \<Rightarrow> kvctl_output list" where
  "kc_ShowMember env server nodeID jsonOutput =
     (let member = placeholder_member env nodeID ''localhost:7001'' True in
      Stdout (''Getting member info for '' @ nodeID @ '' (from '' @ server @ '')...'' @ nl)
      # (if jsonOutput then [EncodedJSON (JsonMember member)]
         else
           [Stdout (nl @ ''Member Information:'' @ nl),
            Stdout (''  ID:           '' @ mi_ID member @ nl),
            Stdout (''  Address:      '' @ mi_Address member @ nl),
            Stdout (''  Type:         '' @ mi_Type member @ nl),
            Stdout (''  State:        '' @ mi_State member @ nl),
            Stdout (''  Is Leader:    '' @ show_bool (mi_IsLeader member) @ nl),
            Stdout (''  Is Self:      '' @ show_bool (mi_IsSelf member) @ nl),
            Stdout (''  Added At:     '' @ en_RFC3339 env (mi_AddedAt member) @ nl)] @
           (case mi_LearnerStatus member of
              None \<Rightarrow> []
            | Some status \<Rightarrow>
                [Stdout (nl @ ''Learner Status:'' @ nl),
                 Stdout (''  Match Index:        '' @ decimal (unat (lr_MatchIndex status)) @ nl),
                 Stdout (''  Catch-Up Threshold: '' @ decimal (unat (lr_CatchUpThreshold status)) @ nl),
                 Stdout (''  Caught Up:          '' @ show_bool (lr_CaughtUp status) @ nl),
                 Stdout (''  Bytes Replicated:   '' @ decimal (unat (lr_BytesReplicated status)) @ nl)])))"

definition kc_AddMember :: "string \<Rightarrow> string \<Rightarrow> string \<Rightarrow> kvctl_output list" where
  "kc_AddMember server nodeID address =
       [Stdout (''Adding member '' @ nodeID @ '' at '' @ address @ '' (to '' @ server @ '')...'' @ nl),
        Stdout (nl @ ''Phase 1: Adding as learner...'' @ nl),
        Stdout (check_mark @ '' Member added as learner'' @ nl),
        Stdout (nl @ ''Phase 2: Waiting for catch-up...'' @ nl),
        Stdout (''  Progress: Replicating log entries...'' @ nl),
        Stdout (check_mark @ '' Learner caught up'' @ nl),
        Stdout (nl @ ''Phase 3: Promoting to voting member...'' @ nl),
        Stdout (check_mark @ '' Member promoted to voter'' @ nl),
        Stdout (nl @ check_mark @ '' Successfully added member '' @ nodeID @ '' to cluster'' @ nl)]"

definition kc_RemoveMember :: "string \<Rightarrow> string \<Rightarrow> bool \<Rightarrow> kvctl_output list" where
  "kc_RemoveMember server nodeID force =
     [Stdout (''Removing member '' @ nodeID @ '' (from '' @ server @ '')...'' @ nl)] @
     (if force then [Stdout (warning_sign @ '' Force removal requested - skipping safety checks'' @ nl)] else []) @
     [Stdout (nl @ ''Removing member from cluster...'' @ nl),
      Stdout (check_mark @ '' Configuration change committed'' @ nl),
      Stdout (nl @ check_mark @ '' Successfully removed member '' @ nodeID @ '' from cluster'' @ nl),
      Stdout (nl @ ''Note: The removed node will automatically shut down when it receives the configuration change.'' @ nl)]"

definition kc_PromoteMember :: "string \<Rightarrow> string \<Rightarrow> kvctl_output list" where
  "kc_PromoteMember server nodeID =
       [Stdout (''Promoting learner '' @ nodeID @ '' to voter (via '' @ server @ '')...'' @ nl),
        Stdout (nl @ ''Checking learner status...'' @ nl),
        Stdout (check_mark @ '' Learner is caught up'' @ nl),
        Stdout (nl @ ''Promoting to voting member...'' @ nl),
        Stdout (check_mark @ '' Member promoted'' @ nl),
        Stdout (nl @ check_mark @ '' Successfully promoted '' @ nodeID @ '' to voting member'' @ nl)]"

definition kc_ShowLeader :: "kvctl_env \<Rightarrow> string \<Rightarrow> bool \<Rightarrow> kvctl_output list" where
  "kc_ShowLeader env server jsonOutput =
     (let leader = placeholder_member env ''node1'' ''localhost:7001'' True in
      Stdout (''Getting leader information (from '' @ server @ '')...'' @ nl)
      # (if jsonOutput then [EncodedJSON (JsonMember leader)]
         else
           [Stdout (nl @ ''Current Leader:'' @ nl),
            Stdout (''  ID:      '' @ mi_ID leader @ nl),
            Stdout (''  Address: '' @ mi_Address leader @ nl),
            Stdout (''  State:   '' @ mi_State leader @ nl)]))"

definition placeholder_info :: "kvctl_env \<Rightarrow> ClusterInfo" where
  "placeholder_info env =
     \<lparr>ci_LeaderID = ''node1'', ci_CurrentTerm = 5, ci_Members = placeholder_members env,
      ci_MemberCount = 3, ci_VoterCount = 3, ci_LearnerCount = 0, ci_Quorum = 2, ci_Healthy = True,
      ci_Timestamp = en_now env\<rparr>"

definition kc_ShowClusterInfo :: "kvctl_env \<Rightarrow> string \<Rightarrow> bool \<Rightarrow> kvctl_output list" where
  "kc_ShowClusterInfo env server jsonOutput =
     (let info = placeholder_info env in
      Stdout (''Getting cluster information (from '' @ server @ '')...'' @ nl)
      # (if jsonOutput then [EncodedJSON (JsonClusterInfo info)]
         else
           [Stdout (nl @ ''Cluster Information:'' @ nl),
            Stdout (''  Leader:         '' @ ci_LeaderID info @ nl),
            Stdout (''  Current Term:   '' @ decimal (unat (ci_CurrentTerm info)) @ nl),
            Stdout (''  Members:        '' @ decimal (ci_MemberCount info) @ '' total ('' @ decimal (ci_VoterCount info) @ '' voters, '' @ decimal (ci_LearnerCount info) @ '' learners)'' @ nl),
            Stdout (''  Quorum:         '' @ decimal (ci_Quorum info) @ nl),
            Stdout (''  Health:         '' @ show_bool (ci_Healthy info) @ nl),
            Stdout (''  Timestamp:      '' @ en_RFC3339 env (ci_Timestamp info) @ nl),
            Stdout (nl @ ''Members:'' @ nl)] @
           printMembersTable (ci_Members info)))"

definition kc_ShowClusterHealth :: "kvctl_env \<Rightarrow> string \<Rightarrow> bool \<Rightarrow> kvctl_output list" where
  "kc_ShowClusterHealth env server jsonOutput =
     (let health = \<lparr>he_Healthy = True, he_LeaderPresent = True, he_QuorumAvailable = True,
                    he_MembersHealthy = 3, he_MembersTotal = 3, he_Issues = [], he_Timestamp = en_now env\<rparr> in
      Stdout (''Checking cluster health (from '' @ server @ '')...'' @ nl)
      # (if jsonOutput then [EncodedJSON (JsonClusterHealth health)]
         else
           [Stdout (nl @ ''Cluster Health:'' @ nl),
            Stdout (''  Status:           '' @ (if \<not> he_Healthy health then cross_mark @ '' Unhealthy'' else check_mark @ '' Healthy'') @ nl),
            Stdout (''  Leader Present:   '' @ show_bool (he_LeaderPresent health) @ nl),
            Stdout (''  Quorum Available: '' @ show_bool (he_QuorumAvailable health) @ nl),
            Stdout (''  Members:          '' @ decimal (he_MembersHealthy health) @ ''/'' @ decimal (he_MembersTotal health) @ '' healthy'' @ nl)] @
           (if he_Issues health = [] then []
            else Stdout (nl @ ''  Issues:'' @ nl)
              # map (\<lambda>issue. Stdout (''    - '' @ issue @ nl)) (he_Issues health))))"

definition kc_TransferLeadership :: "string \<Rightarrow> string \<Rightarrow> kvctl_output list" where
  "kc_TransferLeadership server targetID =
       [Stdout (''Transferring leadership to '' @ targetID @ '' (via '' @ server @ '')...'' @ nl),
        Stdout (nl @ ''Phase 1: Ensuring target is caught up...'' @ nl),
        Stdout (check_mark @ '' Target is caught up'' @ nl),
        Stdout (nl @ ''Phase 2: Stopping new requests...'' @ nl),
        Stdout (check_mark @ '' Requests stopped'' @ nl),
        Stdout (nl @ ''Phase 3: Sending TimeoutNow to target...'' @ nl),
        Stdout (check_mark @ '' Target starting election'' @ nl),
        Stdout (nl @ ''Phase 4: Waiting for new leader...'' @ nl),
        Stdout (check_mark @ '' '' @ targetID @ '' is now the leader'' @ nl),
        Stdout (nl @ check_mark @ '' Leadership transfer complete'' @ nl)]"

definition kc_ReplaceNode :: "string \<Rightarrow> string \<Rightarrow> string \<Rightarrow> string \<Rightarrow> kvctl_output list" where
  "kc_ReplaceNode server oldNodeID newNodeID newAddress =
       [Stdout (''Replacing '' @ oldNodeID @ '' with '' @ newNodeID @ '' at '' @ newAddress @ '' (via '' @ server @ '')...'' @ nl),
        Stdout (nl @ ''Phase 1: Adding new node as learner...'' @ nl),
        Stdout (check_mark @ '' '' @ newNodeID @ '' added as learner'' @ nl),
        Stdout (nl @ ''Phase 2: Waiting for new node to catch up...'' @ nl),
        Stdout (''  Progress: Replicating log entries...'' @ nl),
        Stdout (check_mark @ '' '' @ newNodeID @ '' caught up'' @ nl),
        Stdout (nl @ ''Phase 3: Promoting new node to voter...'' @ nl),
        Stdout (check_mark @ '' '' @ newNodeID @ '' promoted to voter'' @ nl),
        Stdout (nl @ ''Phase 4: Removing old node...'' @ nl),
        Stdout (check_mark @ '' '' @ oldNodeID @ '' removed from cluster'' @ nl),
        Stdout (nl @ check_mark @ '' Successfully replaced '' @ oldNodeID @ '' with '' @ newNodeID @ nl)]"


section \<open>Formatting\<close>

text \<open>
  \<open>float64(n)\<close> of a non-negative integer: 53 significant bits, rounded to the nearest,
  ties to even. The divisions of \<open>formatBytes\<close> are by powers of two, so they are exact.
\<close>

fun bit_count :: "nat \<Rightarrow> nat" where
  "bit_count n = (if n = 0 then 0 else Suc (bit_count (n div 2)))"

declare bit_count.simps [simp del]

definition round_half_even :: "nat \<Rightarrow> nat \<Rightarrow> nat" where
  "round_half_even n d =
     (let q = n div d; r = n mod d in if 2 * r > d \<or> (2 * r = d \<and> odd q) then q + 1 else q)"

definition float64_of :: "nat \<Rightarrow> nat" where
  "float64_of n =
     (let b = bit_count n
      in if b \<le> 53 then n else round_half_even n (2 ^ (b - 53)) * 2 ^ (b - 53))"

text \<open>\<open>%.1f\<close> of a quotient: tenths, rounded to the nearest, ties to even.\<close>

definition show_tenths :: "nat \<Rightarrow> nat \<Rightarrow> string" where
  "show_tenths n d =
     (let t = round_half_even (10 * n) d in decimal (t div 10) @ ''.'' @ decimal (t mod 10))"

function unit_loop :: "int \<Rightarrow> int \<Rightarrow> nat \<Rightarrow> int \<times> nat" where
  "unit_loop n d e = (if n \<ge> 1024 then unit_loop (n div 1024) (d * 1024) (Suc e) else (d, e))"
  by pat_completeness auto
termination by (relation "measure (\<lambda>(n, d, e). nat n)") auto

declare unit_loop.simps [simp del]

definition formatBytes :: "int \<Rightarrow> go_panic + string" where
  "formatBytes bytes =
     (if bytes < 1024 then Inr (show_int bytes @ '' B'')
      else
        let (d, e) = unit_loop (bytes div 1024) 1024 0
        in if e < length ''KMGTPE''
           then Inr (show_tenths (float64_of (nat bytes)) (nat d) @ '' '' @ [''KMGTPE'' ! e] @ ''B'')
           else Inl IndexOutOfRange)"

definition formatKey :: "string \<Rightarrow> string" where
  "formatKey key = (if length key > 50 then take 47 key @ ''...'' else key)"

text \<open>\<open>strings.ReplaceAll\<close> of one byte.\<close>

definition replace_all :: "char \<Rightarrow> string \<Rightarrow> string \<Rightarrow> string" where
  "replace_all c t s = concat (map (\<lambda>x. if x = c then t else [x]) s)"

definition formatValue :: "bytes \<Rightarrow> string" where
  "formatValue value =
     (let str = map (\<lambda>b. char_of (unat b)) value;
          str = (if length str > 100 then take 97 str @ ''...'' else str);
          str = replace_all (CHR 0x0A) [CHR 0x5C, CHR ''n''] str;
          str = replace_all (CHR 0x0D) [CHR 0x5C, CHR ''r''] str
      in replace_all (CHR 0x09) [CHR 0x5C, CHR ''t''] str)"


section \<open>Maintenance commands\<close>

definition mc_CreateSnapshot :: "string \<Rightarrow> kvctl_output list" where
  "mc_CreateSnapshot server =
       [Stdout (''Creating snapshot (via '' @ server @ '')...'' @ nl),
        Stdout (nl @ ''Phase 1: Capturing state machine...'' @ nl),
        Stdout (check_mark @ '' State captured'' @ nl),
        Stdout (nl @ ''Phase 2: Writing snapshot to disk...'' @ nl),
        Stdout (check_mark @ '' Snapshot written'' @ nl),
        Stdout (nl @ ''Phase 3: Updating metadata...'' @ nl),
        Stdout (check_mark @ '' Metadata updated'' @ nl),
        Stdout (nl @ ''Snapshot created successfully:'' @ nl),
        Stdout (''  ID:    snapshot-2024-01-15-120000'' @ nl),
        Stdout (''  Index: 10000'' @ nl),
        Stdout (''  Term:  5'' @ nl),
        Stdout (''  Size:  2.5 MB'' @ nl)]"

definition placeholder_snapshots :: "kvctl_env \<Rightarrow> SnapshotInfo list" where
  "placeholder_snapshots env =
     [\<lparr>sn_ID = ''snapshot-2024-01-15-120000'', sn_Index = 10000, sn_Term = 5, sn_Size = 2621440,
       sn_CreatedAt = en_now env - 24 * Hour, sn_ConfigMembers = 3\<rparr>,
      \<lparr>sn_ID = ''snapshot-2024-01-14-120000'', sn_Index = 8000, sn_Term = 5, sn_Size = 2097152,
       sn_CreatedAt = en_now env - 48 * Hour, sn_ConfigMembers = 3\<rparr>,
      \<lparr>sn_ID = ''snapshot-2024-01-13-120000'', sn_Index = 6000, sn_Term = 4, sn_Size = 1572864,
       sn_CreatedAt = en_now env - 72 * Hour, sn_ConfigMembers = 3\<rparr>]"

text \<open>The cell of \<open>formatBytes\<close> is a panic's when that panics, which it does not.\<close>

fun snapshot_lines :: "kvctl_env \<Rightarrow> SnapshotInfo list \<Rightarrow> go_panic + kvctl_output list" where
  "snapshot_lines env [] = Inr []"
| "snapshot_lines env (snap # snaps) =
     (case formatBytes (sn_Size snap) of
        Inl p \<Rightarrow> Inl p
      | Inr cell \<Rightarrow>
          (case snapshot_lines env snaps of
             Inl p \<Rightarrow> Inl p
           | Inr ls \<Rightarrow>
               Inr (TabLine [sn_ID snap, decimal (unat (sn_Index snap)), decimal (unat (sn_Term snap)), cell,
                      en_minutes env (sn_CreatedAt snap), decimal (sn_ConfigMembers snap)] # ls)))"

definition mc_ListSnapshots :: "kvctl_env \<Rightarrow> string \<Rightarrow> bool \<Rightarrow> go_panic + kvctl_output list" where
  "mc_ListSnapshots env server jsonOutput =
     (let snapshots = placeholder_snapshots env;
          header = Stdout (''Listing snapshots (from '' @ server @ '')...'' @ nl)
      in if jsonOutput then Inr [header, EncodedJSON (JsonSnapshots snapshots)]
         else case snapshot_lines env snapshots of
                Inl p \<Rightarrow> Inl p
              | Inr ls \<Rightarrow>
                  Inr ([header,
                        TabLine [nl @ ''ID'', ''INDEX'', ''TERM'', ''SIZE'', ''CREATED'', ''MEMBERS''],
                        TabLine [''--'', ''-----'', ''----'', ''----'', ''-------'', ''-------'']] @ ls @
                       [Stdout (nl @ ''Total: '' @ decimal (length snapshots) @ '' snapshots'' @ nl)]))"

definition mc_Compact :: "string \<Rightarrow> kvctl_output list" where
  "mc_Compact server =
       [Stdout (''Compacting logs (via '' @ server @ '')...'' @ nl),
        Stdout (nl @ ''Phase 1: Creating snapshot...'' @ nl),
        Stdout (check_mark @ '' Snapshot created'' @ nl),
        Stdout (nl @ ''Phase 2: Truncating old log entries...'' @ nl),
        Stdout (check_mark @ '' Logs truncated'' @ nl),
        Stdout (nl @ ''Phase 3: Cleaning up WAL segments...'' @ nl),
        Stdout (check_mark @ '' WAL segments cleaned'' @ nl),
        Stdout (nl @ ''Log compaction complete:'' @ nl),
        Stdout (''  Entries removed: 8000'' @ nl),
        Stdout (''  Space reclaimed: 15.2 MB'' @ nl),
        Stdout (''  Current log size: 2000 entries'' @ nl)]"

definition mc_Backup :: "string \<Rightarrow> string \<Rightarrow> kvctl_output list" where
  "mc_Backup server path =
       [Stdout (''Creating backup at '' @ path @ '' (via '' @ server @ '')...'' @ nl),
        Stdout (nl @ ''Phase 1: Creating snapshot...'' @ nl),
        Stdout (check_mark @ '' Snapshot created'' @ nl),
        Stdout (nl @ ''Phase 2: Copying data files...'' @ nl),
        Stdout (check_mark @ '' Data files copied'' @ nl),
        Stdout (nl @ ''Phase 3: Copying configuration...'' @ nl),
        Stdout (check_mark @ '' Configuration copied'' @ nl),
        Stdout (nl @ ''Phase 4: Creating backup archive...'' @ nl),
        Stdout (check_mark @ '' Archive created'' @ nl),
        Stdout (nl @ check_mark @ '' Backup created successfully at '' @ path @ nl),
        Stdout (nl @ ''Backup contents:'' @ nl),
        Stdout (''  - Snapshot: 2.5 MB'' @ nl),
        Stdout (''  - WAL: 5.2 MB'' @ nl),
        Stdout (''  - Configuration: 12 KB'' @ nl),
        Stdout (''  - Total size: 7.7 MB'' @ nl)]"

definition mc_Restore :: "string \<Rightarrow> string \<Rightarrow> kvctl_output list" where
  "mc_Restore server path =
       [Stdout (warning_sign @ '' WARNING: Restore will overwrite all current data!'' @ nl),
        Stdout (''Restoring from '' @ path @ '' (via '' @ server @ '')...'' @ nl),
        Stdout (nl @ ''Phase 1: Validating backup...'' @ nl),
        Stdout (check_mark @ '' Backup valid'' @ nl),
        Stdout (nl @ ''Phase 2: Stopping cluster operations...'' @ nl),
        Stdout (check_mark @ '' Operations stopped'' @ nl),
        Stdout (nl @ ''Phase 3: Extracting backup...'' @ nl),
        Stdout (check_mark @ '' Backup extracted'' @ nl),
        Stdout (nl @ ''Phase 4: Restoring data files...'' @ nl),
        Stdout (check_mark @ '' Data restored'' @ nl),
        Stdout (nl @ ''Phase 5: Restoring configuration...'' @ nl),
        Stdout (check_mark @ '' Configuration restored'' @ nl),
        Stdout (nl @ ''Phase 6: Restarting cluster...'' @ nl),
        Stdout (check_mark @ '' Cluster restarted'' @ nl),
        Stdout (nl @ check_mark @ '' Restore completed successfully'' @ nl),
        Stdout (nl @ ''Restored state:'' @ nl),
        Stdout (''  - Snapshot index: 10000'' @ nl),
        Stdout (''  - Term: 5'' @ nl),
        Stdout (''  - Members: 3'' @ nl),
        Stdout (''  - Data size: 7.7 MB'' @ nl)]"


section \<open>Dispatch\<close>

record ctl_flags =
  kl_serverAddr :: string
  kl_timeout :: duration
  kl_jsonOutput :: bool
  kl_help :: bool

definition default_ctl_flags :: ctl_flags where
  "default_ctl_flags =
     \<lparr>kl_serverAddr = ''localhost:7000'', kl_timeout = 5 * Second, kl_jsonOutput = False, kl_help = False\<rparr>"

definition usage :: string where
  "usage =
     concat (map (\<lambda>line. line @ nl)
       [''kvctl - KeyVal CLI Tool'',
        '''',
        ''Usage:'',
        ''  kvctl <command> [arguments]'',
        '''',
        ''Data Commands:'',
        ''  put <key> <value>                Set a key-value pair'',
        ''  get <key>                        Get a value by key'',
        ''  delete <key>                     Delete a key'',
        ''  scan [prefix]                    Scan keys with optional prefix'',
        '''',
        ''Cluster Commands:'',
        ''  cluster info                     Show cluster information'',
        ''  cluster health                   Show cluster health'',
        ''  cluster leader                   Show current leader'',
        ''  cluster members                  List all cluster members'',
        ''  cluster member <id>              Show specific member info'',
        ''  cluster add <id> <address>       Add a new member'',
        ''  cluster remove <id>              Remove a member'',
        ''  cluster promote <id>             Promote learner to voter'',
        ''  cluster replace <old> <new> <addr>  Replace a node'',
        ''  cluster transfer <id>            Transfer leadership'',
        '''',
        ''Maintenance Commands:'',
        ''  snapshot create                  Create a snapshot'',
        ''  snapshot list                    List snapshots'',
        ''  compact                          Compact logs'',
        ''  backup <path>                    Backup cluster data'',
        ''  restore <path>                   Restore from backup'',
        '''',
        ''Options:'',
        ''  -server <address>     Server address (default: localhost:7000)'',
        ''  -timeout <duration>   Request timeout (default: 5s)'',
        ''  -json                 Output in JSON format'',
        ''  -h, -help             Show this help message'',
        '''',
        ''Examples:'',
        ''  kvctl put mykey myvalue'',
        ''  kvctl get mykey'',
        ''  kvctl cluster members'',
        ''  kvctl cluster add node4 localhost:7004'',
        ''  kvctl snapshot create''])"

definition handleClusterCommand ::
  "kvctl_env \<Rightarrow> ctl_flags \<Rightarrow> string \<Rightarrow> string list \<Rightarrow> ctl_result" where
  "handleClusterCommand env fl server args =
     (case args of
        [] \<Rightarrow> ([], Some ''cluster subcommand required (info, health, leader, members, add, remove, etc.)'')
      | subcommand # subargs \<Rightarrow>
          if subcommand = ''info'' then (kc_ShowClusterInfo env server (kl_jsonOutput fl), None)
          else if subcommand = ''health'' then (kc_ShowClusterHealth env server (kl_jsonOutput fl), None)
          else if subcommand = ''leader'' then (kc_ShowLeader env server (kl_jsonOutput fl), None)
          else if subcommand = ''members'' then (kc_ListMembers env server (kl_jsonOutput fl), None)
          else if subcommand = ''member'' then
            (case subargs of
               [i] \<Rightarrow> (kc_ShowMember env server i (kl_jsonOutput fl), None)
             | _ \<Rightarrow> ([], Some ''usage: kvctl cluster member <id>''))
          else if subcommand = ''add'' then
            (case subargs of
               [i, a] \<Rightarrow> (kc_AddMember server i a, None)
             | _ \<Rightarrow> ([], Some ''usage: kvctl cluster add <id> <address>''))
          else if subcommand = ''remove'' then
            (case subargs of
               [i] \<Rightarrow> (kc_RemoveMember server i False, None)
             | _ \<Rightarrow> ([], Some ''usage: kvctl cluster remove <id>''))
          else if subcommand = ''promote'' then
            (case subargs of
               [i] \<Rightarrow> (kc_PromoteMember server i, None)
             | _ \<Rightarrow> ([], Some ''usage: kvctl cluster promote <id>''))
          else if subcommand = ''transfer'' then
            (case subargs of
               [i] \<Rightarrow> (kc_TransferLeadership server i, None)
             | _ \<Rightarrow> ([], Some ''usage: kvctl cluster transfer <id>''))
          else if subcommand = ''replace'' then
            (case subargs of
               [old, new, addr] \<Rightarrow> (kc_ReplaceNode server old new addr, None)
             | _ \<Rightarrow> ([], Some ''usage: kvctl cluster replace <old-id> <new-id> <new-address>''))
          else ([], Some (''unknown cluster subcommand: '' @ subcommand)))"

definition handleSnapshotCommand ::
  "kvctl_env \<Rightarrow> ctl_flags \<Rightarrow> string \<Rightarrow> string list \<Rightarrow> go_panic + ctl_result" where
  "handleSnapshotCommand env fl server args =
     (case args of
        [] \<Rightarrow> Inr ([], Some ''snapshot subcommand required (create or list)'')
      | subcommand # _ \<Rightarrow>
          if subcommand = ''create'' then Inr (mc_CreateSnapshot server, None)
          else if subcommand = ''list'' then
            (case mc_ListSnapshots env server (kl_jsonOutput fl) of
               Inl p \<Rightarrow> Inl p
             | Inr out \<Rightarrow> Inr (out, None))
          else Inr ([], Some (''unknown snapshot subcommand: '' @ subcommand)))"

definition handleBackupCommand :: "string \<Rightarrow> string list \<Rightarrow> ctl_result" where
  "handleBackupCommand server args =
     (case args of
        [path] \<Rightarrow> (mc_Backup server path, None)
      | _ \<Rightarrow> ([], Some ''usage: kvctl backup <path>''))"

definition handleRestoreCommand :: "string \<Rightarrow> string list \<Rightarrow> ctl_result" where
  "handleRestoreCommand server args =
     (case args of
        [path] \<Rightarrow> (mc_Restore server path, None)
      | _ \<Rightarrow> ([], Some ''usage: kvctl restore <path>''))"

text \<open>The \<open>switch\<close> of \<open>main\<close>; \<open>None\<close> is its default case.\<close>

definition run_command ::
  "kvctl_env \<Rightarrow> ctl_flags \<Rightarrow> string \<Rightarrow> string list \<Rightarrow> go_panic + ctl_result option" where
  "run_command env fl command args =
     (let client = \<lparr>kt_serverAddr = kl_serverAddr fl, kt_timeout = kl_timeout fl, kt_clientID = '''',
                    kt_sequence = 0\<rparr>;
          server = kt_serverAddr client
      in if command = ''put'' then Inr (Some (snd (ctl_Put env args client)))
         else if command = ''get'' then Inr (Some (snd (ctl_Get env args client)))
         else if command = ''delete'' then Inr (Some (snd (ctl_Delete env args client)))
         else if command = ''scan'' then Inr (Some (ctl_Scan args client))
         else if command = ''cluster'' then Inr (Some (handleClusterCommand env fl server args))
         else if command = ''snapshot'' then map_sum id Some (handleSnapshotCommand env fl server args)
         else if command = ''compact'' then Inr (Some (mc_Compact server, None))
         else if command = ''backup'' then Inr (Some (handleBackupCommand server args))
         else if command = ''restore'' then Inr (Some (handleRestoreCommand server args))
         else if command = ''status'' then
           Inr (Some (kc_ShowClusterInfo env server (kl_jsonOutput fl), None))
         else Inr None)"

text \<open>Everything \<open>main\<close> prints, and its exit code.\<close>

definition kvctl_main ::
  "kvctl_env \<Rightarrow> ctl_flags \<Rightarrow> string list \<Rightarrow> go_panic + (kvctl_output list \<times> nat)" where
  "kvctl_main env fl arguments =
     (if kl_help fl \<or> arguments = [] then Inr ([Stderr usage], 0)
      else case run_command env fl (hd arguments) (tl arguments) of
        Inl p \<Rightarrow> Inl p
      | Inr None \<Rightarrow> Inr ([Stderr (''Unknown command: '' @ hd arguments @ nl), Stderr usage], 1)
      | Inr (Some (out, None)) \<Rightarrow> Inr (out, 0)
      | Inr (Some (out, Some err)) \<Rightarrow> Inr (out @ [Stderr (''Error: '' @ err @ nl)], 1))"


section \<open>Properties of the formatting\<close>

lemma unit_loop_bounds:
  "1 \<le> n \<Longrightarrow> 0 < d \<Longrightarrow> n * d \<le> b \<Longrightarrow> b < (n + 1) * d \<Longrightarrow> d = 1024 ^ Suc e \<Longrightarrow>
   case unit_loop n d e of (d', e') \<Rightarrow> d' = 1024 ^ Suc e' \<and> d' \<le> b \<and> b < 1024 * d'"
proof (induction n d e rule: unit_loop.induct)
  case (1 n d e)
  show ?case
  proof (cases "n \<ge> 1024")
    case True
    have "n div 1024 * 1024 \<le> n" "n + 1 \<le> (n div 1024 + 1) * 1024" by presburger+
    then have "n div 1024 * 1024 * d \<le> n * d" "(n + 1) * d \<le> (n div 1024 + 1) * 1024 * d"
      using "1.prems"(2) by (intro mult_right_mono; simp)+
    then have "n div 1024 * 1024 * d \<le> b" "b < (n div 1024 + 1) * 1024 * d"
      using "1.prems"(3,4) by linarith+
    then have "n div 1024 * (d * 1024) \<le> b" "b < (n div 1024 + 1) * (d * 1024)"
      by (simp_all only: ac_simps)
    moreover have "1 \<le> n div 1024" using True by linarith
    ultimately have "case unit_loop (n div 1024) (d * 1024) (Suc e) of
        (d', e') \<Rightarrow> d' = 1024 ^ Suc e' \<and> d' \<le> b \<and> b < 1024 * d'"
      using 1 True by (intro "1.IH") auto
    then show ?thesis using True by (subst unit_loop.simps) simp
  next
    case False
    have "d \<le> n * d" using "1.prems"(1,2) by simp
    moreover have "(n + 1) * d \<le> 1024 * d" using False "1.prems"(2) by (intro mult_right_mono) auto
    ultimately have "d \<le> b" "b < 1024 * d" using "1.prems"(3,4) by linarith+
    moreover have "unit_loop n d e = (d, e)" using False by (subst unit_loop.simps) simp
    ultimately show ?thesis using "1.prems"(5) by simp
  qed
qed

lemma unit_loop_start:
  assumes "1024 \<le> b"
  shows "case unit_loop (b div 1024) 1024 0 of (d, e) \<Rightarrow> d = 1024 ^ Suc e \<and> d \<le> b \<and> b < 1024 * d"
  using assms by (intro unit_loop_bounds) auto

text \<open>
  For every 64-bit size the unit exists, so \<open>formatBytes\<close> does not panic, and the size
  is at least one of the unit and less than 1024 of it.
\<close>

theorem formatBytes_unit:
  assumes "1024 \<le> b" "b < 2 ^ 63"
  shows "\<exists>e t. e < 6 \<and> 1024 ^ Suc e \<le> b \<and> b < 1024 ^ Suc (Suc e) \<and>
     t = round_half_even (10 * float64_of (nat b)) (1024 ^ Suc e) \<and>
     formatBytes b = Inr (decimal (t div 10) @ ''.'' @ decimal (t mod 10) @ '' '' @ [''KMGTPE'' ! e] @ ''B'')"
proof -
  obtain d e where loop: "unit_loop (b div 1024) 1024 0 = (d, e)" by (cases "unit_loop (b div 1024) 1024 0")
  then have d: "d = 1024 ^ Suc e" "d \<le> b" "b < 1024 * d" using unit_loop_start [OF assms(1)] by auto
  have e: "e < 6"
  proof (rule ccontr)
    assume "\<not> e < 6"
    then have "(1024::int) ^ 7 \<le> 1024 ^ Suc e" by (intro power_increasing) auto
    with d assms(2) show False by simp
  qed
  have "nat d = 1024 ^ Suc e" using d(1) by (simp add: nat_power_eq nat_mult_distrib)
  then have "formatBytes b = Inr (show_tenths (float64_of (nat b)) (1024 ^ Suc e) @ '' '' @ [''KMGTPE'' ! e] @ ''B'')"
    using assms(1) loop e by (simp add: formatBytes_def)
  with d e show ?thesis by (auto simp: show_tenths_def Let_def)
qed

lemma formatKey_length: "length (formatKey key) \<le> 50"
  by (simp add: formatKey_def)

lemma set_replace_all: "set (replace_all c t s) \<subseteq> (set s - {c}) \<union> set t"
  by (auto simp: replace_all_def split: if_splits)

lemma formatValue_one_line:
  "CHR 0x0A \<notin> set (formatValue value) \<and> CHR 0x0D \<notin> set (formatValue value) \<and> CHR 0x09 \<notin> set (formatValue value)"
proof -
  have "CHR 0x0A \<notin> set (replace_all (CHR 0x0A) [CHR 0x5C, CHR ''n''] s)" for s
    using set_replace_all [of "CHR 0x0A" "[CHR 0x5C, CHR ''n'']" s] by auto
  moreover have "c \<notin> set s \<Longrightarrow> c \<noteq> CHR 0x5C \<Longrightarrow> c \<noteq> CHR ''r'' \<Longrightarrow>
      c \<notin> set (replace_all (CHR 0x0D) [CHR 0x5C, CHR ''r''] s)" for c s
    using set_replace_all [of "CHR 0x0D" "[CHR 0x5C, CHR ''r'']" s] by auto
  moreover have "CHR 0x0D \<notin> set (replace_all (CHR 0x0D) [CHR 0x5C, CHR ''r''] s)" for s
    using set_replace_all [of "CHR 0x0D" "[CHR 0x5C, CHR ''r'']" s] by auto
  moreover have "c \<notin> set s \<Longrightarrow> c \<noteq> CHR 0x5C \<Longrightarrow> c \<noteq> CHR ''t'' \<Longrightarrow>
      c \<notin> set (replace_all (CHR 0x09) [CHR 0x5C, CHR ''t''] s)" for c s
    using set_replace_all [of "CHR 0x09" "[CHR 0x5C, CHR ''t'']" s] by auto
  moreover have "CHR 0x09 \<notin> set (replace_all (CHR 0x09) [CHR 0x5C, CHR ''t''] s)" for s
    using set_replace_all [of "CHR 0x09" "[CHR 0x5C, CHR ''t'']" s] by auto
  ultimately show ?thesis by (simp add: formatValue_def Let_def)
qed


section \<open>Properties of the dispatch\<close>

text \<open>The command lines the usage text lists: the words, and how many arguments follow.\<close>

definition grammar :: "(string list \<times> nat set) list" where
  "grammar =
     [([''put''], {2}), ([''get''], {1}), ([''delete''], {1}), ([''scan''], UNIV),
      ([''cluster'', ''info''], UNIV), ([''cluster'', ''health''], UNIV), ([''cluster'', ''leader''], UNIV),
      ([''cluster'', ''members''], UNIV), ([''cluster'', ''member''], {1}), ([''cluster'', ''add''], {2}),
      ([''cluster'', ''remove''], {1}), ([''cluster'', ''promote''], {1}), ([''cluster'', ''replace''], {3}),
      ([''cluster'', ''transfer''], {1}), ([''snapshot'', ''create''], UNIV), ([''snapshot'', ''list''], UNIV),
      ([''compact''], UNIV), ([''backup''], {1}), ([''restore''], {1}), ([''status''], UNIV)]"

definition well_formed :: "string list \<Rightarrow> bool" where
  "well_formed arguments \<longleftrightarrow>
     (\<exists>(ws, ks) \<in> set grammar. \<exists>rest. arguments = ws @ rest \<and> length rest \<in> ks)"

lemma ListSnapshots_prints: "\<exists>out. mc_ListSnapshots env server json = Inr out"
proof -
  have "\<exists>s. formatBytes b = Inr s" if "b < 2 ^ 63" for b
    using formatBytes_unit [OF _ that] by (cases "1024 \<le> b") (auto simp: formatBytes_def)
  then have "\<exists>ls. snapshot_lines env snaps = Inr ls" if "\<forall>s \<in> set snaps. sn_Size s < 2 ^ 63" for snaps
    using that by (induction snaps) (force split: sum.split)+
  moreover have "\<forall>s \<in> set (placeholder_snapshots env). sn_Size s < 2 ^ 63"
    by (simp add: placeholder_snapshots_def)
  ultimately obtain ls where "snapshot_lines env (placeholder_snapshots env) = Inr ls" by blast
  then show ?thesis by (simp add: mc_ListSnapshots_def Let_def)
qed

lemma length_1_iff: "length xs = Suc 0 \<longleftrightarrow> (\<exists>x. xs = [x])"
  by (cases xs) auto

lemma length_2_iff: "length xs = 2 \<longleftrightarrow> (\<exists>x y. xs = [x, y])"
  by (auto simp: numeral_2_eq_2 length_Suc_conv)

lemma length_3_iff: "length xs = 3 \<longleftrightarrow> (\<exists>x y z. xs = [x, y, z])"
  by (auto simp: numeral_3_eq_3 length_Suc_conv)


text \<open>Whether \<open>well_formed\<close> holds depends on the first word, then on the second.\<close>

lemma well_formed_Nil [simp]: "\<not> well_formed []"
  by (simp add: well_formed_def grammar_def)

lemma well_formed_word:
  "well_formed (command # args) \<longleftrightarrow>
     (if command = ''put'' then length args = 2
      else if command \<in> {''get'', ''delete'', ''backup'', ''restore''} then length args = 1
      else if command = ''cluster'' then well_formed (''cluster'' # args)
      else if command = ''snapshot'' then args \<noteq> [] \<and> hd args \<in> {''create'', ''list''}
      else command \<in> {''scan'', ''compact'', ''status''})"
  by (cases args) (auto simp: well_formed_def grammar_def)

lemmas well_formed_words =
  well_formed_word [of "''put''"] well_formed_word [of "''get''"] well_formed_word [of "''delete''"]
  well_formed_word [of "''scan''"] well_formed_word [of "''snapshot''"] well_formed_word [of "''compact''"]
  well_formed_word [of "''backup''"] well_formed_word [of "''restore''"] well_formed_word [of "''status''"]

lemma well_formed_cluster:
  "well_formed (''cluster'' # args) \<longleftrightarrow>
     (case args of
        [] \<Rightarrow> False
      | sub # rest \<Rightarrow>
          if sub \<in> {''info'', ''health'', ''leader'', ''members''} then True
          else if sub \<in> {''member'', ''remove'', ''promote'', ''transfer''} then length rest = 1
          else if sub = ''add'' then length rest = 2
          else sub = ''replace'' \<and> length rest = 3)"
  by (cases args) (auto simp: well_formed_def grammar_def)

lemma cluster_command_ok:
  "snd (handleClusterCommand env fl server args) = None \<longleftrightarrow> well_formed (''cluster'' # args)"
proof (cases args)
  case Nil
  then show ?thesis by (simp add: handleClusterCommand_def well_formed_cluster)
next
  case (Cons sub rest)
  show ?thesis
    unfolding Cons well_formed_cluster handleClusterCommand_def
    by (auto simp: length_1_iff length_2_iff length_3_iff split: list.split if_split)
qed


lemma snapshot_command:
  "\<exists>r. handleSnapshotCommand env fl server args = Inr r \<and>
     (snd r = None \<longleftrightarrow> args \<noteq> [] \<and> hd args \<in> {''create'', ''list''})"
  using ListSnapshots_prints [of env server "kl_jsonOutput fl"]
  by (cases args) (auto simp: handleSnapshotCommand_def)

lemma data_commands_ok:
  "snd (snd (ctl_Put env args c)) = None \<longleftrightarrow> length args = 2"
  "snd (snd (ctl_Get env args c)) = None \<longleftrightarrow> length args = 1"
  "snd (snd (ctl_Delete env args c)) = None \<longleftrightarrow> length args = 1"
  "snd (ctl_Scan args c) = None"
  "snd (handleBackupCommand server args) = None \<longleftrightarrow> length args = 1"
  "snd (handleRestoreCommand server args) = None \<longleftrightarrow> length args = 1"
  by (auto simp: ctl_Put_def ctl_Get_def ctl_Delete_def ctl_Scan_def handleBackupCommand_def
      handleRestoreCommand_def Let_def case_prod_unfold length_1_iff length_2_iff split: list.split)

definition command_result :: "go_panic + ctl_result option \<Rightarrow> bool" where
  "command_result r = (case r of Inr (Some (_, None)) \<Rightarrow> True | _ \<Rightarrow> False)"

lemma run_command_ok:
  "(\<exists>r. run_command env fl command args = Inr r) \<and>
   command_result (run_command env fl command args) = well_formed (command # args)"
proof -
  have res: "command_result (Inr (Some r)) \<longleftrightarrow> snd r = None" for r
    by (cases r) (auto simp: command_result_def split: option.split)
  have none: "\<not> command_result (Inr None)" by (simp add: command_result_def)
  obtain r where r: "handleSnapshotCommand env fl (kl_serverAddr fl) args = Inr r"
    "snd r = None \<longleftrightarrow> args \<noteq> [] \<and> hd args \<in> {''create'', ''list''}"
    using snapshot_command [of env fl "kl_serverAddr fl" args] by (elim exE conjE) (rule that)
  note rules = well_formed_word [of command args] run_command_def Let_def res none data_commands_ok
    cluster_command_ok
  consider "command = ''put''" | "command = ''get''" | "command = ''delete''" | "command = ''scan''"
    | "command = ''cluster''" | "command = ''snapshot''" | "command = ''compact''" | "command = ''backup''"
    | "command = ''restore''" | "command = ''status''"
    | "command \<notin> {''put'', ''get'', ''delete'', ''scan'', ''cluster'', ''snapshot'', ''compact'',
         ''backup'', ''restore'', ''status''}"
    by (simp only: insert_iff empty_iff) metis
  then show ?thesis
  proof cases
    case 5
    then show ?thesis by (simp add: run_command_def Let_def res cluster_command_ok)
  next
    case 6
    then show ?thesis using r by (simp add: rules well_formed_words)
  next
    case 11
    then show ?thesis by (simp add: rules)
  qed (simp_all add: rules well_formed_words)
qed

text \<open>\<open>kvctl\<close> never panics. It ends with exit code 0 exactly when help was asked for, no
  command was given, or the command line is one of those its usage text lists, whatever the
  server address, the timeout and the output format: no answer of a cluster has a part in it.\<close>

theorem kvctl_exit_code:
  "\<exists>out code. kvctl_main env fl arguments = Inr (out, code) \<and>
     (code = 0 \<longleftrightarrow> kl_help fl \<or> arguments = [] \<or> well_formed arguments)"
proof (cases "kl_help fl \<or> arguments = []")
  case True
  then show ?thesis by (auto simp: kvctl_main_def)
next
  case False
  then obtain command args where arguments: "arguments = command # args" by (cases arguments) auto
  obtain r where "run_command env fl command args = Inr r"
    "command_result (Inr r) = well_formed arguments"
    using run_command_ok [of env fl command args] arguments by auto
  then show ?thesis
    using False arguments
    by (auto simp: kvctl_main_def command_result_def split: option.splits)
qed

text \<open>
  A put is reported as successful, with the sequence number and the client identifier of its
  process only: every run of the tool starts the sequence at 1.
\<close>

theorem put_succeeds_offline:
  "kvctl_main env fl [''put'', key, value] =
     (if kl_help fl then Inr ([Stderr usage], 0)
      else Inr ([Stdout (''PUT '' @ key @ '' = '' @ value @ '' (request would be sent to '' @
                   kl_serverAddr fl @ '')'' @ nl),
                 Stdout (''Request ID: '' @ ctl_generateRequestID env @ nl),
                 Stdout (''Success: true'' @ nl)], 0))"
  by (simp add: kvctl_main_def run_command_def ctl_Put_def ctl_request_def getClientID_def
      nextSequence_def Let_def)

text \<open>The tool's own \<open>README.md\<close> documents commands that its dispatch refuses.\<close>

lemma documented_commands_refused:
  "\<not> well_formed [''members'', ''list'']" "\<not> well_formed [''members'', ''add'', i, a]"
  "\<not> well_formed [''members'', ''remove'', i]" "\<not> well_formed [''snapshot'']"
  by (simp_all add: well_formed_word)

lemma first_sequence:
  "cl = \<lparr>kt_serverAddr = a, kt_timeout = t, kt_clientID = '''', kt_sequence = 0\<rparr> \<Longrightarrow>
   rq_Sequence (snd (ctl_request env ty key v cl)) = 1 \<and>
   rq_ClientID (snd (ctl_request env ty key v cl)) = en_hostname env @ ''-'' @ decimal (en_pid env)"
  by (simp add: ctl_request_def getClientID_def nextSequence_def Let_def)

end
